(* ===== verification/UC_Prelude.thy ===== *)
theory UC_Prelude
  imports Main "HOL-Library.Word" "HOL-Library.Sublist"
begin

text \<open>
  Shared vocabulary of the development: the exceptions the extension throws, results and effectful
  computations with their laws, the machine integers of the code, and generic lemmas on lists.

  A C++ function that may throw returns \<open>uc_exn + 'a\<close>. A function with effects is a state
  transformer \<open>('s, 'a) io\<close>: it returns its result (or the exception that leaves it) with the
  state at that point, so that whatever was done before a throw stays done, as in the code.
\<close>

unbundle bit_operations_syntax

section \<open>Machine integers\<close>

text \<open>\<open>idx_t\<close> and \<open>uint64_t\<close> are \<open>u64\<close>; \<open>int64_t\<close> is \<open>i64\<close>, the same bits read with \<open>sint\<close>.\<close>

type_synonym u8 = "8 word"
type_synonym u32 = "32 word"
type_synonym u64 = "64 word"
type_synonym i64 = "64 word"
type_synonym i32 = "32 word"
type_synonym bytes = "8 word list"

section \<open>Exceptions\<close>

text \<open>
  The exception classes of the code, each with its message (the words of the format string and the
  arguments put into it; quotation marks around an argument may be left out). \<open>CatalogException\<close> carries the \<open>error_subtype\<close> first.
  \<open>StdException\<close> is an exception of the C++ standard library. \<open>OutOfBoundsRead\<close> is no
  exception of the code: it marks a read outside a buffer, which is undefined behaviour there.
\<close>

datatype uc_exn =
    IOException string
  | InvalidInputException string
  | NotImplementedException string
  | CatalogException string string
  | BinderException string
  | InternalException string
  | InvalidConfigurationException string
  | MissingExtensionException string
  | ConversionException string
  | InterruptException
  | StdException string
  | OutOfBoundsRead

type_synonym 'a res = "uc_exn + 'a"

section \<open>Results\<close>

definition bind_res :: "'a res \<Rightarrow> ('a \<Rightarrow> 'b res) \<Rightarrow> 'b res" where
  "bind_res m f = (case m of Inl e \<Rightarrow> Inl e | Inr x \<Rightarrow> f x)"

lemma bind_res_simps [simp]:
  "bind_res (Inr x) f = f x"
  "bind_res (Inl e) f = Inl e"
  by (simp_all add: bind_res_def)

lemma bind_res_Inr [simp]: "bind_res m Inr = m"
  by (cases m) simp_all

lemma bind_res_assoc: "bind_res (bind_res m f) g = bind_res m (\<lambda>x. bind_res (f x) g)"
  by (cases m) simp_all

lemma bind_res_eq_Inr:
  "bind_res m f = Inr y \<longleftrightarrow> (\<exists>x. m = Inr x \<and> f x = Inr y)"
  by (cases m) simp_all

lemma bind_res_eq_Inl:
  "bind_res m f = Inl e \<longleftrightarrow> m = Inl e \<or> (\<exists>x. m = Inr x \<and> f x = Inl e)"
  by (cases m) simp_all

lemma bind_res_cong [fundef_cong]:
  assumes "m = m'" and "\<And>x. m' = Inr x \<Longrightarrow> f x = f' x"
  shows "bind_res m f = bind_res m' f'"
  using assms by (cases m') simp_all

text \<open>A loop that appends the result of each element and stops at the first exception.\<close>

fun map_res :: "('a \<Rightarrow> 'b res) \<Rightarrow> 'a list \<Rightarrow> 'b list res" where
  "map_res f [] = Inr []"
| "map_res f (x # xs) = bind_res (f x) (\<lambda>y. bind_res (map_res f xs) (\<lambda>ys. Inr (y # ys)))"

lemma map_res_Inr_length: "map_res f xs = Inr ys \<Longrightarrow> length ys = length xs"
  by (induction xs arbitrary: ys) (auto simp: bind_res_eq_Inr)

lemma map_res_Inr_iff:
  "map_res f xs = Inr ys \<longleftrightarrow> list_all2 (\<lambda>x y. f x = Inr y) xs ys"
  by (induction xs arbitrary: ys) (auto simp: bind_res_eq_Inr list_all2_Cons1)

lemma map_res_cong [fundef_cong]:
  "xs = ys \<Longrightarrow> (\<And>x. x \<in> set ys \<Longrightarrow> f x = g x) \<Longrightarrow> map_res f xs = map_res g ys"
  by (induction xs arbitrary: ys) auto

lemma map_res_all_Inr:
  "(\<And>x. x \<in> set xs \<Longrightarrow> f x = Inr (g x)) \<Longrightarrow> map_res f xs = Inr (map g xs)"
  by (induction xs) simp_all

section \<open>Effectful computations\<close>

type_synonym ('s, 'a) io = "'s \<Rightarrow> 'a res \<times> 's"

definition ret :: "'a \<Rightarrow> ('s, 'a) io" where
  "ret x = (\<lambda>s. (Inr x, s))"

definition throw :: "uc_exn \<Rightarrow> ('s, 'a) io" where
  "throw e = (\<lambda>s. (Inl e, s))"

definition bind :: "('s, 'a) io \<Rightarrow> ('a \<Rightarrow> ('s, 'b) io) \<Rightarrow> ('s, 'b) io" where
  "bind m f = (\<lambda>s. case m s of (Inl e, s') \<Rightarrow> (Inl e, s') | (Inr x, s') \<Rightarrow> f x s')"

text \<open>\<open>try_catch m h\<close> is \<open>try { m } catch (...) { h(exception) }\<close>.\<close>

definition try_catch :: "('s, 'a) io \<Rightarrow> (uc_exn \<Rightarrow> ('s, 'a) io) \<Rightarrow> ('s, 'a) io" where
  "try_catch m h = (\<lambda>s. case m s of (Inl e, s') \<Rightarrow> h e s' | (Inr x, s') \<Rightarrow> (Inr x, s'))"

text \<open>\<open>attempt m\<close> hands the result or the exception of \<open>m\<close> on as a value.\<close>

definition attempt :: "('s, 'a) io \<Rightarrow> ('s, 'a res) io" where
  "attempt m = (\<lambda>s. case m s of (r, s') \<Rightarrow> (Inr r, s'))"

definition lift_res :: "'a res \<Rightarrow> ('s, 'a) io" where
  "lift_res r = (\<lambda>s. (r, s))"

definition get_state :: "('s \<Rightarrow> 'a) \<Rightarrow> ('s, 'a) io" where
  "get_state f = (\<lambda>s. (Inr (f s), s))"

definition modify :: "('s \<Rightarrow> 's) \<Rightarrow> ('s, unit) io" where
  "modify f = (\<lambda>s. (Inr (), f s))"

fun mapM :: "('a \<Rightarrow> ('s, 'b) io) \<Rightarrow> 'a list \<Rightarrow> ('s, 'b list) io" where
  "mapM f [] = ret []"
| "mapM f (x # xs) = bind (f x) (\<lambda>y. bind (mapM f xs) (\<lambda>ys. ret (y # ys)))"

lemma bind_simps [simp]:
  "bind (ret x) f = f x"
  "bind (throw e) f = throw e"
  "bind (lift_res (Inr x)) f = f x"
  "bind (lift_res (Inl e)) f = throw e"
  by (simp_all add: bind_def ret_def throw_def lift_res_def fun_eq_iff)

lemma run_simps [simp]:
  "ret x s = (Inr x, s)"
  "throw e s = (Inl e, s)"
  "lift_res r s = (r, s)"
  "get_state f s = (Inr (f s), s)"
  "modify g s = (Inr (), g s)"
  by (simp_all add: ret_def throw_def lift_res_def get_state_def modify_def)

lemma bind_run:
  "bind m f s = (case m s of (Inl e, s') \<Rightarrow> (Inl e, s') | (Inr x, s') \<Rightarrow> f x s')"
  by (simp add: bind_def)

lemma try_catch_run:
  "try_catch m h s = (case m s of (Inl e, s') \<Rightarrow> h e s' | (Inr x, s') \<Rightarrow> (Inr x, s'))"
  by (simp add: try_catch_def)

lemma attempt_run: "m s = (r, t) \<Longrightarrow> attempt m s = (Inr r, t)"
  by (simp add: attempt_def)

lemma attempt_eq: "attempt m s = (x, t) \<longleftrightarrow> (\<exists>r. x = Inr r \<and> m s = (r, t))"
  by (auto simp: attempt_def split: prod.splits)

lemma bind_Inr: "m s = (Inr x, s') \<Longrightarrow> bind m f s = f x s'"
  by (simp add: bind_def)

lemma bind_Inl: "m s = (Inl e, s') \<Longrightarrow> bind m f s = (Inl e, s')"
  by (simp add: bind_def)

lemma bind_eq_Inr:
  "bind m f s = (Inr y, t) \<longleftrightarrow> (\<exists>x s'. m s = (Inr x, s') \<and> f x s' = (Inr y, t))"
  by (auto simp: bind_def split: prod.splits sum.splits)

lemma bind_eq_Inl:
  "bind m f s = (Inl e, t) \<longleftrightarrow>
     m s = (Inl e, t) \<or> (\<exists>x s'. m s = (Inr x, s') \<and> f x s' = (Inl e, t))"
  by (auto simp: bind_def split: prod.splits sum.splits)

lemma bind_assoc: "bind (bind m f) g = bind m (\<lambda>x. bind (f x) g)"
  by (auto simp: bind_def fun_eq_iff split: prod.splits sum.splits)

lemma bind_cong [fundef_cong]:
  assumes "m s = m' s'" and "\<And>x t. m' s' = (Inr x, t) \<Longrightarrow> f x t = f' x t"
  shows "bind m f s = bind m' f' s'"
  using assms by (auto simp: bind_def split: prod.splits sum.splits)

lemma try_catch_cong [fundef_cong]:
  assumes "m s = m' s'" and "\<And>e t. m' s' = (Inl e, t) \<Longrightarrow> h e t = h' e t"
  shows "try_catch m h s = try_catch m' h' s'"
  using assms by (auto simp: try_catch_def split: prod.splits sum.splits)

lemma run_cases:
  obtains (Inl) e t where "m = (Inl e, t)" | (Inr) x t where "m = (Inr x, t)"
  by (cases m; cases "fst m") auto

section \<open>Invariants of computations\<close>

text \<open>
  \<open>keeps R m\<close>: whatever \<open>m\<close> returns, the state it leaves is related by \<open>R\<close> to the state
  it started in. For a reflexive and transitive \<open>R\<close> this is closed under the combinators, which is how
  a property of one external call becomes a property of every operation built from it.
\<close>

definition keeps :: "('s \<Rightarrow> 's \<Rightarrow> bool) \<Rightarrow> ('s, 'a) io \<Rightarrow> bool" where
  "keeps R m \<longleftrightarrow> (\<forall>s. R s (snd (m s)))"

named_theorems keeps_intro

locale effect_order =
  fixes R :: "'s \<Rightarrow> 's \<Rightarrow> bool"
  assumes R_refl: "R s s"
    and R_trans: "R s t \<Longrightarrow> R t u \<Longrightarrow> R s u"
begin

lemma keeps_pure:
  "keeps R (ret x)" "keeps R (throw e)" "keeps R (lift_res r)" "keeps R (get_state f)"
  by (simp_all add: keeps_def R_refl)

lemma keeps_bind:
  assumes "keeps R m" and "\<And>x. keeps R (f x)"
  shows "keeps R (bind m f)"
  unfolding keeps_def
proof
  fix s
  obtain r t where m: "m s = (r, t)" by (cases "m s")
  have t: "R s t" using assms(1) m by (metis keeps_def snd_conv)
  show "R s (snd (bind m f s))"
  proof (cases r)
    case (Inl e)
    then show ?thesis using m t by (simp add: bind_Inl)
  next
    case (Inr x)
    have "R t (snd (f x t))" using assms(2) by (simp add: keeps_def)
    then show ?thesis using m t Inr R_trans by (simp add: bind_Inr)
  qed
qed

lemma keeps_try_catch:
  assumes "keeps R m" and "\<And>e. keeps R (h e)"
  shows "keeps R (try_catch m h)"
  unfolding keeps_def
proof
  fix s
  obtain r t where m: "m s = (r, t)" by (cases "m s")
  have t: "R s t" using assms(1) m by (metis keeps_def snd_conv)
  show "R s (snd (try_catch m h s))"
  proof (cases r)
    case (Inl e)
    have "R t (snd (h e t))" using assms(2) by (simp add: keeps_def)
    then show ?thesis using m t Inl R_trans by (simp add: try_catch_run)
  next
    case (Inr x)
    then show ?thesis using m t by (simp add: try_catch_run)
  qed
qed

lemma keeps_attempt: "keeps R m \<Longrightarrow> keeps R (attempt m)"
  by (simp add: keeps_def attempt_def case_prod_beta)

lemma keeps_mapM: "(\<And>x. keeps R (f x)) \<Longrightarrow> keeps R (mapM f xs)"
  by (induction xs) (simp_all add: keeps_pure keeps_bind)

lemma keepsD: "keeps R m \<Longrightarrow> m s = (r, t) \<Longrightarrow> R s t"
  by (metis keeps_def snd_conv)

end

section \<open>Lists\<close>

lemma filter_sorted_wrt_mono:
  "sorted_wrt P xs \<Longrightarrow> sorted_wrt P (filter Q xs)"
  by (rule sorted_wrt_filter)

lemma take_drop_append_len:
  "take (length ys) (drop (length xs) (xs @ ys @ zs)) = ys"
  by simp

end
