(* ===== verification/UC_Json.thy ===== *)
theory UC_Json
  imports UC_Strings
begin

text \<open>
  JSON documents as the code sees them through yyjson, and the readers built on it:
  \<open>TemplatedTryGetYYJson\<close> with its two instances, \<open>ReadStringMap\<close>, \<open>ReadStringArray\<close> (and their
  copies in \<open>storage/uc_table_set.cpp\<close>), \<open>JsonStringArray\<close> and \<open>JsonStringMap\<close>.

  A document is a tree. yyjson tells three number kinds apart: an unsigned and a negative integer,
  each in 64 bits, and a real, of which the code never reads the value. A \<open>yyjson_val *\<close>, which may
  be null, is a \<open>json option\<close>; the accessors return null, zero or no elements on a value of another
  kind, as yyjson documents. Parsing and writing text is yyjson's and is a parameter where it is used.
\<close>

section \<open>Values and accessors\<close>

datatype json =
    JNull
  | JBool bool
  | JUint u64
  | JSint u64
  | JReal u64
  | JStr string
  | JArr "json list"
  | JObj "(string \<times> json) list"

fun is_num :: "json \<Rightarrow> bool" where
  "is_num (JUint _) = True"
| "is_num (JSint _) = True"
| "is_num (JReal _) = True"
| "is_num _ = False"

fun is_int :: "json \<Rightarrow> bool" where
  "is_int (JUint _) = True"
| "is_int (JSint _) = True"
| "is_int _ = False"

fun is_str :: "json \<Rightarrow> bool" where
  "is_str (JStr _) = True"
| "is_str _ = False"

fun is_obj :: "json \<Rightarrow> bool" where
  "is_obj (JObj _) = True"
| "is_obj _ = False"

fun is_arr :: "json \<Rightarrow> bool" where
  "is_arr (JArr _) = True"
| "is_arr _ = False"

text \<open>\<open>yyjson_obj_get\<close>: the value of the first member of that name.\<close>

fun obj_get :: "json option \<Rightarrow> string \<Rightarrow> json option" where
  "obj_get (Some (JObj kvs)) k = map_of kvs k"
| "obj_get _ k = None"

text \<open>\<open>yyjson_get_uint\<close> and \<open>yyjson_get_sint\<close>: the bits of an integer, zero for anything else.\<close>

fun get_int :: "json option \<Rightarrow> u64" where
  "get_int (Some (JUint w)) = w"
| "get_int (Some (JSint w)) = w"
| "get_int _ = 0"

fun get_str :: "json option \<Rightarrow> string option" where
  "get_str (Some (JStr s)) = Some s"
| "get_str _ = None"

text \<open>\<open>yyjson_arr_foreach\<close> and \<open>yyjson_obj_foreach\<close>: no iteration on another kind of value.\<close>

fun arr_items :: "json option \<Rightarrow> json list" where
  "arr_items (Some (JArr xs)) = xs"
| "arr_items _ = []"

fun obj_items :: "json option \<Rightarrow> (string \<times> json) list" where
  "obj_items (Some (JObj kvs)) = kvs"
| "obj_items _ = []"

lemma obj_get_not_obj: "\<not> is_obj v \<Longrightarrow> obj_get (Some v) k = None"
  by (cases v) simp_all

section \<open>Field readers\<close>

definition invalid_field :: "string \<Rightarrow> uc_exn" where
  "invalid_field field = IOException (''Invalid field found while parsing field: '' @ field)"

definition templated_try_get ::
  "(json \<Rightarrow> bool) \<Rightarrow> (json option \<Rightarrow> 'a) \<Rightarrow> json option \<Rightarrow> string \<Rightarrow> 'a \<Rightarrow> bool \<Rightarrow> 'a res" where
  "templated_try_get has_type getter obj field default_val fail_on_missing =
     (case obj_get obj field of
        Some v \<Rightarrow>
          if v \<noteq> JNull
          then (if has_type v then Inr (getter (Some v)) else Inl (invalid_field field))
          else (if fail_on_missing then Inl (invalid_field field) else Inr default_val)
      | None \<Rightarrow> if fail_on_missing then Inl (invalid_field field) else Inr default_val)"

definition try_get_num :: "json option \<Rightarrow> string \<Rightarrow> bool \<Rightarrow> u64 res" where
  "try_get_num obj field fail_on_missing =
     templated_try_get is_num get_int obj field 0 fail_on_missing"

definition try_get_str :: "json option \<Rightarrow> string \<Rightarrow> bool \<Rightarrow> string res" where
  "try_get_str obj field fail_on_missing =
     templated_try_get is_str (\<lambda>v. case get_str v of Some s \<Rightarrow> cstr s | None \<Rightarrow> [])
       obj field [] fail_on_missing"

lemma try_get_str_Inr:
  "try_get_str obj field True = Inr s \<longleftrightarrow> (\<exists>t. obj_get obj field = Some (JStr t) \<and> s = cstr t)"
  by (auto simp: try_get_str_def templated_try_get_def split: option.splits elim: is_str.elims)

lemma try_get_str_optional:
  "try_get_str obj field False = Inr s \<longleftrightarrow>
     (\<exists>t. obj_get obj field = Some (JStr t) \<and> s = cstr t) \<or>
     (obj_get obj field \<in> {None, Some JNull} \<and> s = [])"
  by (auto simp: try_get_str_def templated_try_get_def split: option.splits elim: is_str.elims)

lemma try_get_num_Inr:
  "try_get_num obj field fail = Inr n \<longleftrightarrow>
     (\<exists>v. obj_get obj field = Some v \<and> is_num v \<and> n = get_int (Some v)) \<or>
     (\<not> fail \<and> obj_get obj field \<in> {None, Some JNull} \<and> n = 0)"
  by (auto simp: try_get_num_def templated_try_get_def split: option.splits)

lemma try_get_errors:
  "try_get_str obj field fail = Inl e \<Longrightarrow> e = invalid_field field"
  "try_get_num obj field fail = Inl e \<Longrightarrow> e = invalid_field field"
  by (auto simp: try_get_num_def try_get_str_def templated_try_get_def split: option.splits if_splits)

section \<open>String maps and arrays\<close>

text \<open>\<open>write\<close> stands for \<open>yyjson_val_write\<close>, which returns null when it cannot encode.\<close>

fun read_member :: "(json \<Rightarrow> string option) \<Rightarrow> string \<times> json \<Rightarrow> (string \<times> string) list res" where
  "read_member write (k, JNull) = Inr []"
| "read_member write (k, JStr s) = Inr [(cstr k, cstr s)]"
| "read_member write (k, v) =
     (if (case v of JBool _ \<Rightarrow> True | _ \<Rightarrow> is_num v)
      then (case write v of
              None \<Rightarrow> Inl (InvalidInputException ''yyjson property encoding failed'')
            | Some text \<Rightarrow> Inr [(cstr k, text)])
      else Inl (InvalidInputException (''Unity Catalog sent property '' @ in_double_quotes (cstr k)
                  @ '' as a JSON object or array, which a Delta table property cannot hold'')))"

definition read_string_map ::
  "(json \<Rightarrow> string option) \<Rightarrow> json option \<Rightarrow> (string \<times> string) list res" where
  "read_string_map write obj = bind_res (map_res (read_member write) (obj_items obj)) (Inr \<circ> concat)"

fun string_item :: "json \<Rightarrow> string list" where
  "string_item (JStr s) = [cstr s]"
| "string_item _ = []"

definition read_string_array :: "json option \<Rightarrow> string list" where
  "read_string_array arr = concat (map string_item (arr_items arr))"

text \<open>The copies in the table set: the map reader there takes string members only.\<close>

definition read_json_string_array :: "json option \<Rightarrow> string list" where
  "read_json_string_array arr = concat (map string_item (arr_items arr))"

definition read_json_string_map :: "json option \<Rightarrow> (string \<times> string) list" where
  "read_json_string_map obj =
     concat (map (\<lambda>(k, v). map (Pair (cstr k)) (string_item v)) (obj_items obj))"

lemma read_string_map_agrees:
  assumes "\<forall>(k, v) \<in> set (obj_items obj). is_str v"
  shows "read_string_map write obj = Inr (read_json_string_map obj)"
proof -
  have "map_res (read_member write) kvs
          = Inr (map (\<lambda>(k, v). map (Pair (cstr k)) (string_item v)) kvs)"
    if "\<forall>(k, v) \<in> set kvs. is_str v" for kvs
    using that by (induction kvs) (auto elim: is_str.elims)
  then show ?thesis using assms by (simp add: read_string_map_def read_json_string_map_def)
qed

lemma read_string_map_nested:
  assumes "(k, v) \<in> set (obj_items obj)" and "is_obj v \<or> is_arr v"
  shows "\<exists>e. read_string_map write obj = Inl e"
proof -
  have "\<exists>e. map_res (read_member write) kvs = Inl e" if "(k, v) \<in> set kvs" for kvs
    using that
  proof (induction kvs)
    case (Cons a kvs)
    show ?case
    proof (cases "a = (k, v)")
      case True
      then show ?thesis using assms(2) by (cases v) auto
    next
      case False
      then show ?thesis using Cons by (cases "read_member write a") auto
    qed
  qed simp
  then obtain e where "map_res (read_member write) (obj_items obj) = Inl e" using assms(1) by blast
  then show ?thesis by (simp add: read_string_map_def)
qed

section \<open>Writing strings\<close>

text \<open>\<open>enc\<close> stands for yyjson's writing of one string value, null when it fails.\<close>

definition yyjson_encode_string :: "(string \<Rightarrow> string option) \<Rightarrow> string \<Rightarrow> string res" where
  "yyjson_encode_string enc raw =
     (case enc raw of None \<Rightarrow> Inl (InvalidInputException ''yyjson string encoding failed'')
      | Some s \<Rightarrow> Inr s)"

definition json_string_array :: "(string \<Rightarrow> string option) \<Rightarrow> string list \<Rightarrow> string res" where
  "json_string_array enc xs =
     bind_res (map_res (yyjson_encode_string enc) xs)
       (\<lambda>encoded. Inr (''['' @ join '', '' encoded @ '']''))"

definition json_string_map :: "(string \<Rightarrow> string option) \<Rightarrow> (string \<times> string) list \<Rightarrow> string res" where
  "json_string_map enc xs =
     bind_res
       (map_res (\<lambda>(k, v). bind_res (yyjson_encode_string enc k) (\<lambda>ek.
                   bind_res (yyjson_encode_string enc v) (\<lambda>ev. Inr (ek @ '': '' @ ev)))) xs)
       (\<lambda>encoded. Inr (''{'' @ join '', '' encoded @ ''}''))"

section \<open>Reading a string back\<close>

text \<open>
  A reference for what a JSON parser makes of the strings the code writes by hand: the characters of
  a JSON string up to its closing quote, with the two-character escapes of RFC 8259. A raw control
  character is not a string. (\<open>\uXXXX\<close> escapes are never written and left out.)
\<close>

definition json_unescape :: "char \<Rightarrow> char option" where
  "json_unescape e =
     (if e = CHR 0x22 \<or> e = CHR 0x5C \<or> e = CHR 0x2F then Some e
      else if e = CHR ''b'' then Some (CHR 0x08) else if e = CHR ''f'' then Some (CHR 0x0C)
      else if e = CHR ''n'' then Some (CHR 0x0A) else if e = CHR ''r'' then Some (CHR 0x0D)
      else if e = CHR ''t'' then Some (CHR 0x09) else None)"

definition is_control :: "char \<Rightarrow> bool" where
  "is_control c \<longleftrightarrow> (of_char c :: nat) < 32"

fun json_chars :: "string \<Rightarrow> (string \<times> string) option" where
  "json_chars [] = None"
| "json_chars (c # cs) =
     (if c = CHR 0x22 then Some ([], cs)
      else if c = CHR 0x5C
      then (case cs of
              [] \<Rightarrow> None
            | e # cs' \<Rightarrow> (case json_unescape e of
                None \<Rightarrow> None
              | Some d \<Rightarrow> map_option (apfst (Cons d)) (json_chars cs')))
      else if is_control c then None
      else map_option (apfst (Cons c)) (json_chars cs))"

fun json_string :: "string \<Rightarrow> (string \<times> string) option" where
  "json_string (c # cs) = (if c = CHR 0x22 then json_chars cs else None)"
| "json_string [] = None"

text \<open>
  An escaping function writes a character as itself or as its escape; then the characters of a
  string are read back exactly when no control character is written as itself.
\<close>

definition escapes :: "(char \<Rightarrow> string) \<Rightarrow> bool" where
  "escapes f \<longleftrightarrow> (\<forall>c. (f c = [c] \<and> c \<noteq> CHR 0x22 \<and> c \<noteq> CHR 0x5C) \<or>
     (\<exists>e. f c = [CHR 0x5C, e] \<and> json_unescape e = Some c))"

lemma json_chars_escaped:
  assumes "escapes f"
  shows "json_chars (concat (map f s) @ CHR 0x22 # rest)
    = (if \<exists>c \<in> set s. is_control c \<and> f c = [c] then None else Some (s, rest))"
proof (induction s)
  case (Cons c s)
  from assms consider "f c = [c]" "c \<noteq> CHR 0x22" "c \<noteq> CHR 0x5C"
    | e where "f c = [CHR 0x5C, e]" "json_unescape e = Some c" unfolding escapes_def by blast
  then show ?case using Cons by cases (auto split: if_splits)
qed simp

end
