(* ===== verification/UC_Crc.thy ===== *)
theory UC_Crc
  imports UC_Prelude
begin

text \<open>
  The \<open>CRC32\<close> class of \<open>src/uc_puffin.cpp\<close>: the 256-entry table, the table-driven update and
  the final complement. The lemmas show that the table computes the bit-by-bit division
  (\<open>crc_update_bitwise\<close>), and that the checksum tells apart any two inputs that differ in one byte
  (\<open>crc32_single_byte\<close>).
\<close>

section \<open>The code\<close>

definition crc_step :: "u32 \<Rightarrow> u32" where
  "crc_step c = (if c AND 1 \<noteq> 0 then 0xEDB88320 XOR drop_bit 1 c else drop_bit 1 c)"

definition crc_entry :: "nat \<Rightarrow> u32" where
  "crc_entry i = (crc_step ^^ 8) (of_nat i)"

definition crc_table :: "u32 list" where
  "crc_table = map crc_entry [0..<256]"

fun crc_update :: "u32 \<Rightarrow> bytes \<Rightarrow> u32" where
  "crc_update crc [] = crc"
| "crc_update crc (b # bs) =
     crc_update ((crc_table ! unat ((crc XOR ucast b) AND 0xFF)) XOR drop_bit 8 crc) bs"

definition crc_value :: "u32 \<Rightarrow> u32" where
  "crc_value crc = crc XOR 0xFFFFFFFF"

definition crc32 :: "bytes \<Rightarrow> u32" where
  "crc32 bs = crc_value (crc_update 0xFFFFFFFF bs)"

section \<open>Reference: division bit by bit\<close>

fun crc_bitwise :: "u32 \<Rightarrow> bytes \<Rightarrow> u32" where
  "crc_bitwise crc [] = crc"
| "crc_bitwise crc (b # bs) = crc_bitwise ((crc_step ^^ 8) (crc XOR ucast b)) bs"

section \<open>The step is linear and injective\<close>

lemma xor_cancel [simp]: "x XOR a = y XOR a \<longleftrightarrow> x = (y :: 'a::len word)"
  by (auto simp: bit_eq_iff bit_xor_iff)

lemma xor_cancel_left [simp]: "a XOR x = a XOR y \<longleftrightarrow> x = (y :: 'a::len word)"
  by (auto simp: bit_eq_iff bit_xor_iff)

lemma xor_eq_0_iff: "x XOR y = 0 \<longleftrightarrow> x = (y :: 'a::len word)"
  by (auto simp: bit_eq_iff bit_xor_iff)

lemma ff_mask: "(0xFF :: u32) = mask 8"
  by (simp add: mask_eq_exp_minus_1)

lemma and_1_bit: "(c AND 1 \<noteq> 0) = bit (c :: u32) 0"
  by (simp only: and_one_eq bit_0 even_iff_mod_2_eq_zero)

lemma crc_step_alt: "crc_step c = (if bit c 0 then 0xEDB88320 XOR drop_bit 1 c else drop_bit 1 c)"
  by (simp add: crc_step_def and_1_bit)

lemma crc_step_xor: "crc_step (x XOR y) = crc_step x XOR crc_step y"
proof (rule bit_word_eqI)
  fix n
  assume "n < LENGTH(32)"
  show "bit (crc_step (x XOR y)) n = bit (crc_step x XOR crc_step y) n"
    by (cases "bit x 0"; cases "bit y 0") (simp_all add: crc_step_alt bit_xor_iff bit_drop_bit_eq, blast+)
qed

lemma crc_steps_xor: "(crc_step ^^ n) (x XOR y) = (crc_step ^^ n) x XOR (crc_step ^^ n) y"
  by (induction n) (simp_all add: crc_step_xor)

lemma crc_step_0 [simp]: "crc_step 0 = 0"
  by (simp add: crc_step_def)

lemma crc_step_eq_0: "crc_step x = 0 \<Longrightarrow> x = 0"
proof (rule ccontr)
  assume z: "crc_step x = 0" and "x \<noteq> 0"
  show False
  proof (cases "bit x 0")
    case True
    then have "bit (crc_step x) 31"
      by (simp add: crc_step_alt bit_xor_iff bit_drop_bit_eq bit_word_iff_drop_bit_and)
    then show False using z by simp
  next
    case False
    then have d: "drop_bit 1 x = 0" using z by (simp add: crc_step_alt)
    have "\<not> bit x n" for n
    proof (cases n)
      case (Suc m)
      have "\<not> bit (drop_bit 1 x) m" using d by simp
      then show ?thesis using Suc by (simp add: bit_drop_bit_eq)
    qed (use False in simp)
    then have "x = 0" by (simp add: bit_eq_iff)
    then show False using \<open>x \<noteq> 0\<close> by simp
  qed
qed

lemma crc_step_inject: "crc_step x = crc_step y \<longleftrightarrow> x = y"
proof
  assume "crc_step x = crc_step y"
  then have "crc_step (x XOR y) = 0" by (simp add: crc_step_xor)
  then have "x XOR y = 0" by (rule crc_step_eq_0)
  then show "x = y" by (simp add: xor_eq_0_iff)
qed simp

lemma crc_steps_inject: "(crc_step ^^ n) x = (crc_step ^^ n) y \<longleftrightarrow> x = y"
  by (induction n) (simp_all add: crc_step_inject)

lemma crc_steps_shift: "(\<forall>i < n. \<not> bit x i) \<Longrightarrow> (crc_step ^^ n) x = drop_bit n x"
proof (induction n)
  case (Suc n)
  have "(crc_step ^^ Suc n) x = crc_step (drop_bit n x)" using Suc by simp
  also have "\<dots> = drop_bit (Suc n) x" using Suc.prems by (simp add: crc_step_alt bit_drop_bit_eq drop_bit_drop_bit)
  finally show ?case .
qed simp

section \<open>The table is the step applied eight times\<close>

lemma crc_table_nth: "unat c < 256 \<Longrightarrow> crc_table ! unat c = (crc_step ^^ 8) c"
  by (simp add: crc_table_def crc_entry_def)

lemma low_byte_less: "unat ((c :: u32) AND 0xFF) < 256"
proof -
  have "(c AND 0xFF) = take_bit 8 c" unfolding ff_mask by (simp add: take_bit_eq_mask)
  then have "unat (c AND 0xFF) = take_bit 8 (unat c)" by (simp add: unsigned_take_bit_eq)
  then show ?thesis using take_bit_nat_less_exp[of 8 "unat c"] by simp
qed

lemma split_low_byte: "(c :: u32) = (c AND mask 8) XOR (c AND NOT (mask 8))"
  by (rule bit_word_eqI) (auto simp: bit_xor_iff bit_and_iff bit_not_iff bit_mask_iff)

lemma ucast_high_bits: "8 \<le> n \<Longrightarrow> \<not> bit (ucast (b :: u8) :: u32) n"
  using bit_imp_le_length[of b n] by (auto simp: bit_ucast_iff)

lemma crc_byte_step:
  "(crc_table ! unat ((crc XOR ucast b) AND 0xFF)) XOR drop_bit 8 crc
     = (crc_step ^^ 8) (crc XOR ucast (b :: u8))"
proof -
  let ?z = "crc XOR ucast b :: u32"
  have "(crc_step ^^ 8) (?z AND NOT (mask 8)) = drop_bit 8 (?z AND NOT (mask 8))"
    by (rule crc_steps_shift) (simp add: bit_and_iff bit_not_iff bit_mask_iff)
  also have "\<dots> = drop_bit 8 crc"
    by (rule bit_word_eqI)
       (auto simp: bit_drop_bit_eq bit_and_iff bit_not_iff bit_xor_iff bit_mask_iff ucast_high_bits
             dest: bit_imp_le_length)
  finally have "(crc_step ^^ 8) ?z = (crc_step ^^ 8) (?z AND mask 8) XOR drop_bit 8 crc"
    by (metis split_low_byte crc_steps_xor)
  moreover have "crc_table ! unat (?z AND 0xFF) = (crc_step ^^ 8) (?z AND 0xFF)"
    by (rule crc_table_nth) (rule low_byte_less)
  ultimately show ?thesis unfolding ff_mask by simp
qed

lemma crc_update_bitwise: "crc_update c bs = crc_bitwise c bs"
  by (induction bs arbitrary: c) (simp_all add: crc_byte_step)

section \<open>One changed byte changes the checksum\<close>

lemma crc_bitwise_append: "crc_bitwise c (xs @ ys) = crc_bitwise (crc_bitwise c xs) ys"
  by (induction xs arbitrary: c) simp_all

lemma crc_bitwise_inject: "crc_bitwise c bs = crc_bitwise c' bs \<longleftrightarrow> c = c'"
  by (induction bs arbitrary: c c') (simp_all add: crc_steps_inject)

lemma crc32_single_byte:
  assumes "b \<noteq> b'"
  shows "crc32 (xs @ b # ys) \<noteq> crc32 (xs @ b' # ys)"
proof
  assume "crc32 (xs @ b # ys) = crc32 (xs @ b' # ys)"
  then have "(ucast b :: u32) = ucast b'"
    by (simp add: crc32_def crc_value_def crc_update_bitwise crc_bitwise_append
        crc_bitwise_inject crc_steps_inject)
  then have "bit b n = bit b' n" for n
    using bit_imp_le_length[of b n] bit_imp_le_length[of b' n]
    by (auto simp: bit_eq_iff bit_ucast_iff)
  then show False using assms by (simp add: bit_eq_iff)
qed

section \<open>Properties\<close>

text \<open>
  C34: The table-driven checksum of the code is the bit-by-bit polynomial division, for every input.
\<close>

theorem crc32_is_bitwise_division: "crc32 bs = crc_bitwise 0xFFFFFFFF bs XOR 0xFFFFFFFF"
  by (simp add: crc32_def crc_value_def crc_update_bitwise)

end
