(* ===== verification/UC_Puffin.thy ===== *)
theory UC_Puffin
  imports UC_Json UC_Crc
begin

text \<open>
  The deletion-vector reader of \<open>src/uc_puffin.cpp\<close>: \<open>UCDeletionVectorData::FromBlob\<close> and
  \<open>ToSet\<close>, and the puffin container (\<open>ValidateFooter\<close>, \<open>TryParseBlobMetadata\<close>,
  \<open>ParseFileMetadata\<close>, \<open>UCPuffinReader\<close>).

  A buffer is its list of bytes. Every access goes through \<open>load\<close>, which returns
  \<open>OutOfBoundsRead\<close> outside the buffer, where the C++ would have undefined behaviour; the lemmas
  \<open>from_blob_safe\<close> and \<open>parse_footer_cases\<close> show that no input reaches it. Pointers are offsets;
  \<open>idx_t\<close> values of the container are 64-bit words, and \<open>vector_size\<close> is the 32-bit word that the
  code lets underflow. The roaring library is a parameter: \<open>rb_size\<close> is
  \<open>roaring_bitmap_portable_deserialize_size\<close> on the bytes it may look at, \<open>rb_read\<close> is
  \<open>Roaring::readSafe\<close>. \<open>rb_reserve\<close> is the allocator's answer to room for a number of bitmaps, which the code asks
  for before it has checked the number. The JSON parser is the parameter \<open>read\<close>.
\<close>

section \<open>Reading a buffer\<close>

definition load :: "bytes \<Rightarrow> nat \<Rightarrow> nat \<Rightarrow> bytes res" where
  "load data off n =
     (if off + n \<le> length data then Inr (take n (drop off data)) else Inl OutOfBoundsRead)"

fun le_val :: "bytes \<Rightarrow> nat" where
  "le_val [] = 0"
| "le_val (b # bs) = unat b + 256 * le_val bs"

text \<open>\<open>Load<uint32_t>\<close>, \<open>Load<int64_t>\<close> on a little-endian host, and \<open>BSwap(Load<uint32_t>)\<close>.\<close>

definition load_u32 :: "bytes \<Rightarrow> nat \<Rightarrow> u32 res" where
  "load_u32 data off = bind_res (load data off 4) (\<lambda>bs. Inr (of_nat (le_val bs)))"

definition load_u64 :: "bytes \<Rightarrow> nat \<Rightarrow> u64 res" where
  "load_u64 data off = bind_res (load data off 8) (\<lambda>bs. Inr (of_nat (le_val bs)))"

definition load_be32 :: "bytes \<Rightarrow> nat \<Rightarrow> u32 res" where
  "load_be32 data off = bind_res (load data off 4) (\<lambda>bs. Inr (of_nat (le_val (rev bs))))"

lemma load_in_bounds [simp]: "off + n \<le> length data \<Longrightarrow> load data off n = Inr (take n (drop off data))"
  by (simp add: load_def)

lemma loads_in_bounds [simp]:
  "off + 4 \<le> length data \<Longrightarrow> load_u32 data off = Inr (of_nat (le_val (take 4 (drop off data))))"
  "off + 8 \<le> length data \<Longrightarrow> load_u64 data off = Inr (of_nat (le_val (take 8 (drop off data))))"
  "off + 4 \<le> length data \<Longrightarrow> load_be32 data off = Inr (of_nat (le_val (rev (take 4 (drop off data)))))"
  by (simp_all add: load_u32_def load_u64_def load_be32_def)

section \<open>Deletion vectors\<close>

record roaring_ops =
  rb_size :: "bytes \<Rightarrow> nat"
  rb_read :: "bytes \<Rightarrow> u32 list res"
  rb_reserve :: "nat \<Rightarrow> unit res"

text \<open>\<open>bitmaps\<close>: 32-bit key to the values of its bitmap; \<open>emplace\<close> keeps a key that is there.\<close>

type_synonym dv_data = "(i32 \<times> u32 list) list"

definition emplace :: "'k \<Rightarrow> 'v \<Rightarrow> ('k \<times> 'v) list \<Rightarrow> ('k \<times> 'v) list" where
  "emplace k v m = (if k \<in> fst ` set m then m else m @ [(k, v)])"

definition dv_magic :: bytes where
  "dv_magic = [0xD1, 0xD3, 0x39, 0x64]"

definition dv_error :: "string \<Rightarrow> string \<Rightarrow> uc_exn" where
  "dv_error path why = InvalidInputException (''Deletion vector blob in \"'' @ path @ ''\" '' @ why)"

primrec read_bitmaps ::
  "roaring_ops \<Rightarrow> string \<Rightarrow> bytes \<Rightarrow> nat \<Rightarrow> nat \<Rightarrow> u32 \<Rightarrow> dv_data \<Rightarrow> (nat \<times> dv_data) res" where
  "read_bitmaps rb path blob 0 pos vector_size bitmaps = Inr (pos, bitmaps)"
| "read_bitmaps rb path blob (Suc n) pos vector_size bitmaps =
     (if length blob < pos + 4
      then Inl (dv_error path ''is corrupt (truncated bitmap key)'')
      else bind_res (load_u32 blob pos) (\<lambda>key.
        let pos = pos + 4;
            vector_size = vector_size - 4;
            remaining = length blob - pos;
            max_bytes = min (unat vector_size) remaining
        in bind_res (load blob pos max_bytes) (\<lambda>reach.
          let bitmap_size = rb_size rb reach
          in if bitmap_size = 0 \<or> length blob < pos + bitmap_size
             then Inl (dv_error path ''is corrupt (bad bitmap payload)'')
             else bind_res (load blob pos bitmap_size) (\<lambda>payload.
               bind_res (rb_read rb payload) (\<lambda>bitmap.
                 read_bitmaps rb path blob n (pos + bitmap_size)
                   (vector_size - of_nat bitmap_size) (emplace key bitmap bitmaps))))))"

definition from_blob :: "roaring_ops \<Rightarrow> bytes \<Rightarrow> string \<Rightarrow> dv_data res" where
  "from_blob rb blob path =
     (if length blob < 20 then Inl (dv_error path (''is too small ('' @ show_nat (length blob) @ '' bytes)''))
      else bind_res (load_be32 blob 0) (\<lambda>vector_size.
        bind_res (load blob 4 4) (\<lambda>magic.
          if magic \<noteq> dv_magic then Inl (dv_error path ''has a magic mismatch'')
          else if length blob < 8 + 8 then Inl (dv_error path ''is corrupt (truncated bitmap count)'')
          else bind_res (load_u64 blob 8) (\<lambda>amount_of_bitmaps.
            if sint amount_of_bitmaps < 0 \<or> length blob < 16
            then Inl (dv_error path ''is corrupt (bad bitmap count)'')
            else bind_res (rb_reserve rb (unat amount_of_bitmaps)) (\<lambda>_. bind_res
              (read_bitmaps rb path blob (unat amount_of_bitmaps) 16 (vector_size - 4 - 8) [])
              (\<lambda>(pos, bitmaps).
                if pos + 4 \<noteq> length blob
                then Inl (dv_error path ''is corrupt (trailing bytes after checksum)'')
                else bind_res (load_be32 blob pos) (\<lambda>stored_checksum.
                  bind_res (load blob 4 (pos - 4)) (\<lambda>checksummed.
                    if crc32 checksummed \<noteq> stored_checksum
                    then Inl (dv_error path ''failed its checksum (corrupt or truncated)'')
                    else Inr bitmaps))))))))"

text \<open>\<open>ToSet\<close>: the key is sign-extended to 64 bits before it is shifted.\<close>

definition dv_position :: "i32 \<Rightarrow> u32 \<Rightarrow> u64" where
  "dv_position key v = (push_bit 32 (scast key)) OR (ucast v)"

definition to_set :: "dv_data \<Rightarrow> u64 set \<Rightarrow> u64 set" where
  "to_set bitmaps out = out \<union> (\<Union>(key, vs) \<in> set bitmaps. dv_position key ` set vs)"

section \<open>The puffin container\<close>

record puffin_blob =
  blob_offset :: u64
  blob_length :: u64

definition puffin_magic :: bytes where
  "puffin_magic = [0x50, 0x46, 0x41, 0x31]"

definition puffin_error :: "string \<Rightarrow> string \<Rightarrow> uc_exn" where
  "puffin_error path why = InvalidInputException (''Puffin file \"'' @ path @ ''\" '' @ why)"

definition is_bare_deletion_vector :: "bytes \<Rightarrow> u64 \<Rightarrow> bool res" where
  "is_bare_deletion_vector data sz =
     (if 8 \<le> sz then bind_res (load data 4 4) (\<lambda>m. Inr (m = dv_magic)) else Inr False)"

definition validate_footer :: "bytes \<Rightarrow> u64 \<Rightarrow> string \<Rightarrow> u64 res" where
  "validate_footer data sz path =
     bind_res (load data (unat (sz - 4)) 4) (\<lambda>trailing.
       if trailing \<noteq> puffin_magic then Inl (puffin_error path ''is corrupt - trailing magic mismatch'')
       else bind_res (load_u32 data (unat (sz - 4 - 4))) (\<lambda>flags.
         if flags AND 1 \<noteq> 0 then Inl (puffin_error path ''has a compressed footer, which is not supported'')
         else if flags \<noteq> 0 then Inl (puffin_error path ''has unsupported footer flags'')
         else bind_res (load_u32 data (unat (sz - 12))) (\<lambda>stored_size.
           let payload_size = ucast stored_size :: u64
           in if sz - 20 < payload_size
              then Inl (puffin_error path ''is corrupt - footer payload size out of range'')
              else let payload_start = sz - 12 - payload_size
                   in bind_res (load data (unat (payload_start - 4)) 4) (\<lambda>m.
                        if m \<noteq> puffin_magic
                        then Inl (puffin_error path ''is corrupt - footer magic mismatch'')
                        else Inr payload_start))))"

definition try_parse_blob_metadata :: "json \<Rightarrow> u64 \<Rightarrow> string \<Rightarrow> puffin_blob option res" where
  "try_parse_blob_metadata blob_val blob_section_end path =
     (case get_str (obj_get (Some blob_val) ''type'') of
        None \<Rightarrow> Inl (puffin_error path ''is corrupt - blob without a type'')
      | Some blob_type \<Rightarrow>
          if blob_type \<noteq> ''deletion-vector-v1'' then Inr None
          else (case (obj_get (Some blob_val) ''offset'', obj_get (Some blob_val) ''length'') of
             (Some off, Some len) \<Rightarrow>
               if \<not> is_int off \<or> \<not> is_int len
               then Inl (puffin_error path ''is corrupt - blob without offset/length'')
               else let raw_offset = get_int (Some off); raw_length = get_int (Some len)
                    in if sint raw_offset < 0 \<or> sint raw_length < 0
                       then Inl (puffin_error path ''is corrupt - blob offset/length out of range'')
                       else if raw_offset < 4 \<or> blob_section_end < raw_length
                               \<or> blob_section_end - raw_length < raw_offset
                       then Inl (puffin_error path ''is corrupt - blob offset/length out of range'')
                       else Inr (Some \<lparr>blob_offset = raw_offset, blob_length = raw_length\<rparr>)
           | _ \<Rightarrow> Inl (puffin_error path ''is corrupt - blob without offset/length'')))"

definition string_of_bytes :: "bytes \<Rightarrow> string" where
  "string_of_bytes bs = map (\<lambda>b. char_of (unat b)) bs"

definition parse_file_metadata ::
  "(string \<Rightarrow> json option) \<Rightarrow> bytes \<Rightarrow> u64 \<Rightarrow> string \<Rightarrow> puffin_blob list res" where
  "parse_file_metadata read payload blob_section_end path =
     (case read (string_of_bytes payload) of
        None \<Rightarrow> Inl (puffin_error path ''is corrupt - failed to parse footer payload'')
      | Some root \<Rightarrow>
          (case obj_get (Some root) ''blobs'' of
             Some (JArr blobs) \<Rightarrow>
               bind_res (map_res (\<lambda>b. try_parse_blob_metadata b blob_section_end path) blobs)
                 (\<lambda>found. Inr (concat (map (\<lambda>b. case b of None \<Rightarrow> [] | Some x \<Rightarrow> [x]) found)))
           | _ \<Rightarrow> Inl (puffin_error path ''is corrupt - footer has no \"blobs\" list'')))"

text \<open>\<open>UCPuffinReader\<close>: the constructor runs \<open>ParseFooter\<close>, which fills \<open>blobs\<close>.\<close>

definition starts_with_puffin_magic :: "bytes \<Rightarrow> u64 \<Rightarrow> bool res" where
  "starts_with_puffin_magic data sz =
     (if 20 \<le> sz then bind_res (load data 0 4) (\<lambda>m. Inr (m = puffin_magic)) else Inr False)"

definition parse_footer ::
  "(string \<Rightarrow> json option) \<Rightarrow> bytes \<Rightarrow> u64 \<Rightarrow> string \<Rightarrow> puffin_blob list res" where
  "parse_footer read data sz path =
     bind_res (starts_with_puffin_magic data sz) (\<lambda>container.
       if container
       then bind_res (validate_footer data sz path) (\<lambda>payload_start.
         let payload_size = sz - 12 - payload_start;
             blob_section_end = payload_start - 4
         in bind_res (load data (unat payload_start) (unat payload_size)) (\<lambda>payload.
              parse_file_metadata read payload blob_section_end path))
       else bind_res (is_bare_deletion_vector data sz) (\<lambda>bare.
         if bare then Inr [\<lparr>blob_offset = 0, blob_length = sz\<rparr>]
         else Inl (InvalidInputException
                (''File \"'' @ path @ ''\" is not a valid deletion vector - magic mismatch''))))"

definition decode_blob :: "roaring_ops \<Rightarrow> bytes \<Rightarrow> string \<Rightarrow> puffin_blob \<Rightarrow> dv_data res" where
  "decode_blob rb data path blob =
     bind_res (load data (unat (blob_offset blob)) (unat (blob_length blob)))
       (\<lambda>bs. from_blob rb bs path)"

section \<open>Reads stay inside the buffer\<close>

text \<open>\<open>Roaring::readSafe\<close> is memory safe on the bytes it is given, and the allocator reads no file.\<close>

definition rb_safe :: "roaring_ops \<Rightarrow> bool" where
  "rb_safe rb \<longleftrightarrow> (\<forall>p. rb_read rb p \<noteq> Inl OutOfBoundsRead) \<and> (\<forall>n. rb_reserve rb n \<noteq> Inl OutOfBoundsRead)"

lemma read_bitmaps_safe:
  "rb_safe rb \<Longrightarrow> pos \<le> length blob \<Longrightarrow>
     read_bitmaps rb path blob n pos vs bitmaps \<noteq> Inl OutOfBoundsRead"
  by (induction n arbitrary: pos vs bitmaps)
     (auto simp: Let_def rb_safe_def dv_error_def bind_res_eq_Inl)

lemma read_bitmaps_bounds:
  "read_bitmaps rb path blob n pos vs bitmaps = Inr (q, r) \<Longrightarrow> pos \<le> length blob \<Longrightarrow>
     pos + 5 * n \<le> q \<and> q \<le> length blob"
proof (induction n arbitrary: pos vs bitmaps)
  case (Suc n)
  from Suc.prems obtain k b p v s where
    rec: "read_bitmaps rb path blob n (pos + 4 + s) v (emplace k b p) = Inr (q, r)"
    and s: "s \<noteq> 0" "pos + 4 + s \<le> length blob"
    by (auto simp: Let_def bind_res_eq_Inr not_less split: if_splits)
  show ?case using Suc.IH[OF rec s(2)] s(1) by simp
qed simp

lemma from_blob_safe:
  assumes "rb_safe rb"
  shows "from_blob rb blob path \<noteq> Inl OutOfBoundsRead"
proof
  assume oob: "from_blob rb blob path = Inl OutOfBoundsRead"
  then have len: "20 \<le> length blob" by (auto simp: from_blob_def dv_error_def split: if_splits)
  define n where "n = unat (of_nat (le_val (take 8 (drop 8 blob))) :: u64)"
  define vs :: u32 where "vs = of_nat (le_val (rev (take 4 blob))) - 4 - 8"
  have "read_bitmaps rb path blob n 16 vs [] \<noteq> Inl OutOfBoundsRead"
    using assms len by (intro read_bitmaps_safe) simp_all
  moreover have "q \<le> length blob \<and> 16 \<le> q" if "read_bitmaps rb path blob n 16 vs [] = Inr (q, r)" for q r
    using read_bitmaps_bounds[OF that] len by simp
  moreover have "rb_reserve rb n \<noteq> Inl OutOfBoundsRead" using assms by (simp add: rb_safe_def)
  ultimately show False using oob len
    by (auto simp: from_blob_def dv_error_def n_def vs_def bind_res_eq_Inl split: if_splits)
qed


lemma unat_sub_le: "(b :: 'a::len word) \<le> a \<Longrightarrow> unat (a - b) = unat a - unat b"
  by (rule unat_sub)

text \<open>The footer's arithmetic on \<open>idx_t\<close> never wraps for a file of at least the minimal size.\<close>

lemma footer_offsets:
  assumes "20 \<le> (sz :: u64)"
  shows "unat (sz - 4) = unat sz - 4" and "unat (sz - 8) = unat sz - 8"
    and "unat (sz - 12) = unat sz - 12" and "unat (sz - 20) = unat sz - 20" and "20 \<le> unat sz"
proof -
  show ge: "20 \<le> unat sz" using assms by (simp add: word_le_nat_alt)
  show "unat (sz - 4) = unat sz - 4" using ge by (subst unat_sub_le) (simp_all add: word_le_nat_alt)
  show "unat (sz - 8) = unat sz - 8" using ge by (subst unat_sub_le) (simp_all add: word_le_nat_alt)
  show "unat (sz - 12) = unat sz - 12" using ge by (subst unat_sub_le) (simp_all add: word_le_nat_alt)
  show "unat (sz - 20) = unat sz - 20" using ge by (subst unat_sub_le) (simp_all add: word_le_nat_alt)
qed

lemma payload_offsets:
  assumes "20 \<le> (sz :: u64)" and "p \<le> sz - 20"
  shows "unat (sz - 12 - p) = unat sz - 12 - unat p" and "unat p \<le> unat sz - 20"
    and "unat (sz - 12 - p - 4) = unat sz - 12 - unat p - 4"
    and "sz - 12 - (sz - 12 - p) = p"
proof -
  note fo = footer_offsets[OF assms(1)]
  show p: "unat p \<le> unat sz - 20" using assms(2) fo by (simp add: word_le_nat_alt)
  show s: "unat (sz - 12 - p) = unat sz - 12 - unat p"
    using p fo by (subst unat_sub_le) (simp_all add: word_le_nat_alt)
  show "unat (sz - 12 - p - 4) = unat sz - 12 - unat p - 4"
    using p s fo by (subst unat_sub_le) (simp_all add: word_le_nat_alt)
  show "sz - 12 - (sz - 12 - p) = p" by simp
qed

lemma validate_footer_cases:
  assumes "20 \<le> sz" and "length data = unat sz"
  shows "validate_footer data sz path \<noteq> Inl OutOfBoundsRead"
    and "validate_footer data sz path = Inr ps \<Longrightarrow> \<exists>p. ps = sz - 12 - p \<and> p \<le> sz - 20"
proof -
  note fo = footer_offsets[OF assms(1)]
  have in_bounds: "unat (sz - 12 - p - 4) + 4 \<le> length data" if "p \<le> sz - 20" for p
    using payload_offsets[OF assms(1) that] fo assms(2) by simp
  have loads: "unat (sz - 4) + 4 \<le> length data" "unat (sz - 8) + 4 \<le> length data"
    "unat (sz - 12) + 4 \<le> length data"
    using fo assms(2) by simp_all
  show "validate_footer data sz path \<noteq> Inl OutOfBoundsRead"
    using loads in_bounds
    by (auto simp: validate_footer_def puffin_error_def Let_def bind_res_eq_Inl not_less split: if_splits)
  show "validate_footer data sz path = Inr ps \<Longrightarrow> \<exists>p. ps = sz - 12 - p \<and> p \<le> sz - 20"
    by (auto simp: validate_footer_def Let_def bind_res_eq_Inr not_less split: if_splits)
qed

lemma try_parse_blob_metadata_cases:
  "try_parse_blob_metadata v bse path \<noteq> Inl OutOfBoundsRead"
  "try_parse_blob_metadata v bse path = Inr (Some b) \<Longrightarrow>
     4 \<le> unat (blob_offset b) \<and> unat (blob_offset b) + unat (blob_length b) \<le> unat bse"
proof -
  show "try_parse_blob_metadata v bse path \<noteq> Inl OutOfBoundsRead"
    by (auto simp: try_parse_blob_metadata_def puffin_error_def Let_def split: option.splits)
  assume "try_parse_blob_metadata v bse path = Inr (Some b)"
  then have "4 \<le> blob_offset b" "blob_length b \<le> bse" "blob_offset b \<le> bse - blob_length b"
    by (auto simp: try_parse_blob_metadata_def Let_def not_less split: option.splits if_splits)
  then show "4 \<le> unat (blob_offset b) \<and> unat (blob_offset b) + unat (blob_length b) \<le> unat bse"
    by (auto simp: word_le_nat_alt unat_sub_le)
qed

lemma map_res_not_Inl: "(\<And>x. f x \<noteq> Inl e) \<Longrightarrow> map_res f xs \<noteq> Inl e"
  by (induction xs) (auto simp: bind_res_eq_Inl)

lemma map_res_Inr_set: "map_res f xs = Inr ys \<Longrightarrow> y \<in> set ys \<Longrightarrow> \<exists>x \<in> set xs. f x = Inr y"
  by (induction xs arbitrary: ys) (auto simp: bind_res_eq_Inr)

lemma parse_file_metadata_cases:
  "parse_file_metadata read payload bse path \<noteq> Inl OutOfBoundsRead"
  "parse_file_metadata read payload bse path = Inr bs \<Longrightarrow> b \<in> set bs \<Longrightarrow>
     unat (blob_offset b) + unat (blob_length b) \<le> unat bse"
proof -
  have "map_res (\<lambda>v. try_parse_blob_metadata v bse path) vs \<noteq> Inl OutOfBoundsRead" for vs
    by (intro map_res_not_Inl try_parse_blob_metadata_cases)
  then show "parse_file_metadata read payload bse path \<noteq> Inl OutOfBoundsRead"
    by (auto simp: parse_file_metadata_def puffin_error_def bind_res_eq_Inl
        split: option.splits json.splits)
  assume "parse_file_metadata read payload bse path = Inr bs" and b: "b \<in> set bs"
  then obtain vs found where
    found: "map_res (\<lambda>v. try_parse_blob_metadata v bse path) vs = Inr found"
    and bs: "bs = concat (map (\<lambda>b. case b of None \<Rightarrow> [] | Some x \<Rightarrow> [x]) found)"
    by (auto simp: parse_file_metadata_def bind_res_eq_Inr split: option.splits json.splits)
  from b bs have "Some b \<in> set found" by (auto split: option.splits)
  from map_res_Inr_set[OF found this] obtain v where
    "try_parse_blob_metadata v bse path = Inr (Some b)" by blast
  from try_parse_blob_metadata_cases(2)[OF this]
  show "unat (blob_offset b) + unat (blob_length b) \<le> unat bse" by simp
qed

lemma parse_footer_cases:
  assumes "length data = unat sz"
  shows "parse_footer read data sz path \<noteq> Inl OutOfBoundsRead"
    and "parse_footer read data sz path = Inr bs \<Longrightarrow> b \<in> set bs \<Longrightarrow>
           unat (blob_offset b) + unat (blob_length b) \<le> length data"
proof -
  have ge: "4 \<le> length data" if "20 \<le> sz" using footer_offsets(5)[OF that] assms by simp
  have payload: "unat (sz - 12 - p) + unat p \<le> length data \<and> unat (sz - 12 - p - 4) \<le> length data"
    if "20 \<le> sz" "p \<le> sz - 20" for p
    using payload_offsets[OF that] footer_offsets(5)[OF that(1)] assms by simp
  have bare: "8 \<le> length data" if "8 \<le> sz" using that assms by (simp add: word_le_nat_alt)
  show "parse_footer read data sz path \<noteq> Inl OutOfBoundsRead"
  proof
    assume oob: "parse_footer read data sz path = Inl OutOfBoundsRead"
    show False
    proof (cases "20 \<le> sz \<and> take 4 data = puffin_magic")
      case True
      then have "\<exists>ps. validate_footer data sz path = Inr ps \<and>
          load data (unat ps) (unat (sz - 12 - ps)) = Inl OutOfBoundsRead"
        using oob ge validate_footer_cases(1)[OF _ assms] parse_file_metadata_cases(1)
        by (auto simp: parse_footer_def starts_with_puffin_magic_def Let_def bind_res_eq_Inl)
      then show False using validate_footer_cases(2)[OF _ assms] True payload by fastforce
    next
      case False
      then show False using oob ge bare
        by (auto simp: parse_footer_def starts_with_puffin_magic_def is_bare_deletion_vector_def
            bind_res_eq_Inl split: if_splits)
    qed
  qed
  assume ok: "parse_footer read data sz path = Inr bs" and b: "b \<in> set bs"
  show "unat (blob_offset b) + unat (blob_length b) \<le> length data"
  proof (cases "20 \<le> sz \<and> take 4 data = puffin_magic")
    case True
    then obtain ps payload' where ps: "validate_footer data sz path = Inr ps"
      and m: "parse_file_metadata read payload' (ps - 4) path = Inr bs"
      using ok ge by (auto simp: parse_footer_def starts_with_puffin_magic_def Let_def bind_res_eq_Inr)
    obtain p where "ps = sz - 12 - p" "p \<le> sz - 20"
      using validate_footer_cases(2)[OF _ assms ps] True by blast
    then show ?thesis using parse_file_metadata_cases(2)[OF m b] payload True by fastforce
  next
    case False
    then have "bs = [\<lparr>blob_offset = 0, blob_length = sz\<rparr>]" using ok ge
      by (auto simp: parse_footer_def starts_with_puffin_magic_def bind_res_eq_Inr split: if_splits)
    then show ?thesis using b assms by simp
  qed
qed

lemma decode_blob_safe:
  assumes "rb_safe rb" and "length data = unat sz"
    and "parse_footer read data sz path = Inr bs" and "b \<in> set bs"
  shows "decode_blob rb data path b \<noteq> Inl OutOfBoundsRead"
  using parse_footer_cases(2)[OF assms(2-4)] from_blob_safe[OF assms(1)]
  by (simp add: decode_blob_def)

section \<open>The checksum\<close>

lemma from_blob_checksum:
  assumes "from_blob rb blob path = Inr dv"
  shows "20 \<le> length blob"
    and "crc32 (take (length blob - 8) (drop 4 blob))
           = of_nat (le_val (rev (drop (length blob - 4) blob)))"
proof -
  show len: "20 \<le> length blob" using assms by (auto simp: from_blob_def split: if_splits)
  obtain n vs pos where r: "read_bitmaps rb path blob n 16 vs [] = Inr (pos, dv)"
    and pos: "pos + 4 = length blob"
    and crc: "bind_res (load blob 4 (pos - 4)) (\<lambda>c. Inr (crc32 c))
                = bind_res (load_be32 blob pos) Inr"
    using assms len
    by (auto simp: from_blob_def bind_res_eq_Inr split: if_splits)
  have "pos = length blob - 4" using pos by simp
  moreover have "take 4 (drop (length blob - 4) blob) = drop (length blob - 4) blob"
    using len by simp
  ultimately show "crc32 (take (length blob - 8) (drop 4 blob))
           = of_nat (le_val (rev (drop (length blob - 4) blob)))"
    using crc len by (simp add: load_be32_def)
qed

lemma from_blob_corrupt:
  assumes ok: "from_blob rb (xs @ b # ys) path = Inr dv"
    and diff: "b \<noteq> b'" and inside: "4 \<le> length xs" "4 \<le> length ys"
  shows "from_blob rb (xs @ b' # ys) path \<noteq> Inr dv'"
proof
  assume ok': "from_blob rb (xs @ b' # ys) path = Inr dv'"
  define us vs where "us = drop 4 xs" and "vs = take (length ys - 4) ys"
  have body: "take (length (xs @ c # ys) - 8) (drop 4 (xs @ c # ys)) = us @ c # vs" for c
    using inside by (simp add: us_def vs_def take_Cons')
  have tail: "drop (length (xs @ c # ys) - 4) (xs @ c # ys) = drop (length ys - 4) ys" for c
    using inside by (simp add: Suc_diff_le drop_Cons')
  have "crc32 (us @ b # vs) = crc32 (us @ b' # vs)"
    using from_blob_checksum(2)[OF ok] from_blob_checksum(2)[OF ok'] unfolding body tail by simp
  then show False using crc32_single_byte[OF diff] by simp
qed

section \<open>Reading back a written deletion vector\<close>

text \<open>
  The layout of the header comment of \<open>FromBlob\<close>, as a writer would produce it (the extension only
  reads). \<open>rb_framed\<close> is what the portable roaring format gives: a serialized bitmap tells its own
  length, whatever follows it, and \<open>readSafe\<close> gives its values back.
\<close>

fun le_bytes :: "nat \<Rightarrow> nat \<Rightarrow> bytes" where
  "le_bytes 0 n = []"
| "le_bytes (Suc k) n = of_nat n # le_bytes k (n div 256)"

definition enc_bitmaps :: "(i32 \<times> bytes) list \<Rightarrow> bytes" where
  "enc_bitmaps kps = concat (map (\<lambda>(k, p). le_bytes 4 (unat k) @ p) kps)"

definition dv_body :: "(i32 \<times> bytes) list \<Rightarrow> bytes" where
  "dv_body kps = dv_magic @ le_bytes 8 (length kps) @ enc_bitmaps kps"

definition encode_dv :: "(i32 \<times> bytes) list \<Rightarrow> bytes" where
  "encode_dv kps = rev (le_bytes 4 (length (dv_body kps))) @ dv_body kps
                     @ rev (le_bytes 4 (unat (crc32 (dv_body kps))))"

definition rb_framed :: "roaring_ops \<Rightarrow> (bytes \<Rightarrow> u32 list) \<Rightarrow> bytes set \<Rightarrow> bool" where
  "rb_framed rb f ps \<longleftrightarrow>
     (\<forall>p \<in> ps. p \<noteq> [] \<and> rb_read rb p = Inr (f p) \<and> (\<forall>rest. rb_size rb (p @ rest) = length p))"

lemma length_le_bytes [simp]: "length (le_bytes k n) = k"
  by (induction k arbitrary: n) simp_all

lemma le_val_le_bytes: "le_val (le_bytes k n) = n mod 256 ^ k"
proof (induction k arbitrary: n)
  case (Suc k)
  have "unat (of_nat n :: u8) = n mod 256" by (simp add: unat_of_nat)
  then show ?case using Suc by (simp add: mod_mult2_eq)
qed simp

lemma le_val_unat32 [simp]: "le_val (le_bytes 4 (unat (k :: u32))) = unat k"
  using unsigned_less[where 'a=nat, of k] by (simp add: le_val_le_bytes)

lemma enc_bitmaps_simps [simp]:
  "enc_bitmaps [] = []"
  "enc_bitmaps ((k, p) # kps) = le_bytes 4 (unat k) @ p @ enc_bitmaps kps"
  by (simp_all add: enc_bitmaps_def)

lemma read_bitmaps_encoded:
  assumes "rb_framed rb f (snd ` set kps)" and "distinct (map fst acc @ map fst kps)"
    and "unat vs = length (enc_bitmaps kps)"
  shows "read_bitmaps rb path (pre @ enc_bitmaps kps @ post) (length kps) (length pre) vs acc
           = Inr (length pre + length (enc_bitmaps kps), acc @ map (\<lambda>(k, p). (k, f p)) kps)"
  using assms
proof (induction kps arbitrary: pre vs acc)
  case (Cons kp kps)
  obtain k p where kp: "kp = (k, p)" by (cases kp)
  define blob where "blob = pre @ enc_bitmaps (kp # kps) @ post"
  have blob: "blob = (pre @ le_bytes 4 (unat k) @ p) @ enc_bitmaps kps @ post"
    by (simp add: blob_def kp)
  have framed: "p \<noteq> []" "rb_read rb p = Inr (f p)" "\<And>rest. rb_size rb (p @ rest) = length p"
    and framed': "rb_framed rb f (snd ` set kps)"
    using Cons.prems(1) by (auto simp: rb_framed_def kp)
  have vs4: "unat (vs - 4) = length p + length (enc_bitmaps kps)"
    using Cons.prems(3) by (subst unat_sub_le) (simp_all add: kp word_le_nat_alt)
  have vsp: "unat (vs - 4 - of_nat (length p)) = length (enc_bitmaps kps)"
  proof -
    have "length p < 2 ^ LENGTH(32)" using vs4 unsigned_less[where 'a=nat, of "vs - 4"] by simp
    then have "unat (of_nat (length p) :: u32) = length p" by (simp add: unat_of_nat take_bit_nat_eq_self)
    then show ?thesis using vs4 by (subst unat_sub_le) (simp_all add: word_le_nat_alt)
  qed
  have key: "load_u32 blob (length pre) = Inr k" by (simp add: blob)
  have reach: "load blob (length pre + 4) (min (unat (vs - 4)) (length blob - (length pre + 4)))
                 = Inr (p @ enc_bitmaps kps)"
    by (simp add: blob vs4 min_def)
  have payload: "load blob (length pre + 4) (length p) = Inr p"
    by (simp add: blob)
  have fresh: "emplace k (f p) acc = acc @ [(k, f p)]"
    using Cons.prems(2) by (auto simp: emplace_def kp)
  have "read_bitmaps rb path blob (length (kp # kps)) (length pre) vs acc
          = read_bitmaps rb path blob (length kps) (length pre + 4 + length p)
              (vs - 4 - of_nat (length p)) (acc @ [(k, f p)])"
    using framed by (simp add: key reach payload fresh Let_def) (simp add: blob)
  also have "\<dots> = Inr (length pre + 4 + length p + length (enc_bitmaps kps),
                     (acc @ [(k, f p)]) @ map (\<lambda>(k, p). (k, f p)) kps)"
    using Cons.IH[OF framed', of "acc @ [(k, f p)]" "vs - 4 - of_nat (length p)"
        "pre @ le_bytes 4 (unat k) @ p"] Cons.prems(2) vsp
    by (simp add: blob kp add.assoc)
  finally show ?case by (simp add: blob_def kp)
qed simp

lemma from_blob_encode:
  assumes "rb_framed rb f (snd ` set kps)" and "distinct (map fst kps)"
    and small: "length (dv_body kps) < 2 ^ 32" and room: "rb_reserve rb (length kps) = Inr ()"
  shows "from_blob rb (encode_dv kps) path = Inr (map (\<lambda>(k, p). (k, f p)) kps)"
proof -
  define enc crc where "enc = enc_bitmaps kps" and "crc = rev (le_bytes 4 (unat (crc32 (dv_body kps))))"
  define sz where "sz = rev (le_bytes 4 (length (dv_body kps)))"
  have lens: "length sz = 4" "length crc = 4" by (simp_all add: sz_def crc_def)
  have blob: "encode_dv kps = sz @ dv_magic @ le_bytes 8 (length kps) @ enc @ crc"
    by (simp add: encode_dv_def dv_body_def sz_def enc_def crc_def)
  have bound: "length kps \<le> length enc"
    unfolding enc_def by (induction kps) auto
  have len: "length (encode_dv kps) = 20 + length enc" by (simp add: blob lens dv_magic_def)
  have body_len: "length (dv_body kps) = 12 + length enc" by (simp add: dv_body_def dv_magic_def enc_def)
  have vs: "load_be32 (encode_dv kps) 0 = Inr (of_nat (12 + length enc))"
    using small body_len by (simp add: blob lens) (simp add: sz_def le_val_le_bytes)
  have magic: "load (encode_dv kps) 4 4 = Inr dv_magic"
    by (simp add: blob lens) (simp add: dv_magic_def)
  have count: "load_u64 (encode_dv kps) 8 = Inr (of_nat (length kps))"
  proof -
    have "take 8 (drop 8 (encode_dv kps)) = le_bytes 8 (length kps)"
      by (simp add: blob lens dv_magic_def)
    moreover have "length kps mod 256 ^ 8 = length kps"
      using bound small body_len by simp
    ultimately show ?thesis using len by (simp add: le_val_le_bytes)
  qed
  have count_small: "length kps < 2 ^ 32" using bound small body_len by simp
  then have nonneg: "0 \<le> sint (of_nat (length kps) :: u64)" and n: "unat (of_nat (length kps) :: u64) = length kps"
    by (simp_all add: signed_of_nat signed_take_bit_int_eq_self unat_of_nat take_bit_nat_eq_self)
  have vs12: "unat (of_nat (12 + length enc) - 4 - 8 :: u32) = length enc"
    using small body_len by (simp add: unat_of_nat take_bit_nat_eq_self)
  have bitmaps: "read_bitmaps rb path (encode_dv kps) (length kps) 16 (of_nat (12 + length enc) - 4 - 8) []
      = Inr (16 + length enc, map (\<lambda>(k, p). (k, f p)) kps)"
    using read_bitmaps_encoded[OF assms(1), of "[]" _ path "sz @ dv_magic @ le_bytes 8 (length kps)" crc]
      assms(2) vs12
    by (simp add: blob enc_def lens dv_magic_def)
  have stored: "load_be32 (encode_dv kps) (16 + length enc) = Inr (crc32 (dv_body kps))"
  proof -
    have "encode_dv kps = (sz @ dv_magic @ le_bytes 8 (length kps) @ enc) @ crc"
      and "length (sz @ dv_magic @ le_bytes 8 (length kps) @ enc) = 16 + length enc"
      by (simp_all add: blob lens dv_magic_def)
    then have "drop (16 + length enc) (encode_dv kps) = crc"
      by (metis append_eq_conv_conj)
    then show ?thesis using len by (simp add: lens) (simp add: crc_def)
  qed
  have checksummed: "load (encode_dv kps) 4 (16 + length enc - 4) = Inr (dv_body kps)"
  proof -
    have "drop 4 (encode_dv kps) = dv_body kps @ crc"
      by (simp add: encode_dv_def crc_def)
    then show ?thesis using len body_len by simp
  qed
  show ?thesis
    unfolding from_blob_def vs magic count bind_res_simps
    using len nonneg n room bitmaps stored checksummed by simp
qed

section \<open>Positions\<close>

lemma dv_position_low: "n < 32 \<Longrightarrow> bit (dv_position key v) n = bit v n"
  by (simp add: dv_position_def bit_or_iff bit_push_bit_iff bit_ucast_iff)

lemma dv_position_high: "n < 32 \<Longrightarrow> bit (dv_position key v) (32 + n) = bit key n"
  using bit_imp_le_length[of v "32 + n"]
  by (auto simp: dv_position_def bit_or_iff bit_push_bit_iff bit_ucast_iff bit_signed_iff)

lemma dv_position_inject: "dv_position k v = dv_position k' v' \<longleftrightarrow> k = k' \<and> v = v'"
proof
  assume eq: "dv_position k v = dv_position k' v'"
  have "bit v n = bit v' n" if "n < 32" for n using eq dv_position_low[OF that] by metis
  moreover have "bit k n = bit k' n" if "n < 32" for n using eq dv_position_high[OF that] by metis
  ultimately show "k = k' \<and> v = v'" by (auto intro: bit_word_eqI)
qed simp

text \<open>
  Read as \<open>int64_t\<close>, the position is \<open>key * 2^32 + value\<close>, with the sign of the key.
\<close>

lemma dv_position_value: "sint (dv_position key v) = sint key * 2 ^ 32 + uint v"
proof -
  have v: "0 \<le> uint v" "uint v < 2 ^ 32" using unsigned_less[where 'a=int, of v] by simp_all
  have k: "- (2 ^ 31) \<le> sint key" "sint key < 2 ^ 31"
    using sint_greater_eq[of key] sint_less[of key] by simp_all
  have range: "- (2 ^ 63) \<le> a * 2 ^ 32 + b \<and> a * 2 ^ 32 + b < 2 ^ 63"
    if "- (2 ^ 31) \<le> a" "a < 2 ^ 31" "0 \<le> b" "b < 2 ^ 32" for a b :: int
    using that by auto
  have "(push_bit 32 (scast key) :: u64) AND ucast v = 0"
    by (rule bit_word_eqI)
       (auto simp: bit_and_iff bit_push_bit_iff bit_ucast_iff dest: bit_imp_le_length)
  then have disj: "dv_position key v = push_bit 32 (scast key) + ucast v"
    by (simp add: dv_position_def disjunctive_add_eq_or)
  have s: "(scast key :: u64) = word_of_int (sint key)" by transfer simp
  have u: "(ucast v :: u64) = word_of_int (uint v)" by transfer simp
  define i where "i = sint key * 2 ^ 32 + uint v"
  have "dv_position key v = word_of_int i"
    unfolding disj push_bit_eq_mult s u i_def by simp
  then have "sint (dv_position key v) = signed_take_bit 63 (sint key * 2 ^ 32 + uint v)"
    by (simp add: signed_of_int) (simp add: i_def)
  also have "\<dots> = sint key * 2 ^ 32 + uint v"
    using range[OF k v] by (intro signed_take_bit_int_eq_self) simp_all
  finally show ?thesis .
qed

lemma to_set_map:
  "to_set (map (\<lambda>(k, p). (k, f p)) kps) out
     = out \<union> {dv_position k v | k p v. (k, p) \<in> set kps \<and> v \<in> set (f p)}"
proof -
  have "(\<Union>(k, vs) \<in> set (map (\<lambda>(k, p). (k, f p)) kps). dv_position k ` set vs)
          = {dv_position k v | k p v. (k, p) \<in> set kps \<and> v \<in> set (f p)}"
    by (induction kps) auto
  then show ?thesis by (simp add: to_set_def)
qed

section \<open>Properties\<close>

text \<open>
  C29: Whatever bytes a puffin file holds, the reader never reads outside them: opening the file
  returns blobs or throws, and decoding any blob it lists returns a deletion vector or throws. The
  only assumption is that \<open>Roaring::readSafe\<close> and the allocator are themselves memory safe.
\<close>

theorem puffin_reader_in_bounds:
  assumes "rb_safe rb" and "length data = unat sz"
  shows "parse_footer read data sz path \<noteq> Inl OutOfBoundsRead \<and>
    (\<forall>blobs blob. parse_footer read data sz path = Inr blobs \<longrightarrow> blob \<in> set blobs \<longrightarrow>
       decode_blob rb data path blob \<noteq> Inl OutOfBoundsRead)"
  using parse_footer_cases(1)[OF assms(2)] decode_blob_safe[OF assms] by blast

definition rb_witness :: roaring_ops where
  "rb_witness = \<lparr>rb_size = (\<lambda>p. case p of [] \<Rightarrow> 0 | b # _ \<Rightarrow> unat b),
                 rb_read = (\<lambda>p. Inr (map ucast (tl p))), rb_reserve = (\<lambda>_. Inr ())\<rparr>"

lemma rb_witness_safe: "rb_safe rb_witness"
  by (simp add: rb_safe_def rb_witness_def)

lemma rb_witness_framed: "rb_framed rb_witness (\<lambda>p. map ucast (tl p)) {[3, 7, 9], [2, 1]}"
  by (simp add: rb_framed_def rb_witness_def)


definition kps_witness :: "(i32 \<times> bytes) list" where
  "kps_witness = [(0, [3, 7, 9]), (1, [2, 1])]"


text \<open>
  C33: Corrupting any one byte between the size field and the stored checksum of a valid deletion
  vector is always detected: the changed blob throws instead of giving other positions.
\<close>

theorem deletion_vector_corruption_detected:
  assumes "from_blob rb (xs @ b # ys) path = Inr dv" and "b \<noteq> b'"
    and "4 \<le> length xs" and "4 \<le> length ys"
  shows "\<exists>e. from_blob rb (xs @ b' # ys) path = Inl e"
  using from_blob_corrupt[OF assms] by (metis sum.exhaust)

definition dv_witness :: bytes where
  "dv_witness = encode_dv [(0, [3, 7, 9])]"

lemma dv_witness_reads: "from_blob rb_witness dv_witness ''f'' = Inr [(0, [7, 9])]"
  unfolding dv_witness_def
  by (subst from_blob_encode[where f = "\<lambda>p. map ucast (tl p)"])
     (auto simp: rb_framed_def rb_witness_def dv_body_def dv_magic_def)

lemma dv_witness_length: "length dv_witness = 27"
  by (simp add: dv_witness_def encode_dv_def dv_body_def dv_magic_def)

lemma deletion_vector_corruption_detected_witness:
  "\<exists>e. from_blob rb_witness (take 9 dv_witness @ (dv_witness ! 9 + 1) # drop 10 dv_witness) ''f'' = Inl e"
proof -
  have "take 9 dv_witness @ dv_witness ! 9 # drop 10 dv_witness = dv_witness"
    using id_take_nth_drop[of 9 dv_witness] by (simp add: dv_witness_length)
  then show ?thesis
    using deletion_vector_corruption_detected[of rb_witness "take 9 dv_witness" "dv_witness ! 9"
        "drop 10 dv_witness" "''f''" "[(0, [7, 9])]" "dv_witness ! 9 + 1"]
    by (simp add: dv_witness_reads dv_witness_length)
qed

lemma dv_witness_head: "\<exists>rest. dv_witness = 0 # 0 # 0 # 19 # dv_magic @ rest"
proof -
  have body: "length (dv_body [(0, [3, 7, 9])]) = 19" by (simp add: dv_body_def dv_magic_def)
  have "rev (le_bytes (Suc (Suc (Suc (Suc 0)))) 19) = [0, 0, 0, 19]" by simp
  moreover have "(4 :: nat) = Suc (Suc (Suc (Suc 0)))" by simp
  ultimately have "rev (le_bytes 4 19) = [0, 0, 0, 19]" by metis
  then show ?thesis
    unfolding dv_witness_def encode_dv_def body by (simp only: dv_body_def append.simps append_assoc) blast
qed

lemma dv_witness_opens: "parse_footer read dv_witness 27 path = Inr [\<lparr>blob_offset = 0, blob_length = 27\<rparr>]"
proof -
  obtain rest where w: "dv_witness = 0 # 0 # 0 # 19 # dv_magic @ rest" using dv_witness_head ..
  have "load dv_witness 0 4 = Inr [0, 0, 0, 19]" "load dv_witness 4 4 = Inr dv_magic"
    by (simp_all add: load_def dv_witness_length) (simp_all add: w dv_magic_def)
  then show ?thesis
    by (simp add: parse_footer_def starts_with_puffin_magic_def is_bare_deletion_vector_def
        puffin_magic_def del: load_in_bounds)
qed

lemma puffin_reader_in_bounds_witness:
  "decode_blob rb_witness dv_witness ''f'' \<lparr>blob_offset = 0, blob_length = 27\<rparr> \<noteq> Inl OutOfBoundsRead"
  using puffin_reader_in_bounds[OF rb_witness_safe, of dv_witness 27 "\<lambda>_. None" "''f''"]
  by (simp add: dv_witness_length dv_witness_opens)

text \<open>
  A deleted position is \<open>key * 2^32 + value\<close> as a signed 64-bit number, and no two entries
  of a deletion vector stand for the same position.
\<close>

theorem deleted_position_exact:
  "sint (dv_position k v) = sint k * 2 ^ 32 + uint v \<and>
   (dv_position k v = dv_position k' v' \<longleftrightarrow> k = k' \<and> v = v')"
  by (simp add: dv_position_value dv_position_inject)

end
