(* ===== verification/UC_Types.thy ===== *)
theory UC_Types
  imports UC_Json
begin

text \<open>
  Column types, from \<open>src/uc_utils.cpp\<close>: \<open>TypeToLogicalType\<close> parses the SQL text of a type,
  \<open>TypeFromJson\<close> its Delta JSON, \<open>ColumnTypeFromDefinition\<close> picks between the two.
  \<open>to_text\<close> and \<open>to_delta_json\<close> are the spellings Delta writes; the lemmas show that both parsers
  invert them, so the two sources agree on every type.

  \<open>Cast::Operation<string_t, uint8_t>\<close> is the parameter \<open>cast_u8\<close>. Every type of DuckDB that
  the parsers never build is \<open>OtherType\<close> with its name.
\<close>

section \<open>Types\<close>

datatype logical_type =
    TINYINT | SMALLINT | INTEGER | BIGINT | VARCHAR | DOUBLE | FLOAT | BOOLEAN
  | TIMESTAMP_TZ | TIMESTAMP | VARIANT | BLOB | DATE | SQLNULL
  | DECIMAL u8 u8
  | LIST logical_type
  | MAP logical_type logical_type
  | STRUCT "(string \<times> logical_type) list"
  | UTINYINT | USMALLINT | UINTEGER | UBIGINT
  | OtherType string

fun type_to_string :: "(logical_type \<Rightarrow> string) \<Rightarrow> logical_type \<Rightarrow> string" where
  "type_to_string to_string VARCHAR = ''TEXT''"
| "type_to_string to_string UTINYINT = ''TINYINT UNSIGNED''"
| "type_to_string to_string USMALLINT = ''SMALLINT UNSIGNED''"
| "type_to_string to_string UINTEGER = ''INTEGER UNSIGNED''"
| "type_to_string to_string UBIGINT = ''BIGINT UNSIGNED''"
| "type_to_string to_string TIMESTAMP = ''DATETIME''"
| "type_to_string to_string TIMESTAMP_TZ = ''TIMESTAMP''"
| "type_to_string to_string t = to_string t"

definition to_uc_type :: "logical_type \<Rightarrow> logical_type res" where
  "to_uc_type t = Inl (NotImplementedException ''ToUCType not yet implemented'')"

section \<open>Types from SQL text\<close>

text \<open>\<open>string::npos\<close>, and \<open>find\<close> with its result as \<open>size_t\<close>: its arithmetic may wrap.\<close>

definition npos :: u64 where
  "npos = 0xFFFFFFFFFFFFFFFF"

definition find_or_npos :: "char \<Rightarrow> string \<Rightarrow> u64" where
  "find_or_npos c s = (case find_char c s of None \<Rightarrow> npos | Some i \<Rightarrow> of_nat i)"

function find_child_separator :: "string \<Rightarrow> nat \<Rightarrow> nat \<Rightarrow> int \<Rightarrow> nat" where
  "find_child_separator t pos type_end nested_opens =
     (if pos < type_end \<and> (t ! pos \<noteq> CHR '','' \<or> nested_opens > 0)
      then find_child_separator t (pos + 1) type_end
             (if t ! pos = CHR ''<'' \<or> t ! pos = CHR ''('' then nested_opens + 1
              else if t ! pos = CHR ''>'' \<or> t ! pos = CHR '')'' then nested_opens - 1
              else nested_opens)
      else pos)"
  by pat_completeness auto
termination
  by (relation "measure (\<lambda>(_, pos, type_end, _). type_end - pos)") auto

declare find_child_separator.simps [simp del]

lemma find_child_separator_ge: "pos \<le> find_child_separator t pos e ops"
  by (induction t pos e ops rule: find_child_separator.induct)
     (subst find_child_separator.simps, auto dest: Suc_leD)

text \<open>The loop over the children of a map or struct: one piece of text for each separator.\<close>

function child_texts :: "string \<Rightarrow> nat \<Rightarrow> nat \<Rightarrow> string list" where
  "child_texts t cur type_end =
     (let next_sep = find_child_separator t cur type_end 0;
          child = take (next_sep - cur) (drop cur t)
      in if next_sep \<ge> type_end then [child]
         else child # child_texts t (next_sep + 1) type_end)"
  by pat_completeness auto
termination
proof (relation "measure (\<lambda>(t, cur, type_end). type_end - cur)", goal_cases)
  case (2 t cur type_end n child)
  have "cur \<le> n" unfolding 2(1) by (rule find_child_separator_ge)
  then show ?case using 2(3) by simp
qed simp

declare child_texts.simps [simp del]

lemma substr_length: "substr s p n = Inr r \<Longrightarrow> length r \<le> length s - p \<and> length r \<le> n"
  by (auto simp: substr_def split: if_splits)

lemma child_texts_length:
  "c \<in> set (child_texts t cur e) \<Longrightarrow> length c \<le> length t - cur"
proof (induction t cur e rule: child_texts.induct)
  case (1 t cur e)
  define n where "n = find_child_separator t cur e 0"
  have n: "cur \<le> n" unfolding n_def by (rule find_child_separator_ge)
  from "1.prems" have "c = take (n - cur) (drop cur t) \<or> (n < e \<and> c \<in> set (child_texts t (n + 1) e))"
    by (subst (asm) child_texts.simps) (auto simp: Let_def n_def split: if_splits)
  then show ?case
  proof
    assume "c = take (n - cur) (drop cur t)"
    then show ?thesis by simp
  next
    assume "n < e \<and> c \<in> set (child_texts t (n + 1) e)"
    then have "length c \<le> length t - (n + 1)" using "1.IH"[OF n_def] by simp
    then show ?thesis using n by simp
  qed
qed

definition unknown_type :: "string \<Rightarrow> uc_exn" where
  "unknown_type t = NotImplementedException (''Tried to fallback to unknown type for '' @ in_quotes t)"

text \<open>The names that are a type by themselves, tested first.\<close>

definition text_primitive :: "string \<Rightarrow> logical_type option" where
  "text_primitive t =
    (if t = ''tinyint'' then Some TINYINT
     else if t = ''smallint'' then Some SMALLINT
     else if t = ''bigint'' then Some BIGINT
     else if t = ''int'' then Some INTEGER
     else if t = ''long'' then Some BIGINT
     else if t = ''string'' \<or> prefix ''varchar('' t \<or> t = ''char'' \<or> prefix ''char('' t then Some VARCHAR
     else if t = ''double'' then Some DOUBLE
     else if t = ''float'' then Some FLOAT
     else if t = ''boolean'' then Some BOOLEAN
     else if t = ''timestamp'' then Some TIMESTAMP_TZ
     else if t = ''timestamp_ntz'' then Some TIMESTAMP
     else if t = ''variant'' then Some VARIANT
     else if t = ''binary'' then Some BLOB
     else if t = ''date'' then Some DATE
     else if t = ''void'' then Some SQLNULL
     else None)"

definition decimal_of_text :: "(string \<Rightarrow> u8 res) \<Rightarrow> string \<Rightarrow> logical_type res" where
  "decimal_of_text cast_u8 t =
    (let spec_end = find_or_npos (CHR '')'') t
     in if spec_end \<noteq> npos
        then let sep = find_or_npos (CHR '','') t
             in bind_res (substr t 8 (unat (sep - 8))) (\<lambda>prec_str.
                bind_res (substr t (unat (sep + 1)) (unat (spec_end - sep - 1))) (\<lambda>scale_str.
                bind_res (cast_u8 prec_str) (\<lambda>prec.
                bind_res (cast_u8 scale_str) (\<lambda>scale. Inr (DECIMAL prec scale)))))
        else Inl (unknown_type t))"

lemma prefix_nonempty: "prefix p t \<Longrightarrow> p \<noteq> [] \<Longrightarrow> 0 < length t"
  by (cases t) simp_all

lemma shorter_child:
  fixes n m k :: nat
  shows "0 < m \<Longrightarrow> n \<le> m - k \<Longrightarrow> 0 < k \<Longrightarrow> n < m"
  by arith

function type_to_logical :: "(string \<Rightarrow> u8 res) \<Rightarrow> string \<Rightarrow> logical_type res" where
  "type_to_logical cast_u8 t =
    (case text_primitive t of Some ty \<Rightarrow> Inr ty | None \<Rightarrow>
     if prefix ''decimal('' t then decimal_of_text cast_u8 t
     else if prefix ''array<'' t then
       (case rfind_char (CHR ''>'') t of
          Some type_end \<Rightarrow>
            bind_res (substr t 6 (type_end - 6)) (\<lambda>child.
            bind_res (type_to_logical cast_u8 child) (\<lambda>child_type. Inr (LIST child_type)))
        | None \<Rightarrow> Inl (unknown_type t))
     else if prefix ''map<'' t then
       (case rfind_char (CHR ''>'') t of
          Some type_end \<Rightarrow>
            bind_res (map_res (type_to_logical cast_u8) (child_texts t 4 type_end)) (\<lambda>key_val.
              case key_val of
                [k, v] \<Rightarrow> Inr (MAP k v)
              | _ \<Rightarrow> Inl (NotImplementedException (''Invalid map specification with ''
                       @ show_nat (length key_val) @ '' types'')))
        | None \<Rightarrow> Inl (unknown_type t))
     else if prefix ''struct<'' t then
       (case rfind_char (CHR ''>'') t of
          Some type_end \<Rightarrow>
            bind_res (map_res (\<lambda>child.
                case find_char (CHR '':'') child of
                  None \<Rightarrow> Inl (NotImplementedException (''Invalid struct child type specifier: '' @ child))
                | Some type_sep \<Rightarrow>
                    bind_res (type_to_logical cast_u8 (drop (type_sep + 1) child)) (\<lambda>child_type.
                      Inr (take type_sep child, child_type)))
              (child_texts t 7 type_end)) (\<lambda>children. Inr (STRUCT children))
        | None \<Rightarrow> Inl (unknown_type t))
     else Inl (unknown_type t))"
  by pat_completeness auto

termination
proof (relation "measure (\<lambda>(c, t). length t)", goal_cases)
  case (2 c t e child)
  have "0 < length t" by (rule prefix_nonempty, rule 2(3), simp)
  moreover have "length child \<le> length t - 6" using substr_length[OF 2(5)] ..
  ultimately have "length child < length t" by (rule shorter_child) simp
  then show ?case by simp
next
  case (3 c t e child)
  have "0 < length t" by (rule prefix_nonempty, rule 3(4), simp)
  moreover have "length child \<le> length t - 4" by (rule child_texts_length[OF 3(6)])
  ultimately have "length child < length t" by (rule shorter_child) simp
  then show ?case by simp
next
  case (4 c t e child i)
  have "0 < length t" by (rule prefix_nonempty, rule 4(5), simp)
  moreover have "length child \<le> length t - 7" by (rule child_texts_length[OF 4(7)])
  ultimately have "length child < length t" by (rule shorter_child) simp
  then show ?case by simp
qed simp

declare type_to_logical.simps [simp del]

section \<open>Types from Delta JSON\<close>

definition object_string :: "json \<Rightarrow> string \<Rightarrow> string option" where
  "object_string obj field = map_option cstr (get_str (obj_get (Some obj) field))"

definition object_field :: "json \<Rightarrow> string \<Rightarrow> json res" where
  "object_field obj field =
     (case obj_get (Some obj) field of
        None \<Rightarrow> Inl (NotImplementedException
                  (''Unity Catalog type JSON is missing the '' @ in_quotes field @ '' field''))
      | Some v \<Rightarrow> Inr v)"

definition delta_primitives :: "(string \<times> logical_type) list" where
  "delta_primitives =
     [(''string'', VARCHAR), (''long'', BIGINT), (''integer'', INTEGER), (''short'', SMALLINT),
      (''byte'', TINYINT), (''float'', FLOAT), (''double'', DOUBLE), (''boolean'', BOOLEAN),
      (''binary'', BLOB), (''date'', DATE), (''timestamp'', TIMESTAMP_TZ), (''timestamp_ntz'', TIMESTAMP),
      (''variant'', VARIANT), (''void'', SQLNULL)]"

definition primitive_from_delta_name :: "(string \<Rightarrow> u8 res) \<Rightarrow> string \<Rightarrow> logical_type res" where
  "primitive_from_delta_name cast_u8 name =
     (case map_of delta_primitives name of
        Some ty \<Rightarrow> Inr ty
      | None \<Rightarrow>
          if prefix ''decimal('' name
          then (case (find_char (CHR '')'') name, find_char (CHR '','') name) of
                  (Some spec_end, Some sep) \<Rightarrow>
                    if sep > spec_end
                    then Inl (NotImplementedException
                           (''Malformed decimal in Unity Catalog type JSON: '' @ in_quotes name))
                    else bind_res (substr name 8 (sep - 8)) (\<lambda>precision_str.
                         bind_res (substr name (sep + 1) (spec_end - sep - 1)) (\<lambda>scale_str.
                         bind_res (cast_u8 precision_str) (\<lambda>precision.
                         bind_res (cast_u8 scale_str) (\<lambda>scale. Inr (DECIMAL precision scale)))))
                | _ \<Rightarrow> Inl (NotImplementedException
                         (''Malformed decimal in Unity Catalog type JSON: '' @ in_quotes name)))
          else Inl (NotImplementedException
                 (''Unsupported type '' @ in_quotes name @ '' in Unity Catalog type JSON'')))"

lemma obj_get_size: "obj_get (Some v) k = Some w \<Longrightarrow> size w < size v"
proof (cases v)
  case (JObj kvs)
  assume "obj_get (Some v) k = Some w"
  then have "(k, w) \<in> set kvs" by (simp add: JObj map_of_SomeD)
  then have "size_prod (\<lambda>_. 0) size (k, w) \<le> size_list (size_prod (\<lambda>_. 0) size) kvs"
    by (intro size_list_estimation'[OF _ order_refl])
  then show ?thesis by (simp add: JObj)
qed simp_all

lemma object_field_size: "object_field v k = Inr w \<Longrightarrow> size w < size v"
  by (auto simp: object_field_def obj_get_size split: option.splits)

lemma arr_items_size: "x \<in> set (arr_items (Some v)) \<Longrightarrow> size x < size v"
  by (cases v) (auto simp: size_list_estimation' less_Suc_eq_le)

function type_from_json_value :: "(string \<Rightarrow> u8 res) \<Rightarrow> json \<Rightarrow> logical_type res"
  and struct_from_json :: "(string \<Rightarrow> u8 res) \<Rightarrow> json \<Rightarrow> logical_type res" where
  "struct_from_json cast_u8 struct_val =
     bind_res (object_field struct_val ''fields'') (\<lambda>fields.
     bind_res (map_res (\<lambda>field.
         case object_string field ''name'' of
           None \<Rightarrow> Inl (NotImplementedException
                     ''Unity Catalog type JSON has a struct field without a name'')
         | Some name \<Rightarrow>
             bind_res (object_field field ''type'') (\<lambda>type_val.
             bind_res (type_from_json_value cast_u8 type_val) (\<lambda>ty. Inr (name, ty))))
       (arr_items (Some fields))) (\<lambda>children.
     if children = []
     then Inl (NotImplementedException ''Unity Catalog type JSON has a struct with no fields'')
     else Inr (STRUCT children)))"
| "type_from_json_value cast_u8 type_val =
     (case get_str (Some type_val) of
        Some name \<Rightarrow> primitive_from_delta_name cast_u8 (cstr name)
      | None \<Rightarrow>
          if \<not> is_obj type_val
          then Inl (NotImplementedException
                 ''Unity Catalog type JSON is neither a type name nor a type object'')
          else (case object_string type_val ''type'' of
             None \<Rightarrow> Inl (NotImplementedException (''Unity Catalog type JSON object has no '' @ in_quotes ''type''))
           | Some kind \<Rightarrow>
               if kind = ''struct'' then struct_from_json cast_u8 type_val
               else if kind = ''array'' then
                 bind_res (object_field type_val ''elementType'') (\<lambda>elem.
                 bind_res (type_from_json_value cast_u8 elem) (\<lambda>ty. Inr (LIST ty)))
               else if kind = ''map'' then
                 bind_res (object_field type_val ''keyType'') (\<lambda>key.
                 bind_res (type_from_json_value cast_u8 key) (\<lambda>kt.
                 bind_res (object_field type_val ''valueType'') (\<lambda>value.
                 bind_res (type_from_json_value cast_u8 value) (\<lambda>vt. Inr (MAP kt vt)))))
               else Inl (NotImplementedException (''Unsupported nested type '' @ in_quotes kind
                           @ '' in Unity Catalog type JSON''))))"
  by pat_completeness auto
termination
  by (relation "measure (\<lambda>x. case x of Inl (c, v) \<Rightarrow> 2 * size v + 1 | Inr (c, v) \<Rightarrow> 2 * size v)")
     (auto dest!: object_field_size arr_items_size)

declare type_from_json_value.simps [simp del] struct_from_json.simps [simp del]

definition type_from_json ::
  "(string \<Rightarrow> json option) \<Rightarrow> (string \<Rightarrow> u8 res) \<Rightarrow> string \<Rightarrow> logical_type res" where
  "type_from_json read cast_u8 type_json =
     (case read type_json of
        None \<Rightarrow> Inl (NotImplementedException
                  (''Unity Catalog returned unreadable type JSON: '' @ in_quotes type_json))
      | Some root \<Rightarrow> bind_res (object_field root ''type'') (type_from_json_value cast_u8))"

text \<open>\<open>UCAPIColumnDefinition\<close>, as the parsers of the API fill it.\<close>

record column_definition =
  col_name :: string
  type_text :: string
  type_json :: string
  col_precision :: u64
  col_scale :: u64
  col_position :: u64
  is_partition_column :: bool

definition column_type_from_definition ::
  "(string \<Rightarrow> json option) \<Rightarrow> (string \<Rightarrow> u8 res) \<Rightarrow> column_definition \<Rightarrow> logical_type res" where
  "column_type_from_definition read cast_u8 column =
     (if type_json column = [] then type_to_logical cast_u8 (type_text column)
      else type_from_json read cast_u8 (type_json column))"

section \<open>The spellings Delta writes\<close>

text \<open>
  \<open>to_text\<close> is the SQL text of a type and \<open>to_delta_json\<close> its JSON, for the types the parsers
  build (\<open>delta_type\<close>). A field name is one the text can carry: without the characters the text
  uses as separators, and without NUL.
\<close>

definition decimal_text :: "u8 \<Rightarrow> u8 \<Rightarrow> string" where
  "decimal_text p s = ''decimal('' @ show_nat (unat p) @ '','' @ show_nat (unat s) @ '')''"

fun to_text :: "logical_type \<Rightarrow> string" where
  "to_text TINYINT = ''tinyint''"
| "to_text SMALLINT = ''smallint''"
| "to_text INTEGER = ''int''"
| "to_text BIGINT = ''bigint''"
| "to_text VARCHAR = ''string''"
| "to_text DOUBLE = ''double''"
| "to_text FLOAT = ''float''"
| "to_text BOOLEAN = ''boolean''"
| "to_text TIMESTAMP_TZ = ''timestamp''"
| "to_text TIMESTAMP = ''timestamp_ntz''"
| "to_text VARIANT = ''variant''"
| "to_text BLOB = ''binary''"
| "to_text DATE = ''date''"
| "to_text SQLNULL = ''void''"
| "to_text (DECIMAL p s) = decimal_text p s"
| "to_text (LIST t) = ''array<'' @ to_text t @ ''>''"
| "to_text (MAP k v) = ''map<'' @ to_text k @ '','' @ to_text v @ ''>''"
| "to_text (STRUCT cs) = ''struct<'' @ join '','' (map (\<lambda>(n, t). n @ '':'' @ to_text t) cs) @ ''>''"
| "to_text _ = []"

fun to_delta_json :: "logical_type \<Rightarrow> json" where
  "to_delta_json (DECIMAL p s) = JStr (decimal_text p s)"
| "to_delta_json (LIST t) =
     JObj [(''type'', JStr ''array''), (''elementType'', to_delta_json t), (''containsNull'', JBool True)]"
| "to_delta_json (MAP k v) =
     JObj [(''type'', JStr ''map''), (''keyType'', to_delta_json k), (''valueType'', to_delta_json v),
           (''valueContainsNull'', JBool True)]"
| "to_delta_json (STRUCT cs) =
     JObj [(''type'', JStr ''struct''),
           (''fields'', JArr (map (\<lambda>(n, t). JObj [(''name'', JStr n), (''type'', to_delta_json t),
              (''nullable'', JBool True), (''metadata'', JObj [])]) cs))]"
| "to_delta_json t = JStr (case map_of (map prod.swap delta_primitives) t of Some n \<Rightarrow> n | None \<Rightarrow> [])"

definition field_name :: "string \<Rightarrow> bool" where
  "field_name n \<longleftrightarrow> set n \<inter> set ''<>(),:'' = {} \<and> CHR 0x00 \<notin> set n"

fun delta_type :: "logical_type \<Rightarrow> bool" where
  "delta_type (LIST t) = delta_type t"
| "delta_type (MAP k v) = (delta_type k \<and> delta_type v)"
| "delta_type (STRUCT cs) = (cs \<noteq> [] \<and> (\<forall>(n, t) \<in> set cs. field_name n \<and> delta_type t))"
| "delta_type t = (t \<notin> {UTINYINT, USMALLINT, UINTEGER, UBIGINT} \<and> (\<forall>n. t \<noteq> OtherType n))"

text \<open>\<open>cast_u8\<close> reads a decimal number, as \<open>Cast::Operation<string_t, uint8_t>\<close> does.\<close>

definition cast_reads :: "(string \<Rightarrow> u8 res) \<Rightarrow> bool" where
  "cast_reads cast_u8 \<longleftrightarrow> (\<forall>w. cast_u8 (show_nat (unat w)) = Inr w)"

section \<open>Scanning text for the next separator\<close>

fun scan_sep :: "string \<Rightarrow> int \<Rightarrow> nat" where
  "scan_sep [] opens = 0"
| "scan_sep (c # cs) opens =
     (if c \<noteq> CHR '','' \<or> opens > 0
      then Suc (scan_sep cs (if c = CHR ''<'' \<or> c = CHR ''('' then opens + 1
                             else if c = CHR ''>'' \<or> c = CHR '')'' then opens - 1 else opens))
      else 0)"

lemma find_child_separator_scan:
  "e \<le> length t \<Longrightarrow> pos \<le> e \<Longrightarrow>
     find_child_separator t pos e opens = pos + scan_sep (take (e - pos) (drop pos t)) opens"
proof (induction t pos e opens rule: find_child_separator.induct)
  case (1 t pos e opens)
  show ?case
  proof (cases "pos < e")
    case True
    then have "take (e - pos) (drop pos t) = t ! pos # take (e - Suc pos) (drop (Suc pos) t)"
      using 1(2) by (simp add: Cons_nth_drop_Suc [symmetric] take_Cons' del: drop_Suc_Cons)
    then show ?thesis using 1 True by (subst find_child_separator.simps) simp
  next
    case False
    then show ?thesis using 1(3) by (subst find_child_separator.simps) simp
  qed
qed

text \<open>\<open>closed k s\<close>: a scan that is \<open>k\<close> levels deep runs through \<open>s\<close> and ends as deep.\<close>

definition closed :: "int \<Rightarrow> string \<Rightarrow> bool" where
  "closed k s \<longleftrightarrow> (\<forall>opens rest. k \<le> opens \<longrightarrow> scan_sep (s @ rest) opens = length s + scan_sep rest opens)"

lemma closed_scan: "closed 0 s \<Longrightarrow> scan_sep s 0 = length s"
  using spec[of "\<lambda>rest. scan_sep (s @ rest) 0 = length s + scan_sep rest 0" "[]"]
  by (simp add: closed_def)

lemma closed_append: "closed k s \<Longrightarrow> closed k t \<Longrightarrow> closed k (s @ t)"
  by (simp add: closed_def)

lemma closed_mono: "closed k s \<Longrightarrow> k \<le> l \<Longrightarrow> closed l s"
  by (simp add: closed_def)

lemma closed_comma: "1 \<le> k \<Longrightarrow> closed k '',''"
  by (simp add: closed_def)

lemma closed_bracket:
  "closed 1 s \<Longrightarrow> closed 0 (CHR ''<'' # s @ ''>'')"
  "closed 1 s \<Longrightarrow> closed 0 (CHR ''('' # s @ '')'')"
  by (simp_all add: closed_def)

lemma closed_plain: "set s \<inter> set ''<>(),'' = {} \<Longrightarrow> closed k s"
  unfolding closed_def by (induction s) auto

lemma closed_join: "(\<And>x. x \<in> set xs \<Longrightarrow> closed 1 x) \<Longrightarrow> closed 1 (join '','' xs)"
proof (induction xs rule: induct_list012)
  case (3 x y zs)
  have "closed 1 ([CHR '',''] @ join '','' (y # zs))"
    using 3 by (intro closed_append closed_comma) auto
  then show ?case using 3 closed_append[of 1 x] by simp
qed (auto intro: closed_plain)

lemma closed_show_nat: "closed k (show_nat n)"
proof (rule closed_plain)
  have "c \<notin> set (show_nat n)" if "c \<in> set ''<>(),''" for c
    using that by (intro not_digit_notin_show_nat) (auto simp: is_digit_def)
  then show "set (show_nat n) \<inter> set ''<>(),'' = {}" by blast
qed

lemma closed_decimal: "closed 0 (decimal_text p s)"
proof -
  have "closed 1 (show_nat (unat p) @ '','' @ show_nat (unat s))"
    by (intro closed_append closed_comma closed_show_nat) simp
  from closed_append[OF closed_plain[of "''decimal''"] closed_bracket(2)[OF this]]
  show ?thesis by (simp add: decimal_text_def)
qed

lemma closed_field: "field_name n \<Longrightarrow> closed k (n @ '':'')"
  by (intro closed_append closed_plain) (auto simp: field_name_def)

lemma to_text_closed: "delta_type t \<Longrightarrow> closed 0 (to_text t)"
proof (induction t rule: to_text.induct)
  case (16 t)
  from closed_append[OF closed_plain[of "''array''"] closed_bracket(1)[OF closed_mono[OF 16(1)]]] 16(2)
  show ?case by simp
next
  case (17 k v)
  have "closed 1 (to_text k @ '','' @ to_text v)"
    using 17 by (intro closed_append closed_comma) (auto intro: closed_mono)
  from closed_append[OF closed_plain[of "''map''"] closed_bracket(1)[OF this]] show ?case by simp
next
  case (18 cs)
  have "closed 1 ((n @ '':'') @ to_text t)" if "(n, t) \<in> set cs" for n t
  proof (rule closed_append)
    show "closed 1 (n @ '':'')" using that 18(2) by (intro closed_field) auto
    have "closed 0 (to_text t)" using that 18 by auto
    then show "closed 1 (to_text t)" by (rule closed_mono) simp
  qed
  then have "closed 1 (join '','' (map (\<lambda>(n, t). n @ '':'' @ to_text t) cs))"
    by (intro closed_join) auto
  from closed_append[OF closed_plain[of "''struct''"] closed_bracket(1)[OF this]] show ?case by simp
qed (simp_all add: closed_plain closed_decimal)

lemma child_texts_join:
  assumes "xs \<noteq> []" and "\<forall>x \<in> set xs. closed 0 x"
  shows "child_texts (pre @ join '','' xs @ post) (length pre) (length pre + length (join '','' xs)) = xs"
  using assms
proof (induction xs arbitrary: pre rule: induct_list012)
  case (2 x)
  then have "scan_sep x 0 = length x" by (simp add: closed_scan)
  then show ?case by (subst child_texts.simps) (simp add: find_child_separator_scan)
next
  case (3 x y zs)
  define r where "r = join '','' (y # zs)"
  have "scan_sep (x @ CHR '','' # r) 0 = length x" using 3(4) by (simp add: closed_def)
  then have "find_child_separator (pre @ (x @ CHR '','' # r) @ post) (length pre)
      (length pre + length (x @ CHR '','' # r)) 0 = length pre + length x"
    by (subst find_child_separator_scan) simp_all
  moreover have "child_texts (pre @ (x @ CHR '','' # r) @ post) (length pre + length x + 1)
      (length pre + length (x @ CHR '','' # r)) = y # zs"
    using 3(2)[of "pre @ x @ '',''"] 3(4) by (simp add: r_def add.assoc)
  ultimately show ?case unfolding r_def by (subst child_texts.simps) (simp add: Let_def)
qed simp

lemma child_texts_body:
  assumes "xs \<noteq> []" and "\<forall>x \<in> set xs. closed 0 x"
    and "i = length pre" and "e = i + length (join '','' xs)"
  shows "child_texts (pre @ join '','' xs @ post) i e = xs"
  using child_texts_join[OF assms(1,2)] assms(3,4) by simp

section \<open>Both parsers read the spellings back\<close>

lemma to_text_u8_length: "length (show_nat (unat (w :: u8))) \<le> 3"
  using unsigned_less[where 'a=nat, of w] by (intro show_nat_length) simp_all

lemma decimal_text_finds:
  "find_char (CHR '','') (decimal_text p s) = Some (8 + length (show_nat (unat p)))"
  "find_char (CHR '')'') (decimal_text p s)
     = Some (9 + length (show_nat (unat p)) + length (show_nat (unat s)))"
  using find_char_append[of "CHR '')''" "show_nat (unat p) @ CHR '','' # show_nat (unat s)" "[]"]
  by (simp_all add: decimal_text_def find_char_append not_digit_notin_show_nat is_digit_def)

lemma substr_middle: "i = length a \<Longrightarrow> n = length b \<Longrightarrow> substr (a @ b @ c) i n = Inr b"
  by (simp add: substr_def)

lemma decimal_text_substrs:
  "substr (decimal_text p s) 8 (length (show_nat (unat p))) = Inr (show_nat (unat p))"
  "substr (decimal_text p s) (9 + length (show_nat (unat p))) (length (show_nat (unat s)))
     = Inr (show_nat (unat s))"
  using substr_middle[of 8 "''decimal(''" "length (show_nat (unat p))" "show_nat (unat p)"
      "'','' @ show_nat (unat s) @ '')''"]
    substr_middle[of "9 + length (show_nat (unat p))" "''decimal('' @ show_nat (unat p) @ '',''"
      "length (show_nat (unat s))" "show_nat (unat s)" "'')''"]
  by (simp_all add: decimal_text_def)

lemma decimal_of_text_reads:
  assumes "cast_reads cast_u8"
  shows "decimal_of_text cast_u8 (decimal_text p s) = Inr (DECIMAL p s)"
proof -
  define lp ls where "lp = length (show_nat (unat p))" and "ls = length (show_nat (unat s))"
  have l: "lp \<le> 3" "ls \<le> 3" unfolding lp_def ls_def by (rule to_text_u8_length)+
  have sep: "find_or_npos (CHR '','') (decimal_text p s) = of_nat (8 + lp)"
    and close: "find_or_npos (CHR '')'') (decimal_text p s) = of_nat (9 + lp + ls)"
    by (simp_all add: find_or_npos_def decimal_text_finds lp_def ls_def)
  have un: "unat (of_nat n :: u64) = n" if "n < 100" for n
    using that by (simp add: unat_of_nat take_bit_nat_eq_self)
  have "(of_nat (9 + lp + ls) :: u64) \<noteq> npos"
  proof
    assume "(of_nat (9 + lp + ls) :: u64) = npos"
    then have "9 + lp + ls = unat npos" using un[of "9 + lp + ls"] l by simp
    then show False using l by (simp add: npos_def)
  qed
  moreover have "unat ((of_nat (8 + lp) :: u64) - 8) = lp" "unat ((of_nat (8 + lp) :: u64) + 1) = 9 + lp"
    "unat ((of_nat (9 + lp + ls) :: u64) - of_nat (8 + lp) - 1) = ls"
    using un[of lp] un[of "9 + lp"] un[of ls] l by (simp_all add: algebra_simps)
  moreover have "substr (decimal_text p s) 8 lp = Inr (show_nat (unat p))"
    "substr (decimal_text p s) (9 + lp) ls = Inr (show_nat (unat s))"
    by (simp_all add: decimal_text_substrs lp_def ls_def)
  ultimately show ?thesis
    using assms by (simp add: decimal_of_text_def sep close Let_def cast_reads_def)
qed

lemma decimal_from_delta_name:
  assumes "cast_reads cast_u8"
  shows "primitive_from_delta_name cast_u8 (decimal_text p s) = Inr (DECIMAL p s)"
proof -
  have "map_of delta_primitives (decimal_text p s) = None" "prefix ''decimal('' (decimal_text p s)"
    by (simp_all add: delta_primitives_def decimal_text_def)
  then show ?thesis
    using assms by (simp add: primitive_from_delta_name_def decimal_text_finds decimal_text_substrs cast_reads_def)
qed

lemma map_res_zip:
  "(\<And>x. x \<in> set xs \<Longrightarrow> f (g x) = Inr x) \<Longrightarrow> map_res f (map g xs) = Inr xs"
  by (induction xs) simp_all

lemma type_to_logical_to_text:
  assumes "cast_reads cast_u8"
  shows "delta_type t \<Longrightarrow> type_to_logical cast_u8 (to_text t) = Inr t"
proof (induction t rule: to_text.induct)
  case (15 p s)
  have "text_primitive (decimal_text p s) = None" "prefix ''decimal('' (decimal_text p s)"
    by (simp_all add: text_primitive_def decimal_text_def)
  then show ?case by (simp add: type_to_logical.simps[of _ "decimal_text p s"] decimal_of_text_reads[OF assms])
next
  case (16 ty)
  define t where "t = ''array<'' @ to_text ty @ ''>''"
  have "rfind_char (CHR ''>'') t = Some (6 + length (to_text ty))"
    using rfind_char_append[of "CHR ''>''" "''array<'' @ to_text ty"] by (simp add: t_def)
  moreover have "substr t 6 (length (to_text ty)) = Inr (to_text ty)"
    unfolding t_def by (rule substr_middle) simp_all
  moreover have "text_primitive t = None" "\<not> prefix ''decimal('' t" "prefix ''array<'' t"
    by (simp_all add: text_primitive_def t_def)
  ultimately have "type_to_logical cast_u8 t = Inr (LIST ty)"
    using 16 by (subst type_to_logical.simps) simp
  then show ?case by (simp add: t_def)
next
  case (17 k v)
  define body where "body = join '','' [to_text k, to_text v]"
  define t where "t = ''map<'' @ body @ ''>''"
  have "rfind_char (CHR ''>'') t = Some (4 + length body)"
    using rfind_char_append[of "CHR ''>''" "''map<'' @ body"] by (simp add: t_def)
  moreover have "child_texts t 4 (4 + length body) = [to_text k, to_text v]"
    unfolding t_def body_def by (rule child_texts_body) (use 17(3) to_text_closed in simp_all)
  moreover have "text_primitive t = None" "\<not> prefix ''decimal('' t" "\<not> prefix ''array<'' t"
    "prefix ''map<'' t"
    by (simp_all add: text_primitive_def t_def)
  ultimately have "type_to_logical cast_u8 t = Inr (MAP k v)"
    using 17 by (subst type_to_logical.simps) simp
  then show ?case by (simp add: t_def body_def)
next
  case (18 cs)
  define xs where "xs = map (\<lambda>(n, t). n @ '':'' @ to_text t) cs"
  define t where "t = ''struct<'' @ join '','' xs @ ''>''"
  have "closed 0 ((n @ '':'') @ to_text t)" if "(n, t) \<in> set cs" for n t
    using that 18(2) by (intro closed_append closed_field to_text_closed) auto
  then have "child_texts t 7 (7 + length (join '','' xs)) = xs"
    unfolding t_def by (intro child_texts_body) (use 18(2) in \<open>auto simp: xs_def\<close>)
  moreover have "rfind_char (CHR ''>'') t = Some (7 + length (join '','' xs))"
    using rfind_char_append[of "CHR ''>''" "''struct<'' @ join '','' xs"] by (simp add: t_def)
  moreover have "text_primitive t = None" "\<not> prefix ''decimal('' t" "\<not> prefix ''array<'' t"
    "\<not> prefix ''map<'' t" "prefix ''struct<'' t"
    by (simp_all add: text_primitive_def t_def)
  moreover have child: "find_char (CHR '':'') (n @ '':'' @ to_text t) = Some (length n)"
    "type_to_logical cast_u8 (to_text t) = Inr t" if "(n, t) \<in> set cs" for n t
    using that 18 by (auto simp: field_name_def intro!: find_char_append)
  have "map_res (\<lambda>child. case find_char (CHR '':'') child of
        None \<Rightarrow> Inl (NotImplementedException (''Invalid struct child type specifier: '' @ child))
      | Some type_sep \<Rightarrow> bind_res (type_to_logical cast_u8 (drop (type_sep + 1) child))
          (\<lambda>child_type. Inr (take type_sep child, child_type))) xs = Inr cs"
    unfolding xs_def by (rule map_res_zip) (auto simp: child[simplified])
  ultimately have "type_to_logical cast_u8 t = Inr (STRUCT cs)"
    by (subst type_to_logical.simps) simp
  then show ?case by (simp add: t_def xs_def)
qed (simp_all add: type_to_logical.simps text_primitive_def)

lemma cstr_decimal [simp]: "cstr (decimal_text p s) = decimal_text p s"
proof (rule cstr_no_nul)
  have "CHR 0x00 \<notin> set (show_nat n)" for n by (rule not_digit_notin_show_nat) (simp add: is_digit_def)
  then show "CHR 0x00 \<notin> set (decimal_text p s)" by (simp add: decimal_text_def)
qed

lemma type_from_json_to_delta_json:
  assumes "cast_reads cast_u8"
  shows "delta_type t \<Longrightarrow> type_from_json_value cast_u8 (to_delta_json t) = Inr t"
proof (induction t rule: to_delta_json.induct)
  case (1 p s)
  then show ?case
    by (simp add: type_from_json_value.simps[of _ "JStr _"] decimal_from_delta_name[OF assms])
next
  case (2 t)
  then show ?case
    by (simp add: type_from_json_value.simps[of _ "JObj _"] object_string_def object_field_def cstr_def)
next
  case (3 k v)
  then show ?case
    by (simp add: type_from_json_value.simps[of _ "JObj _"] object_string_def object_field_def cstr_def)
next
  case (4 cs)
  let ?field = "\<lambda>(n, t). JObj [(''name'', JStr n), (''type'', to_delta_json t),
              (''nullable'', JBool True), (''metadata'', JObj [])]"
  have fields: "map_res (\<lambda>field. case object_string field ''name'' of
        None \<Rightarrow> Inl (NotImplementedException ''Unity Catalog type JSON has a struct field without a name'')
      | Some name \<Rightarrow> bind_res (object_field field ''type'') (\<lambda>type_val.
          bind_res (type_from_json_value cast_u8 type_val) (\<lambda>ty. Inr (name, ty)))) (map ?field cs) = Inr cs"
    using 4 by (intro map_res_zip)
      (auto simp: object_string_def object_field_def field_name_def cstr_no_nul)
  then show ?case using 4(2)
    by (simp add: type_from_json_value.simps[of _ "JObj _"] object_string_def object_field_def
        struct_from_json.simps cstr_def)
qed (simp_all add: type_from_json_value.simps primitive_from_delta_name_def delta_primitives_def cstr_def)

section \<open>Properties\<close>


definition cast_witness :: "string \<Rightarrow> u8 res" where
  "cast_witness s = Inr (of_nat (digits_val s))"

definition type_witness :: logical_type where
  "type_witness = MAP VARCHAR (STRUCT [(''a'', DECIMAL 10 2), (''b'', LIST (MAP BIGINT DATE))])"


end
