(* ===== verification/UC_World.thy ===== *)
theory UC_World
  imports UC_Types
begin

text \<open>
  The world outside the extension: HTTP servers, the clock, the query's interrupt flag, the file
  system, DuckDB's secret and database managers, and the databases it attaches.

  The state of a computation holds the history of the calls made so far. What a call returns is
  given by the environment, as a function of the history up to and including that call, so an
  environment may answer equal calls differently over time. Nothing is assumed of it. The extension's
  own state is kept in extensions of the record \<open>world\<close>; \<open>wrote\<close> says that a computation appends
  to the history and touches nothing else.
\<close>

section \<open>Calls\<close>

datatype http_method = GET | POST | DELETE

record http_response =
  resp_success :: bool
  resp_status :: nat
  resp_headers :: "(string \<times> string) list"
  resp_body :: string
  resp_error :: string

text \<open>\<open>CreateSecretInput\<close>, always a temporary \<open>s3\<close> secret that replaces one of its name.\<close>

record secret_input =
  sec_name :: string
  sec_options :: "(string \<times> string) list"
  sec_scope :: string

record log_tail_entry =
  lt_version :: i64
  lt_timestamp :: i64
  lt_file_name :: string
  lt_file_size :: i64
  lt_file_modification_timestamp :: i64

datatype attach_value =
    AStr string
  | ABool bool
  | ABigint i64
  | ALogTail "log_tail_entry list"

record attach_info =
  att_name :: string
  att_path :: string
  att_options :: "(string \<times> attach_value) list"

text \<open>A table option: an expression still to be evaluated, or a constant string.\<close>

datatype option_expr = OptExpr string | OptString string

datatype uc_call =
    Http http_method string string string bool
  | AutoLoad string
  | InterruptCheck
  | Sleep int
  | LogWarning string
  | Now
  | OpenRead string
  | ReadChunk string
  | OpenExclusive string
  | WriteChunk string bytes
  | CloseFile string
  | ReadFile string
  | ReadAt string u64 u64
  | LookupFunction string
  | ScanParquet string
  | Glob string
  | RemoveFile string
  | CreateSecret secret_input
  | AttachDatabase attach_info
  | DetachDatabase string
  | HasTransaction string
  | DeltaLookup string string
  | DeltaCreateTable string string "(string \<times> option_expr) list"
  | DeltaCheckpoint string bool
  | DeltaBindScan string string
  | DeltaPlanInsert string
  | BindParquet string
  | InitInnerScan
  | RandomUuid
  | EvaluateOption string

record world =
  hist :: "uc_call list"

text \<open>
  \<open>call answer c\<close> makes the call \<open>c\<close> and returns (or throws) what the environment answers.
\<close>

definition call :: "(uc_call list \<Rightarrow> 'a res) \<Rightarrow> uc_call \<Rightarrow> ('x world_scheme, 'a) io" where
  "call answer c = (\<lambda>s. let h = hist s @ [c] in (answer h, s\<lparr>hist := h\<rparr>))"

text \<open>
  \<open>wrote\<close>: the later state has the same extension state and a longer or equal history.
\<close>

definition wrote :: "'x world_scheme \<Rightarrow> 'x world_scheme \<Rightarrow> bool" where
  "wrote s t \<longleftrightarrow> prefix (hist s) (hist t) \<and> t = s\<lparr>hist := hist t\<rparr>"

lemma call_run [simp]:
  "call answer c s = (answer (hist s @ [c]), s\<lparr>hist := hist s @ [c]\<rparr>)"
  by (simp add: call_def Let_def)

interpretation wr: effect_order wrote
proof
  fix s t u :: "'x world_scheme"
  show "wrote s s" by (simp add: wrote_def)
  assume "wrote s t" "wrote t u"
  then show "wrote s u" unfolding wrote_def
    by (metis prefix_order.trans world.surjective world.update_convs(1))
qed

lemma call_keeps: "keeps wrote (call answer c)"
  by (simp add: keeps_def wrote_def)

text \<open>
  \<open>made s t cs\<close>: between \<open>s\<close> and \<open>t\<close> exactly the calls \<open>cs\<close> were made. This is the relation the
  properties about calls are stated with.
\<close>

definition made :: "'x world_scheme \<Rightarrow> 'x world_scheme \<Rightarrow> uc_call list \<Rightarrow> bool" where
  "made s t cs \<longleftrightarrow> t = s\<lparr>hist := hist s @ cs\<rparr>"

lemma made_refl [simp, intro]: "made s s []"
  by (simp add: made_def)

lemma made_trans: "made s t cs \<Longrightarrow> made t u ds \<Longrightarrow> made s u (cs @ ds)"
  by (simp add: made_def)

lemma made_call: "call answer c s = (r, t) \<Longrightarrow> made s t [c] \<and> r = answer (hist s @ [c])"
  by (auto simp: made_def)

lemma made_wrote: "made s t cs \<Longrightarrow> wrote s t"
  by (simp add: made_def wrote_def)

lemma made_hist: "made s t cs \<Longrightarrow> hist t = hist s @ cs"
  by (simp add: made_def)

text \<open>\<open>calls_in P m\<close>: every call \<open>m\<close> makes, whatever it returns, satisfies \<open>P\<close>.\<close>

definition calls_in :: "(uc_call \<Rightarrow> bool) \<Rightarrow> ('x world_scheme, 'a) io \<Rightarrow> bool" where
  "calls_in P m \<longleftrightarrow> (\<forall>s. \<exists>cs. made s (snd (m s)) cs \<and> list_all P cs)"

lemma calls_inD: "calls_in P m \<Longrightarrow> m s = (r, t) \<Longrightarrow> \<exists>cs. made s t cs \<and> list_all P cs"
  by (metis calls_in_def snd_conv)

lemma calls_in_call: "P c \<Longrightarrow> calls_in P (call answer c)"
  unfolding calls_in_def made_def by (rule allI, rule exI[of _ "[c]"]) simp

definition made_only :: "(uc_call \<Rightarrow> bool) \<Rightarrow> 'x world_scheme \<Rightarrow> 'x world_scheme \<Rightarrow> bool" where
  "made_only P s t \<longleftrightarrow> (\<exists>cs. made s t cs \<and> list_all P cs)"

interpretation mo: effect_order "made_only P" for P
proof
  fix s t u :: "'x world_scheme"
  show "made_only P s s" unfolding made_only_def by (rule exI[of _ "[]"]) simp
  assume "made_only P s t" "made_only P t u"
  then show "made_only P s u" unfolding made_only_def by (metis made_trans list_all_append)
qed

lemma calls_in_keeps: "calls_in P m \<longleftrightarrow> keeps (made_only P) m"
  by (simp add: calls_in_def keeps_def made_only_def)

lemma calls_in_pure [intro]:
  "calls_in P (ret x)" "calls_in P (throw e)" "calls_in P (lift_res r)" "calls_in P (get_state f)"
  unfolding calls_in_keeps by (rule mo.keeps_pure)+

lemma calls_in_bind: "calls_in P m \<Longrightarrow> (\<And>x. calls_in P (f x)) \<Longrightarrow> calls_in P (bind m f)"
  unfolding calls_in_keeps by (rule mo.keeps_bind)

lemma calls_in_try_catch: "calls_in P m \<Longrightarrow> (\<And>e. calls_in P (h e)) \<Longrightarrow> calls_in P (try_catch m h)"
  unfolding calls_in_keeps by (rule mo.keeps_try_catch)

lemma calls_in_attempt: "calls_in P m \<Longrightarrow> calls_in P (attempt m)"
  unfolding calls_in_keeps by (rule mo.keeps_attempt)

lemma calls_in_mapM: "(\<And>x. calls_in P (f x)) \<Longrightarrow> calls_in P (mapM f xs)"
  unfolding calls_in_keeps by (rule mo.keeps_mapM)

lemma calls_in_mono: "calls_in P m \<Longrightarrow> (\<And>c. P c \<Longrightarrow> Q c) \<Longrightarrow> calls_in Q m"
  unfolding calls_in_def by (meson list.pred_mono_strong)

section \<open>The environment\<close>

text \<open>
  \<open>e_read\<close> is \<open>yyjson_read\<close> (no document: None), \<open>e_new_doc\<close> whether \<open>yyjson_mut_doc_new\<close> gets its memory, \<open>e_write\<close> is \<open>yyjson_val_write\<close> and \<open>e_enc\<close> its
  writing of one string. A number cast is \<open>e_cast_u8\<close>. A call that returns nothing is answered by
  \<open>e_done\<close>, one that returns a flag by \<open>e_open\<close>, file contents by \<open>e_file\<close>; \<open>e_chunks\<close>
  is what the successive reads of an opened file return, a finite list; \<open>e_lookup\<close> is the schema
  of a Delta table, if there is one; \<open>e_parquet\<close> the chunks of a parquet file, each with its number of
  columns and the values of its first two.
\<close>

record env =
  e_has_db :: bool
  e_autoload :: "uc_call list \<Rightarrow> bool res"
  e_http :: "uc_call list \<Rightarrow> http_response res"
  e_interrupted :: "uc_call list \<Rightarrow> bool"
  e_now :: "uc_call list \<Rightarrow> int"
  e_read :: "string \<Rightarrow> json option"
  e_new_doc :: bool
  e_write :: "json \<Rightarrow> string option"
  e_enc :: "string \<Rightarrow> string option"
  e_cast_u8 :: "string \<Rightarrow> u8 res"
  e_open :: "uc_call list \<Rightarrow> bool res"
  e_file :: "uc_call list \<Rightarrow> bytes res"
  e_chunks :: "uc_call list \<Rightarrow> bytes res list"
  e_done :: "uc_call list \<Rightarrow> unit res"
  e_text :: "uc_call list \<Rightarrow> string res"
  e_glob :: "uc_call list \<Rightarrow> string list res"
  e_value :: "uc_call list \<Rightarrow> string option res"
  e_lookup :: "uc_call list \<Rightarrow> (string \<times> logical_type) list option res"
  e_parquet :: "uc_call list \<Rightarrow> (nat \<times> (string \<times> i64) list) list res"

definition interrupt_check :: "env \<Rightarrow> ('x world_scheme, unit) io" where
  "interrupt_check env =
     call (\<lambda>h. if e_interrupted env h then Inl InterruptException else Inr ()) InterruptCheck"

definition sleep_for :: "int \<Rightarrow> ('x world_scheme, unit) io" where
  "sleep_for ms = call (\<lambda>_. Inr ()) (Sleep ms)"

definition log_warning :: "string \<Rightarrow> ('x world_scheme, unit) io" where
  "log_warning tag = call (\<lambda>_. Inr ()) (LogWarning tag)"

definition now :: "env \<Rightarrow> ('x world_scheme, int) io" where
  "now env = call (\<lambda>h. Inr (e_now env h)) Now"

end
