(* ===== verification/UC_Http.thy ===== *)
theory UC_Http
  imports UC_World
begin

text \<open>
  The request layer of \<open>src/uc_api.cpp\<close>: \<open>EnsureHttpfsExtension\<close>, \<open>MakeRequestResp\<close>,
  \<open>MakeRequest\<close>, \<open>ParseRetryAfterMs\<close>, and the error bodies (\<open>UCAPIError\<close>, \<open>CheckError\<close>).
  Log lines at debug level are left out.
\<close>

section \<open>Requests\<close>

record credentials =
  endpoint :: string
  token :: string
  aws_region :: string
  use_irc_scan_plan :: bool
  irc_endpoint_override :: string

definition ensure_httpfs_extension :: "env \<Rightarrow> ('x world_scheme, unit) io" where
  "ensure_httpfs_extension env =
     (if \<not> e_has_db env
      then throw (InvalidConfigurationException ''Context does not have database instance'')
      else bind (call (e_autoload env) (AutoLoad ''httpfs'')) (\<lambda>loaded.
        if loaded then ret ()
        else throw (MissingExtensionException
               ''The iceberg extension requires the httpfs extension to be loaded!'')))"

definition request_failed :: "string \<Rightarrow> http_response \<Rightarrow> uc_exn" where
  "request_failed url resp = IOException (''Request to '' @ in_quotes url @ '' failed (HTTP ''
     @ show_nat (resp_status resp) @ ''): '' @ resp_error resp @ [CHR 0x0A] @ ''Response body: ''
     @ (if resp_body resp = [] then ''(empty)'' else resp_body resp))"

text \<open>\<open>tolerated\<close> is the status handed back as a response, None for \<open>HTTPStatusCode::INVALID\<close>.\<close>

definition make_request_resp ::
  "env \<Rightarrow> string \<Rightarrow> string \<Rightarrow> string \<Rightarrow> bool \<Rightarrow> nat option \<Rightarrow> ('x world_scheme, http_response) io" where
  "make_request_resp env url tok body send_as_get tolerated =
     bind (ensure_httpfs_extension env) (\<lambda>_.
     bind (if body = [] then call (e_http env) (Http GET url tok [] False)
           else call (e_http env) (Http POST url tok body send_as_get)) (\<lambda>resp.
     if \<not> resp_success resp \<and> tolerated \<noteq> Some (resp_status resp)
     then throw (request_failed url resp)
     else ret resp))"

definition make_request :: "env \<Rightarrow> string \<Rightarrow> string \<Rightarrow> string \<Rightarrow> ('x world_scheme, string) io" where
  "make_request env url tok body =
     bind (make_request_resp env url tok body False None) (\<lambda>resp. ret (resp_body resp))"

lemma make_request_resp_ok:
  "make_request_resp env url tok body sg tol s = (Inr resp, t) \<Longrightarrow>
     resp_success resp \<or> tol = Some (resp_status resp)"
  by (auto simp: make_request_resp_def bind_eq_Inr split: if_splits)

text \<open>The calls of one request: loading httpfs, then at most one HTTP call to the URL.\<close>

fun request_call :: "(string \<Rightarrow> bool) \<Rightarrow> uc_call \<Rightarrow> bool" where
  "request_call P (AutoLoad _) = True"
| "request_call P (Http m url _ _ _) = (m \<noteq> DELETE \<and> P url)"
| "request_call P _ = False"

lemma calls_in_make_request_resp:
  "P url \<Longrightarrow> calls_in (request_call P) (make_request_resp env url tok body sg tol)"
  unfolding make_request_resp_def ensure_httpfs_extension_def
  by (auto intro!: calls_in_bind calls_in_call)

lemma calls_in_make_request:
  "P url \<Longrightarrow> calls_in (request_call P) (make_request env url tok body)"
  unfolding make_request_def by (intro calls_in_bind calls_in_make_request_resp calls_in_pure) simp_all

section \<open>Retry-After\<close>

text \<open>
  \<open>std::stoll\<close>: blanks, a sign, then as many digits as there are; what follows is ignored. It throws
  without digits and outside \<open>int64_t\<close>.
\<close>

definition is_space :: "char \<Rightarrow> bool" where
  "is_space c \<longleftrightarrow> c = CHR '' '' \<or> (9 \<le> (of_char c :: nat) \<and> (of_char c :: nat) \<le> 13)"

definition stoll :: "string \<Rightarrow> int res" where
  "stoll s =
     (let s1 = dropWhile is_space s;
          neg = (case s1 of c # _ \<Rightarrow> c = CHR ''-'' | [] \<Rightarrow> False);
          s2 = (case s1 of c # r \<Rightarrow> if c = CHR ''-'' \<or> c = CHR ''+'' then r else s1 | [] \<Rightarrow> []);
          ds = takeWhile is_digit s2;
          v = (if neg then - int (digits_val ds) else int (digits_val ds))
      in if ds = [] then Inl (StdException ''invalid_argument'')
         else if v < - (2 ^ 63) \<or> 2 ^ 63 \<le> v then Inl (StdException ''out_of_range'')
         else Inr v)"

definition get_header :: "http_response \<Rightarrow> string \<Rightarrow> string option" where
  "get_header resp name = map_of (map (\<lambda>(k, v). (lower k, v)) (resp_headers resp)) (lower name)"

text \<open>
  The multiplication is on \<open>int64_t\<close>; where it overflows, which C++ leaves undefined, the model
  wraps around as the usual targets do.
\<close>

definition parse_retry_after_ms :: "http_response \<Rightarrow> int" where
  "parse_retry_after_ms resp =
     (case get_header resp ''Retry-After'' of
        None \<Rightarrow> - 1
      | Some v \<Rightarrow> (case stoll v of
          Inl _ \<Rightarrow> - 1
        | Inr secs \<Rightarrow> if 0 \<le> secs then sint (word_of_int (secs * 1000) :: i64) else - 1))"

lemma parse_retry_after_exact:
  assumes "get_header resp ''Retry-After'' = Some v" and "stoll v = Inr secs"
    and "0 \<le> secs" and "secs * 1000 < 2 ^ 63"
  shows "parse_retry_after_ms resp = secs * 1000"
proof -
  have "sint (word_of_int (secs * 1000) :: i64) = signed_take_bit 63 (secs * 1000)"
    by (simp only: signed_of_int) simp
  also have "\<dots> = secs * 1000" using assms(3,4) by (intro signed_take_bit_int_eq_self) simp_all
  finally show ?thesis using assms by (simp add: parse_retry_after_ms_def)
qed

section \<open>Error bodies\<close>

record api_error =
  err_code :: string
  err_message :: string

definition has_error :: "api_error \<Rightarrow> bool" where
  "has_error e = (err_code e \<noteq> [])"

definition is_already_exists :: "api_error \<Rightarrow> bool" where
  "is_already_exists e =
     (err_code e = ''AlreadyExistsException'' \<or> err_code e = ''ALREADY_EXISTS''
      \<or> err_code e = ''TABLE_ALREADY_EXISTS'')"

definition api_exn :: "api_error \<Rightarrow> string \<Rightarrow> uc_exn" where
  "api_exn e pre =
     IOException (pre @ ''. error_code: '' @ err_code e @ '', message: '' @ err_message e)"

definition no_error :: api_error where
  "no_error = \<lparr>err_code = [], err_message = []\<rparr>"

definition check_error_legacy :: "json option \<Rightarrow> api_error res" where
  "check_error_legacy api_result =
     bind_res (try_get_str api_result ''error_code'' False) (\<lambda>error_code.
     if error_code \<noteq> []
     then bind_res (try_get_str api_result ''message'' False) (\<lambda>message.
            Inr \<lparr>err_code = error_code, err_message = (if message = [] then ''-'' else message)\<rparr>)
     else Inr no_error)"

definition check_error :: "json option \<Rightarrow> api_error res" where
  "check_error api_result =
     (case obj_get api_result ''error'' of
        Some (JObj kvs) \<Rightarrow>
          bind_res (try_get_str (Some (JObj kvs)) ''message'' False) (\<lambda>message.
          if message \<noteq> []
          then bind_res (try_get_str (Some (JObj kvs)) ''type'' False) (\<lambda>type.
                 Inr \<lparr>err_code = (if type = [] then ''error'' else type), err_message = message\<rparr>)
          else check_error_legacy api_result)
      | _ \<Rightarrow> check_error_legacy api_result)"

text \<open>The two lines every call has: parse the error, throw it if there is one.\<close>

definition throw_on_error :: "json option \<Rightarrow> string \<Rightarrow> unit res" where
  "throw_on_error root pre =
     bind_res (check_error root) (\<lambda>e. if has_error e then Inl (api_exn e pre) else Inr ())"

lemma check_error_reports:
  assumes "check_error root = Inr e" and "has_error e"
  shows "err_message e \<noteq> []"
  using assms
  by (auto simp: check_error_def check_error_legacy_def has_error_def no_error_def bind_res_eq_Inr
      split: option.splits json.splits if_splits)

lemma check_error_none:
  "obj_get root ''error'' = None \<Longrightarrow> obj_get root ''error_code'' = None \<Longrightarrow> check_error root = Inr no_error"
  by (simp add: check_error_def check_error_legacy_def try_get_str_def templated_try_get_def)

end
