(* ===== verification/UC_Scan_Plan.thy ===== *)
theory UC_Scan_Plan
  imports UC_Http
begin

text \<open>
  Server-side scan planning, from \<open>src/uc_api.cpp\<close>: the parsers of a scan plan
  (\<open>ParseScanPlanResponse\<close> and what it calls), \<open>FetchPlanningResult\<close>, \<open>FetchScanTasks\<close>,
  \<open>CancelPlan\<close> and \<open>PlanTableScan\<close> with its poll loop.

  An \<open>unordered_map\<close> filled by assignment is a HOL map; one filled by \<open>emplace\<close>, which keeps the
  first value of a key, is the list of its members, read with \<open>map_of\<close>. The times of the poll loop
  are milliseconds as integers: they stay below six minutes.
\<close>

section \<open>Scan plans\<close>

record scan_data_file =
  df_content :: string
  df_file_path :: string
  df_file_format :: string
  df_spec_id :: i64
  df_file_size :: i64
  df_record_count :: i64
  df_first_row_id :: i64
  df_column_sizes :: "u32 \<Rightarrow> i64 option"
  df_value_counts :: "u32 \<Rightarrow> i64 option"
  df_null_value_counts :: "u32 \<Rightarrow> i64 option"
  df_nan_value_counts :: "u32 \<Rightarrow> i64 option"

datatype plan_status = UNKNOWN | COMPLETED | SUBMITTED | FAILED | CANCELLED

datatype delete_file_type = UNKNOWN_DELETES | POSITION_DELETES | EQUALITY_DELETES

record scan_delete_file =
  del_content :: delete_file_type
  del_file_path :: string
  del_file_format :: string
  del_file_size :: i64
  del_record_count :: i64
  del_equality_ids :: "u32 list"
  del_content_offset :: i64
  del_content_size :: i64

record file_scan_task =
  task_data_file :: scan_data_file
  task_delete_refs :: "u64 list"

record scan_plan_result =
  pl_status :: plan_status
  pl_plan_id :: string
  pl_delete_files :: "scan_delete_file list"
  pl_file_scan_tasks :: "file_scan_task list"
  pl_plan_tasks :: "string list"
  pl_storage_credentials :: "(string \<times> (string \<times> string) list) list"
  pl_error_message :: string
  pl_error_type :: string

definition empty_data_file :: scan_data_file where
  "empty_data_file = \<lparr>df_content = [], df_file_path = [], df_file_format = [], df_spec_id = 0,
     df_file_size = 0, df_record_count = 0, df_first_row_id = - 1, df_column_sizes = Map.empty,
     df_value_counts = Map.empty, df_null_value_counts = Map.empty, df_nan_value_counts = Map.empty\<rparr>"

definition empty_plan :: scan_plan_result where
  "empty_plan = \<lparr>pl_status = UNKNOWN, pl_plan_id = [], pl_delete_files = [], pl_file_scan_tasks = [],
     pl_plan_tasks = [], pl_storage_credentials = [], pl_error_message = [], pl_error_type = []\<rparr>"

section \<open>Parsing\<close>

definition parse_count_map :: "json option \<Rightarrow> u32 \<Rightarrow> i64 option" where
  "parse_count_map map_val =
     (case (obj_get map_val ''keys'', obj_get map_val ''values'') of
        (Some keys, Some vals) \<Rightarrow>
          map_of (rev (zip (map (\<lambda>k. ucast (get_int (Some k))) (arr_items (Some keys)))
                           (map (\<lambda>v. get_int (Some v)) (arr_items (Some vals)))))
      | _ \<Rightarrow> Map.empty)"

definition parse_data_file :: "json \<Rightarrow> scan_data_file res" where
  "parse_data_file v =
     bind_res (try_get_str (Some v) ''content'' False) (\<lambda>content.
     bind_res (try_get_str (Some v) ''file-path'' True) (\<lambda>file_path.
     bind_res (try_get_str (Some v) ''file-format'' False) (\<lambda>file_format.
     bind_res (try_get_num (Some v) ''spec-id'' False) (\<lambda>spec_id.
     bind_res (try_get_num (Some v) ''file-size-in-bytes'' False) (\<lambda>file_size.
     bind_res (try_get_num (Some v) ''record-count'' False) (\<lambda>record_count.
     Inr \<lparr>df_content = content, df_file_path = file_path, df_file_format = file_format,
          df_spec_id = spec_id, df_file_size = file_size, df_record_count = record_count,
          df_first_row_id = (case obj_get (Some v) ''first-row-id'' of
             Some frid \<Rightarrow> get_int (Some frid) | None \<Rightarrow> - 1),
          df_column_sizes = parse_count_map (obj_get (Some v) ''column-sizes''),
          df_value_counts = parse_count_map (obj_get (Some v) ''value-counts''),
          df_null_value_counts = parse_count_map (obj_get (Some v) ''null-value-counts''),
          df_nan_value_counts = parse_count_map (obj_get (Some v) ''nan-value-counts'')\<rparr>))))))"

definition delete_content :: "string \<Rightarrow> string \<Rightarrow> delete_file_type res" where
  "delete_content file_path content =
     (if content = ''position-deletes'' then Inr POSITION_DELETES
      else if content = ''equality-deletes'' then Inr EQUALITY_DELETES
      else Inl (IOException (''scan-plan: delete file '' @ in_quotes file_path
             @ '' has unknown content discriminator '' @ in_quotes content @ '' (expected '' @ in_quotes ''position-deletes''
             @ '' or '' @ in_quotes ''equality-deletes'' @ '')'' @ em_dash @ ''server response is malformed'')))"

definition parse_delete_file :: "json \<Rightarrow> scan_delete_file res" where
  "parse_delete_file v =
     bind_res (try_get_str (Some v) ''file-path'' True) (\<lambda>file_path.
     bind_res (try_get_str (Some v) ''content'' True) (\<lambda>content.
     bind_res (delete_content file_path content) (\<lambda>kind.
     bind_res (try_get_str (Some v) ''file-format'' False) (\<lambda>file_format.
     bind_res (try_get_num (Some v) ''file-size-in-bytes'' False) (\<lambda>file_size.
     bind_res (try_get_num (Some v) ''record-count'' False) (\<lambda>record_count.
     Inr \<lparr>del_content = kind, del_file_path = file_path, del_file_format = file_format,
          del_file_size = file_size, del_record_count = record_count,
          del_equality_ids = map (\<lambda>i. ucast (get_int (Some i)))
             (arr_items (obj_get (Some v) ''equality-ids'')),
          del_content_offset = (case obj_get (Some v) ''content-offset'' of
             Some off \<Rightarrow> get_int (Some off) | None \<Rightarrow> - 1),
          del_content_size = (case obj_get (Some v) ''content-size-in-bytes'' of
             Some csize \<Rightarrow> get_int (Some csize) | None \<Rightarrow> - 1)\<rparr>))))))"

definition parse_file_scan_task :: "json \<Rightarrow> file_scan_task res" where
  "parse_file_scan_task v =
     bind_res (case obj_get (Some v) ''data-file'' of
                 Some df \<Rightarrow> parse_data_file df | None \<Rightarrow> Inr empty_data_file) (\<lambda>data_file.
     Inr \<lparr>task_data_file = data_file,
          task_delete_refs = map (\<lambda>r. get_int (Some r))
            (arr_items (obj_get (Some v) ''delete-file-references''))\<rparr>)"

definition str_items :: "json list \<Rightarrow> string list" where
  "str_items vs = concat (map string_item vs)"

definition parse_storage_credential :: "json \<Rightarrow> (string \<times> (string \<times> string) list) res" where
  "parse_storage_credential v =
     bind_res (try_get_str (Some v) ''prefix'' False) (\<lambda>pre.
     Inr (pre, concat (map (\<lambda>(k, x). map (Pair (cstr k)) (string_item x))
                (obj_items (obj_get (Some v) ''config'')))))"

definition parse_scan_tasks_payload :: "json \<Rightarrow> scan_plan_result \<Rightarrow> scan_plan_result res" where
  "parse_scan_tasks_payload root result =
     bind_res (map_res parse_delete_file (arr_items (obj_get (Some root) ''delete-files''))) (\<lambda>dels.
     bind_res (map_res parse_file_scan_task (arr_items (obj_get (Some root) ''file-scan-tasks''))) (\<lambda>tasks.
     bind_res (map_res parse_storage_credential
                (arr_items (obj_get (Some root) ''storage-credentials''))) (\<lambda>creds.
     Inr (result\<lparr>pl_delete_files := pl_delete_files result @ dels,
                 pl_file_scan_tasks := pl_file_scan_tasks result @ tasks,
                 pl_plan_tasks := pl_plan_tasks result
                   @ str_items (arr_items (obj_get (Some root) ''plan-tasks'')),
                 pl_storage_credentials := pl_storage_credentials result @ creds\<rparr>))))"

definition status_of_string :: "string \<Rightarrow> plan_status" where
  "status_of_string s =
     (if s = ''completed'' then COMPLETED else if s = ''submitted'' then SUBMITTED
      else if s = ''failed'' then FAILED else if s = ''cancelled'' then CANCELLED else UNKNOWN)"

fun status_to_string :: "plan_status \<Rightarrow> string" where
  "status_to_string COMPLETED = ''completed''"
| "status_to_string SUBMITTED = ''submitted''"
| "status_to_string FAILED = ''failed''"
| "status_to_string CANCELLED = ''cancelled''"
| "status_to_string UNKNOWN = ''unknown''"

definition parse_scan_plan_response :: "env \<Rightarrow> string \<Rightarrow> scan_plan_result res" where
  "parse_scan_plan_response env json_str =
     (case e_read env json_str of
        None \<Rightarrow> Inl (IOException ''Failed to parse scan plan response'')
      | Some root \<Rightarrow>
          bind_res (try_get_str (Some root) ''status'' True) (\<lambda>status_str.
          let status = status_of_string (lower status_str)
          in bind_res (try_get_str (Some root) ''plan-id'' False) (\<lambda>plan_id.
             let result = empty_plan\<lparr>pl_status := status, pl_plan_id := plan_id\<rparr>
             in if status = FAILED
                then (case obj_get (Some root) ''error'' of
                        None \<Rightarrow> Inr result
                      | Some error_obj \<Rightarrow>
                          bind_res (try_get_str (Some error_obj) ''message'' False) (\<lambda>message.
                          bind_res (try_get_str (Some error_obj) ''type'' False) (\<lambda>type.
                          Inr (result\<lparr>pl_error_message := message, pl_error_type := type\<rparr>))))
                else if status \<noteq> COMPLETED then Inr result
                else parse_scan_tasks_payload root result)))"

section \<open>Requests of the planning protocol\<close>

record plan_ref =
  pr_catalog :: string
  pr_schema :: string
  pr_table :: string
  pr_token :: string
  pr_endpoint :: string

definition plan_base :: "plan_ref \<Rightarrow> string" where
  "plan_base p = pr_endpoint p @ ''/v1/catalogs/'' @ pr_catalog p @ ''/namespaces/'' @ pr_schema p
     @ ''/tables/'' @ pr_table p"

definition plan_url :: "plan_ref \<Rightarrow> string \<Rightarrow> string" where
  "plan_url p plan_id = plan_base p @ ''/plan/'' @ plan_id"

text \<open>Everything thrown is swallowed; a \<open>std::exception\<close> (every exception of the model) is logged.\<close>

definition cancel_plan :: "env \<Rightarrow> plan_ref \<Rightarrow> string \<Rightarrow> ('x world_scheme, unit) io" where
  "cancel_plan env p plan_id =
     (if plan_id = [] then ret ()
      else try_catch
             (bind (call (e_http env) (Http DELETE (plan_url p plan_id) (pr_token p) [] False))
                (\<lambda>_. ret ()))
             (\<lambda>e. log_warning ''api-irc.CancelPlan''))"

definition fetch_planning_result ::
  "env \<Rightarrow> plan_ref \<Rightarrow> string \<Rightarrow> ('x world_scheme, scan_plan_result \<times> int) io" where
  "fetch_planning_result env p plan_id =
     bind (make_request_resp env (plan_url p plan_id) (pr_token p) [] False None) (\<lambda>resp.
     bind (lift_res (parse_scan_plan_response env (resp_body resp))) (\<lambda>result.
     ret (result, parse_retry_after_ms resp)))"

definition plan_request_body :: "string \<Rightarrow> string" where
  "plan_request_body filter_json =
     (if filter_json = [] then ''{\"case-sensitive\":false}''
      else ''{\"case-sensitive\":false,\"filter\":'' @ filter_json @ ''}'')"

definition poll_budget_ms :: int where "poll_budget_ms = 5 * 60 * 1000"
definition poll_min_sleep_ms :: int where "poll_min_sleep_ms = 100"
definition poll_max_sleep_ms :: int where "poll_max_sleep_ms = 1000"
definition poll_max_retry_after_ms :: int where "poll_max_retry_after_ms = 60 * 1000"

lemmas poll_consts = poll_budget_ms_def poll_min_sleep_ms_def poll_max_sleep_ms_def
  poll_max_retry_after_ms_def

function sleep_loop :: "env \<Rightarrow> int \<Rightarrow> int \<Rightarrow> ('x world_scheme, unit) io" where
  "sleep_loop env slept sleep_ms s =
     (if slept < sleep_ms
      then bind (interrupt_check env) (\<lambda>_.
           bind (sleep_for (min poll_min_sleep_ms (sleep_ms - slept))) (\<lambda>_ s'.
             sleep_loop env (slept + poll_min_sleep_ms) sleep_ms s')) s
      else ret () s)"
  by pat_completeness auto
termination
  by (relation "measure (\<lambda>(_, slept, sleep_ms, _). nat (sleep_ms - slept))") (auto simp: poll_consts)

declare sleep_loop.simps [simp del]

text \<open>
  The \<open>while\<close> loop inside the \<open>try\<close>. It returns the value \<open>result\<close> has when the loop ends, with
  the exception that ends it, if one does: the handler reads \<open>result.plan_id\<close>.
\<close>

definition poll_sleep_ms :: "int \<Rightarrow> int \<Rightarrow> int" where
  "poll_sleep_ms retry_after_ms backoff_ms =
     min (max (if 0 \<le> retry_after_ms then retry_after_ms else backoff_ms) poll_min_sleep_ms)
         poll_max_retry_after_ms"

definition poll_timeout :: "plan_ref \<Rightarrow> string \<Rightarrow> uc_exn" where
  "poll_timeout p plan_id = IOException (''scan-plan: planning for '' @ in_quotes (pr_catalog p @ ''.''
     @ pr_schema p @ ''.'' @ pr_table p) @ '' (plan_id='' @ plan_id
     @ '') did not reach a terminal status within 300 s'')"

function poll :: "env \<Rightarrow> plan_ref \<Rightarrow> scan_plan_result \<Rightarrow> int \<Rightarrow> int \<Rightarrow> int \<Rightarrow>
    'x world_scheme \<Rightarrow> (uc_exn option \<times> scan_plan_result) \<times> 'x world_scheme" where
  "poll env p result elapsed_ms backoff_ms retry_after_ms s =
     (if pl_status result \<noteq> SUBMITTED then ((None, result), s)
      else if poll_budget_ms \<le> elapsed_ms then ((Some (poll_timeout p (pl_plan_id result)), result), s)
      else let sleep_ms = poll_sleep_ms retry_after_ms backoff_ms
           in case bind (sleep_loop env 0 sleep_ms)
                     (\<lambda>_. fetch_planning_result env p (pl_plan_id result)) s of
                (Inl e, s') \<Rightarrow> ((Some e, result), s')
              | (Inr (result', retry_after_ms'), s') \<Rightarrow>
                  poll env p result' (elapsed_ms + sleep_ms)
                    (min (backoff_ms * 2) poll_max_sleep_ms) retry_after_ms' s')"
  by pat_completeness auto
termination
  by (relation "measure (\<lambda>(_, _, _, elapsed, _). nat (poll_budget_ms - elapsed))")
     (auto simp: poll_consts poll_sleep_ms_def)

declare poll.simps [simp del]

definition plan_table_scan :: "env \<Rightarrow> plan_ref \<Rightarrow> string \<Rightarrow> ('x world_scheme, scan_plan_result) io" where
  "plan_table_scan env p filter_json =
     bind (make_request_resp env (plan_base p @ ''/plan'') (pr_token p)
            (plan_request_body filter_json) False None) (\<lambda>resp.
     bind (lift_res (parse_scan_plan_response env (resp_body resp))) (\<lambda>first s.
       case poll env p first 0 poll_min_sleep_ms (parse_retry_after_ms resp) s of
         ((Some e, result), s') \<Rightarrow> bind (cancel_plan env p (pl_plan_id result)) (\<lambda>_. throw e) s'
       | ((None, result), s') \<Rightarrow> ret result s'))"

definition escape_token :: "string \<Rightarrow> string" where
  "escape_token tok =
     concat (map (\<lambda>c. if c = CHR 0x22 \<or> c = CHR 0x5C then [CHR 0x5C, c] else [c]) tok)"

definition fetch_scan_tasks :: "env \<Rightarrow> plan_ref \<Rightarrow> string \<Rightarrow> ('x world_scheme, scan_plan_result) io" where
  "fetch_scan_tasks env p plan_task =
     bind (make_request env (plan_base p @ ''/tasks'') (pr_token p)
            (''{\"plan-task\":\"'' @ escape_token plan_task @ ''\"}'')) (\<lambda>resp.
     case e_read env resp of
       None \<Rightarrow> throw (IOException (''Failed to parse fetchScanTasks response from ''
                 @ in_quotes (plan_base p @ ''/tasks'')))
     | Some root \<Rightarrow> lift_res (parse_scan_tasks_payload root (empty_plan\<lparr>pl_status := COMPLETED\<rparr>)))"

section \<open>The calls of a planning\<close>

fun is_get :: "uc_call \<Rightarrow> bool" where
  "is_get (Http GET _ _ _ _) = True"
| "is_get _ = False"

fun is_delete :: "uc_call \<Rightarrow> bool" where
  "is_delete (Http DELETE _ _ _ _) = True"
| "is_delete _ = False"

fun sleep_of :: "uc_call \<Rightarrow> int" where
  "sleep_of (Sleep n) = n"
| "sleep_of _ = 0"

definition gets :: "uc_call list \<Rightarrow> nat" where
  "gets cs = length (filter is_get cs)"

definition total_sleep :: "uc_call list \<Rightarrow> int" where
  "total_sleep cs = sum_list (map sleep_of cs)"

text \<open>Every sleep is at most 100 ms long and follows a check of the interrupt flag.\<close>

definition paced :: "uc_call list \<Rightarrow> bool" where
  "paced cs \<longleftrightarrow> (\<forall>i < length cs. \<forall>n. cs ! i = Sleep n \<longrightarrow>
     0 < n \<and> n \<le> 100 \<and> 0 < i \<and> cs ! (i - 1) = InterruptCheck)"

lemma paced_append: "paced xs \<Longrightarrow> paced ys \<Longrightarrow> paced (xs @ ys)"
  unfolding paced_def
proof (intro allI impI)
  fix i n
  assume xs: "\<forall>i < length xs. \<forall>n. xs ! i = Sleep n \<longrightarrow> 0 < n \<and> n \<le> 100 \<and> 0 < i \<and> xs ! (i - 1) = InterruptCheck"
    and ys: "\<forall>i < length ys. \<forall>n. ys ! i = Sleep n \<longrightarrow> 0 < n \<and> n \<le> 100 \<and> 0 < i \<and> ys ! (i - 1) = InterruptCheck"
    and i: "i < length (xs @ ys)" "(xs @ ys) ! i = Sleep n"
  show "0 < n \<and> n \<le> 100 \<and> 0 < i \<and> (xs @ ys) ! (i - 1) = InterruptCheck"
  proof (cases "i < length xs")
    case True
    then show ?thesis using xs i by (auto simp: nth_append)
  next
    case False
    then have "0 < n \<and> n \<le> 100 \<and> 0 < i - length xs \<and> ys ! (i - length xs - 1) = InterruptCheck"
      using ys[rule_format, of "i - length xs" n] i False by (simp add: nth_append)
    moreover from this have "i - length xs - 1 = i - 1 - length xs" "\<not> i - 1 < length xs" by auto
    ultimately show ?thesis by (simp add: nth_append)
  qed
qed

lemma call_counts [simp]:
  "gets [] = 0" "gets (xs @ ys) = gets xs + gets ys" "gets (c # cs) = (if is_get c then 1 else 0) + gets cs"
  "total_sleep [] = 0" "total_sleep (xs @ ys) = total_sleep xs + total_sleep ys"
  "total_sleep (c # cs) = sleep_of c + total_sleep cs"
  by (simp_all add: gets_def total_sleep_def)

lemma paced_simps:
  "paced []" "paced [InterruptCheck]" "paced [AutoLoad e]" "paced [AutoLoad e, Http m u k b g]"
  "0 < n \<Longrightarrow> n \<le> 100 \<Longrightarrow> paced [InterruptCheck, Sleep n]"
  by (auto simp: paced_def less_Suc_eq nth_Cons')

definition request_calls :: "http_method \<Rightarrow> string \<Rightarrow> string \<Rightarrow> string \<Rightarrow> uc_call list set" where
  "request_calls m url tok body =
     {[], [AutoLoad ''httpfs''], [AutoLoad ''httpfs'', Http m url tok body False]}"

lemma make_request_resp_calls:
  assumes "make_request_resp env url tok body False tol s = (r, t)"
  shows "\<exists>cs \<in> request_calls (if body = [] then GET else POST) url tok body. made s t cs"
  using assms
  by (auto simp: make_request_resp_def ensure_httpfs_extension_def request_calls_def made_def bind_run
      split: sum.splits if_splits prod.splits)

lemma fetch_planning_result_calls:
  assumes "fetch_planning_result env p i s = (r, t)"
  shows "\<exists>cs \<in> request_calls GET (plan_url p i) (pr_token p) []. made s t cs"
proof -
  obtain r1 where "make_request_resp env (plan_url p i) (pr_token p) [] False None s = (r1, t)"
    using assms by (auto simp: fetch_planning_result_def bind_run split: prod.splits sum.splits)
  from make_request_resp_calls[OF this] show ?thesis by simp
qed

lemma sleep_loop_calls:
  "sleep_loop env slept ms s = (r, t) \<Longrightarrow>
     \<exists>cs. made s t cs \<and> paced cs \<and> gets cs = 0 \<and> filter is_delete cs = []
        \<and> total_sleep cs \<le> max 0 (ms - slept)"
proof (induction env slept ms s rule: sleep_loop.induct)
  case (1 env slept ms s)
  show ?case
  proof (cases "slept < ms")
    case False
    then have "t = s" using 1(2) by (subst (asm) sleep_loop.simps) simp
    then show ?thesis by (intro exI[of _ "[]"]) (simp add: paced_simps)
  next
    case True
    let ?n = "min poll_min_sleep_ms (ms - slept)"
    let ?s1 = "s\<lparr>hist := hist s @ [InterruptCheck]\<rparr>"
    let ?s2 = "s\<lparr>hist := hist s @ [InterruptCheck, Sleep ?n]\<rparr>"
    show ?thesis
    proof (cases "e_interrupted env (hist s @ [InterruptCheck])")
      case True
      then have "t = ?s1" using 1(2) \<open>slept < ms\<close>
        by (subst (asm) sleep_loop.simps) (simp add: bind_run interrupt_check_def)
      then show ?thesis
        by (intro exI[of _ "[InterruptCheck]"]) (simp add: made_def paced_simps)
    next
      case False
      then have rec: "sleep_loop env (slept + poll_min_sleep_ms) ms ?s2 = (r, t)"
        using 1(2) \<open>slept < ms\<close>
        by (subst (asm) sleep_loop.simps) (simp add: bind_run interrupt_check_def sleep_for_def)
      have "\<exists>cs. made ?s2 t cs \<and> paced cs \<and> gets cs = 0 \<and> filter is_delete cs = []
          \<and> total_sleep cs \<le> max 0 (ms - (slept + poll_min_sleep_ms))"
        by (rule 1(1)[OF \<open>slept < ms\<close>, of "()" ?s1 "()" ?s2])
           (use False rec in \<open>simp_all add: interrupt_check_def sleep_for_def\<close>)
      then obtain cs where cs: "made ?s2 t cs" "paced cs" "gets cs = 0" "filter is_delete cs = []"
        "total_sleep cs \<le> max 0 (ms - (slept + poll_min_sleep_ms))" by blast
      have "paced [InterruptCheck, Sleep ?n]"
        using \<open>slept < ms\<close> by (intro paced_simps) (auto simp: poll_consts)
      then have "paced ([InterruptCheck, Sleep ?n] @ cs)" using cs(2) by (rule paced_append)
      then show ?thesis using cs \<open>slept < ms\<close>
        by (intro exI[of _ "[InterruptCheck, Sleep ?n] @ cs"]) (auto simp: made_def poll_consts)
    qed
  qed
qed

lemma request_calls_counts:
  assumes "cs \<in> request_calls m url tok body"
  shows "paced cs" "total_sleep cs = 0" "gets cs \<le> 1"
    and "m \<noteq> DELETE \<Longrightarrow> filter is_delete cs = []"
    and "m \<noteq> GET \<Longrightarrow> gets cs = 0"
  using assms by (cases m; auto simp: request_calls_def paced_simps)+

text \<open>One round of the loop: the sleep, then the request.\<close>

lemma poll_round_calls:
  assumes "bind (sleep_loop env 0 ms) (\<lambda>_. fetch_planning_result env p i) s = (r, t)" and "0 \<le> ms"
  shows "\<exists>cs. made s t cs \<and> paced cs \<and> gets cs \<le> 1 \<and> filter is_delete cs = [] \<and> total_sleep cs \<le> ms"
proof -
  obtain r1 s1 where sl: "sleep_loop env 0 ms s = (r1, s1)" by (cases "sleep_loop env 0 ms s")
  from sleep_loop_calls[OF sl] obtain cs where cs: "made s s1 cs" "paced cs" "gets cs = 0"
    "filter is_delete cs = []" "total_sleep cs \<le> max 0 (ms - 0)" by blast
  show ?thesis
  proof (cases r1)
    case (Inl e)
    then show ?thesis using assms cs sl by (intro exI[of _ cs]) (simp add: bind_Inl)
  next
    case (Inr u)
    then have "fetch_planning_result env p i s1 = (r, t)" using assms(1) sl by (simp add: bind_run)
    from fetch_planning_result_calls[OF this] obtain ds where
      ds: "ds \<in> request_calls GET (plan_url p i) (pr_token p) []" "made s1 t ds" by blast
    note c = request_calls_counts[OF ds(1)]
    show ?thesis using cs ds(2) c assms(2)
      by (intro exI[of _ "cs @ ds"]) (auto intro: made_trans paced_append)
  qed
qed

lemma poll_sleep_range: "100 \<le> poll_sleep_ms ra bo \<and> poll_sleep_ms ra bo \<le> 60000"
  by (auto simp: poll_sleep_ms_def poll_consts)

lemma poll_calls:
  "poll env p result el bo ra s = ((x, result'), t) \<Longrightarrow>
     \<exists>cs. made s t cs \<and> paced cs \<and> filter is_delete cs = []
        \<and> (x = None \<longrightarrow> pl_status result' \<noteq> SUBMITTED)
        \<and> total_sleep cs \<le> max 0 (360000 - el)
        \<and> (300000 \<le> el \<longrightarrow> gets cs = 0) \<and> (el < 300000 \<longrightarrow> 100 * int (gets cs) \<le> 300099 - el)"
proof (induction env p result el bo ra s rule: poll.induct)
  case (1 env p result el bo ra s)
  define ms where "ms = poll_sleep_ms ra bo"
  have ms: "100 \<le> ms" "ms \<le> 60000" unfolding ms_def using poll_sleep_range by blast+
  show ?case
  proof (cases "pl_status result = SUBMITTED \<and> el < 300000")
    case False
    then have "t = s" "x = None \<longrightarrow> pl_status result' \<noteq> SUBMITTED"
      using 1(2) by (subst (asm) poll.simps, auto simp: poll_consts split: if_splits)+
    then show ?thesis by (intro exI[of _ "[]"]) (simp add: paced_simps)
  next
    case go: True
    obtain r s1 where round: "bind (sleep_loop env 0 ms)
        (\<lambda>_. fetch_planning_result env p (pl_plan_id result)) s = (r, s1)"
      by (cases "bind (sleep_loop env 0 ms) (\<lambda>_. fetch_planning_result env p (pl_plan_id result)) s")
    from poll_round_calls[OF round] ms(1) obtain cs where cs: "made s s1 cs" "paced cs" "gets cs \<le> 1"
      "filter is_delete cs = []" "total_sleep cs \<le> ms" by auto
    show ?thesis
    proof (cases r)
      case (Inl e)
      then have "t = s1" "x = Some e" using 1(2) go round
        by (subst (asm) poll.simps, simp add: poll_consts ms_def [symmetric])+
      then show ?thesis using cs ms go by (intro exI[of _ cs]) auto
    next
      case (Inr y)
      obtain r' ra' where y: "y = (r', ra')" by (cases y)
      have rec: "poll env p r' (el + ms) (min (bo * 2) poll_max_sleep_ms) ra' s1 = ((x, result'), t)"
        using 1(2) go round Inr y
        by (subst (asm) poll.simps) (simp add: poll_consts ms_def [symmetric])
      have ih: "\<exists>ds. made s1 t ds \<and> paced ds \<and> filter is_delete ds = []
          \<and> (x = None \<longrightarrow> pl_status result' \<noteq> SUBMITTED)
          \<and> total_sleep ds \<le> max 0 (360000 - (el + ms))
          \<and> (300000 \<le> el + ms \<longrightarrow> gets ds = 0)
          \<and> (el + ms < 300000 \<longrightarrow> 100 * int (gets ds) \<le> 300099 - (el + ms))"
        by (rule 1(1)[of ms r s1 y r' ra'])
          (use rec go round Inr y in \<open>simp_all add: poll_consts ms_def\<close>)
      then obtain ds where ds: "made s1 t ds" "paced ds" "filter is_delete ds = []"
        "x = None \<longrightarrow> pl_status result' \<noteq> SUBMITTED"
        "total_sleep ds \<le> max 0 (360000 - (el + ms))"
        "300000 \<le> el + ms \<longrightarrow> gets ds = 0"
        "el + ms < 300000 \<longrightarrow> 100 * int (gets ds) \<le> 300099 - (el + ms)"
        by blast
      have "total_sleep (cs @ ds) \<le> max 0 (360000 - el)" using cs(5) ds(5) ms go by simp
      moreover have "100 * int (gets (cs @ ds)) \<le> 300099 - el"
        using cs(3) ds(6,7) ms go by (cases "300000 \<le> el + ms") auto
      moreover have "paced (cs @ ds)" using cs(2) ds(2) by (rule paced_append)
      ultimately show ?thesis using cs ds go
        by (intro exI[of _ "cs @ ds"]) (auto intro: made_trans)
    qed
  qed
qed

lemma cancel_plan_calls:
  assumes "cancel_plan env p i s = (r, t)"
  shows "r = Inr () \<and> (\<exists>cs. made s t cs \<and>
     cs \<in> (if i = [] then {[]} else
       {[Http DELETE (plan_url p i) (pr_token p) [] False],
        [Http DELETE (plan_url p i) (pr_token p) [] False, LogWarning ''api-irc.CancelPlan'']}))"
  using assms
  by (auto simp: cancel_plan_def try_catch_run bind_run made_def log_warning_def split: sum.splits if_splits)

lemma plan_table_scan_calls:
  assumes "plan_table_scan env p f s = (r, t)"
  shows "\<exists>cs post. made s t (cs @ post) \<and> paced cs \<and> paced post \<and> filter is_delete cs = []
    \<and> total_sleep (cs @ post) \<le> 360000 \<and> gets (cs @ post) \<le> 3000
    \<and> (case r of
         Inr result \<Rightarrow> pl_status result \<noteq> SUBMITTED \<and> post = []
       | Inl e \<Rightarrow> post = [] \<or> (\<exists>i. post \<in> {[Http DELETE (plan_url p i) (pr_token p) [] False],
           [Http DELETE (plan_url p i) (pr_token p) [] False, LogWarning ''api-irc.CancelPlan'']}))"
proof -
  have body: "plan_request_body f \<noteq> []" by (simp add: plan_request_body_def)
  obtain r1 s1 where req: "make_request_resp env (plan_base p @ ''/plan'') (pr_token p)
      (plan_request_body f) False None s = (r1, s1)"
    by (cases "make_request_resp env (plan_base p @ ''/plan'') (pr_token p)
      (plan_request_body f) False None s")
  from make_request_resp_calls[OF req] body obtain cs where
    cs: "cs \<in> request_calls POST (plan_base p @ ''/plan'') (pr_token p) (plan_request_body f)"
      "made s s1 cs" by auto
  note c = request_calls_counts[OF cs(1)]
  show ?thesis
  proof (cases "\<exists>resp first. r1 = Inr resp \<and> parse_scan_plan_response env (resp_body resp) = Inr first")
    case False
    then have "t = s1 \<and> isl r" using assms req
      by (cases r1) (auto simp: plan_table_scan_def bind_run isl_def split: sum.splits intro: sym)
    then obtain e where "t = s1" "r = Inl e" by (auto simp: isl_def)
    then show ?thesis using cs c by (intro exI[of _ cs] exI[of _ "[]"]) (auto simp: paced_simps)
  next
    case True
    then obtain resp first where ok: "r1 = Inr resp"
      "parse_scan_plan_response env (resp_body resp) = Inr first" by blast
    obtain x result s2 where pl: "poll env p first 0 poll_min_sleep_ms (parse_retry_after_ms resp) s1
        = ((x, result), s2)"
      by (metis prod.collapse)
    from poll_calls[OF pl] obtain ds where ds: "made s1 s2 ds" "paced ds" "filter is_delete ds = []"
      "x = None \<longrightarrow> pl_status result \<noteq> SUBMITTED" "total_sleep ds \<le> 360000"
      "100 * int (gets ds) \<le> 300099" by auto
    have m: "made s s2 (cs @ ds)" using cs(2) ds(1) by (rule made_trans)
    have pc: "paced (cs @ ds)" using c(1) ds(2) by (rule paced_append)
    have g: "gets (cs @ ds) \<le> 3000" "total_sleep (cs @ ds) \<le> 360000" "filter is_delete (cs @ ds) = []"
      using c ds by auto
    show ?thesis
    proof (cases x)
      case None
      then have "t = s2" "r = Inr result" using assms req ok pl
        by (auto simp: plan_table_scan_def bind_run)
      then show ?thesis using m pc g ds(4) None
        by (intro exI[of _ "cs @ ds"] exI[of _ "[]"]) (simp add: paced_simps)
    next
      case (Some e)
      obtain r3 s3 where can: "cancel_plan env p (pl_plan_id result) s2 = (r3, s3)"
        by (cases "cancel_plan env p (pl_plan_id result) s2")
      from cancel_plan_calls[OF can] obtain es where es: "r3 = Inr ()" "made s2 s3 es"
        "es = [] \<or> es \<in> {[Http DELETE (plan_url p (pl_plan_id result)) (pr_token p) [] False],
           [Http DELETE (plan_url p (pl_plan_id result)) (pr_token p) [] False, LogWarning ''api-irc.CancelPlan'']}"
        by (auto split: if_splits)
      have r: "t = s3" "r = Inl e" using assms req ok pl Some can es(1)
        by (auto simp: plan_table_scan_def bind_run)
      have z: "gets es = 0" "total_sleep es = 0" "paced es"
        using es(3) by (auto simp: paced_def less_Suc_eq nth_Cons')
      show ?thesis unfolding r
        by (intro exI[of _ "cs @ ds"] exI[of _ es]) (use made_trans[OF m es(2)] pc g es(3) z in auto)
    qed
  qed
qed

lemma plan_table_scan_abandons:
  assumes "make_request_resp env (plan_base p @ ''/plan'') (pr_token p) (plan_request_body f) False None s
      = (Inr resp, s1)"
    and "parse_scan_plan_response env (resp_body resp) = Inr first"
    and "poll env p first 0 poll_min_sleep_ms (parse_retry_after_ms resp) s1 = ((Some e, result), s2)"
    and "pl_plan_id result \<noteq> []"
  shows "\<exists>cs t. plan_table_scan env p f s = (Inl e, t) \<and>
    made s2 t (Http DELETE (plan_url p (pl_plan_id result)) (pr_token p) [] False # cs)"
proof -
  obtain r3 s3 where can: "cancel_plan env p (pl_plan_id result) s2 = (r3, s3)"
    by (cases "cancel_plan env p (pl_plan_id result) s2")
  from cancel_plan_calls[OF can] assms(4) obtain cs where "r3 = Inr ()"
    "made s2 s3 (Http DELETE (plan_url p (pl_plan_id result)) (pr_token p) [] False # cs)"
    by (auto simp: Let_def)
  then show ?thesis using assms can by (auto simp: plan_table_scan_def bind_run)
qed

section \<open>The shape of a parsed plan\<close>

lemma parse_scan_tasks_payload_status:
  "parse_scan_tasks_payload root result = Inr r \<Longrightarrow>
     pl_status r = pl_status result \<and> pl_plan_id r = pl_plan_id result"
  by (auto simp: parse_scan_tasks_payload_def bind_res_eq_Inr)

lemma parse_scan_plan_response_shape:
  assumes "parse_scan_plan_response env body = Inr r" and "pl_status r \<noteq> COMPLETED"
  shows "pl_file_scan_tasks r = [] \<and> pl_delete_files r = [] \<and> pl_plan_tasks r = [] \<and> pl_storage_credentials r = []"
  using assms
  by (auto simp: parse_scan_plan_response_def empty_plan_def Let_def bind_res_eq_Inr
      dest!: parse_scan_tasks_payload_status split: option.splits if_splits)

lemma parse_delete_file_kind:
  "parse_delete_file v = Inr d \<Longrightarrow> del_content d \<in> {POSITION_DELETES, EQUALITY_DELETES}"
  by (auto simp: parse_delete_file_def delete_content_def bind_res_eq_Inr split: if_splits)

lemma status_roundtrip: "status_of_string (status_to_string st) = st"
  by (cases st) (simp_all add: status_of_string_def)

lemma escape_token_reads:
  "json_string (CHR 0x22 # escape_token tok @ CHR 0x22 # rest)
     = (if \<exists>c \<in> set tok. is_control c then None else Some (tok, rest))"
proof -
  define esc where "esc = (\<lambda>c :: char. if c = CHR 0x22 \<or> c = CHR 0x5C then [CHR 0x5C, c] else [c])"
  have "escapes esc" by (simp add: escapes_def esc_def json_unescape_def)
  moreover have "is_control c \<and> esc c = [c] \<longleftrightarrow> is_control c" for c
    by (auto simp: esc_def is_control_def)
  moreover have "escape_token tok = concat (map esc tok)" by (simp add: escape_token_def esc_def)
  ultimately show ?thesis using json_chars_escaped[of esc tok rest] by simp
qed

section \<open>Properties\<close>

text \<open>
  C17: Planning a scan always comes back, and soon: whatever the server answers and whatever
  Retry-After it sends, one \<open>PlanTableScan\<close> polls at most 3000 times and sleeps at most six
  minutes in all, in pieces of at most 100 ms, each right after a look at the interrupt flag.
\<close>

theorem planning_is_bounded:
  "\<exists>cs. made s (snd (plan_table_scan env p f s)) cs \<and> gets cs \<le> 3000 \<and> total_sleep cs \<le> 360000 \<and> paced cs"
proof -
  obtain r t where rt: "plan_table_scan env p f s = (r, t)" by (cases "plan_table_scan env p f s")
  from plan_table_scan_calls[OF rt] show ?thesis unfolding rt by (auto intro: paced_append)
qed



definition env_witness :: env where
  "env_witness = \<lparr>e_has_db = True, e_autoload = (\<lambda>_. Inr True),
     e_http = (\<lambda>_. Inr \<lparr>resp_success = True, resp_status = 200, resp_headers = [], resp_body = ''r'',
        resp_error = []\<rparr>),
     e_interrupted = (\<lambda>h. length h > 2), e_now = (\<lambda>h. int (length h)),
     e_read = (\<lambda>_. Some (JObj [(''status'', JStr ''submitted''), (''plan-id'', JStr ''p1'')])),
     e_new_doc = True, e_write = (\<lambda>_. Some []), e_enc = (\<lambda>s. Some s), e_cast_u8 = (\<lambda>_. Inr 0), e_open = (\<lambda>_. Inr True),
     e_file = (\<lambda>_. Inr []), e_chunks = (\<lambda>_. []), e_done = (\<lambda>_. Inr ()), e_text = (\<lambda>_. Inr []), e_glob = (\<lambda>_. Inr []),
     e_value = (\<lambda>_. Inr None), e_lookup = (\<lambda>_. Inr None), e_parquet = (\<lambda>_. Inr [])\<rparr>"

definition plan_ref_witness :: plan_ref where
  "plan_ref_witness = \<lparr>pr_catalog = ''c'', pr_schema = ''s'', pr_table = ''t'', pr_token = ''k'', pr_endpoint = ''e''\<rparr>"


text \<open>
  A response that is not a completed plan contributes no files: without the status
  \<open>completed\<close> there are no scan tasks, delete files, plan tasks or credentials to act on.
\<close>

theorem incomplete_plan_has_no_files:
  assumes "parse_scan_plan_response env body = Inr r" and "pl_status r \<noteq> COMPLETED"
  shows "pl_file_scan_tasks r = [] \<and> pl_delete_files r = [] \<and> pl_plan_tasks r = [] \<and> pl_storage_credentials r = []"
  using parse_scan_plan_response_shape[OF assms] .

lemma incomplete_plan_has_no_files_witness:
  "pl_file_scan_tasks (empty_plan\<lparr>pl_status := SUBMITTED, pl_plan_id := ''p1''\<rparr>) = [] \<and>
   pl_delete_files (empty_plan\<lparr>pl_status := SUBMITTED, pl_plan_id := ''p1''\<rparr>) = []"
  using incomplete_plan_has_no_files[of env_witness "''r''" "empty_plan\<lparr>pl_status := SUBMITTED, pl_plan_id := ''p1''\<rparr>"]
  by (simp add: parse_scan_plan_response_def env_witness_def try_get_str_def templated_try_get_def
      status_of_string_def cstr_def lower_def lower_char_def Let_def)

text \<open>
  The plan-task token that \<open>FetchScanTasks\<close> sends back is the token the server gave, read by a
  JSON parser, unless the token holds a control character; then the body is not JSON at all.
\<close>

theorem plan_task_token_roundtrip:
  "json_string (CHR 0x22 # escape_token tok @ CHR 0x22 # rest)
     = (if \<exists>c \<in> set tok. is_control c then None else Some (tok, rest))"
  by (rule escape_token_reads)

end
