(* ===== verification/UC_Irc.thy ===== *)
theory UC_Irc
  imports UC_Json
begin

text \<open>
  Filters sent to the planning endpoint, from \<open>src/uc_irc_expression.cpp\<close>: \<open>JsonQuote\<close>,
  \<open>ValueToIRCJson\<close>, \<open>TermForColumnRef\<close>, \<open>ExprToIRCJson\<close> and \<open>SerializeFiltersToIRC\<close>.

  DuckDB's bound expressions are the type \<open>expr\<close>, with one constructor per class the code tells
  apart; the rest is \<open>OtherFunction\<close>, \<open>OtherExpr\<close> and the \<open>Other\<close> comparison and operator.
  An empty string means the term is omitted, as in the code.

  The filter is a pruning hint, so what matters is that it is never stricter than the query:
  \<open>serialize_sound\<close> proves it in three-valued logic, through the abstract syntax \<open>irc\<close> that the
  strings spell.
\<close>

section \<open>Expressions\<close>

text \<open>
  A constant by its type: signed and unsigned integers, FLOAT and DOUBLE as the bits of the double
  the code reads, booleans, strings. None is NULL.
\<close>

datatype sql_value =
    VSigned "i64 option"
  | VUnsigned "u64 option"
  | VDouble "u64 option"
  | VBoolean "bool option"
  | VVarchar "string option"
  | VOther nat

datatype comparison = EQUAL | NOTEQUAL | LESSTHAN | GREATERTHAN | LESSTHANOREQUALTO
  | GREATERTHANOREQUALTO | OTHER_COMPARISON nat

datatype operator = IS_NULL | IS_NOT_NULL | OTHER_OPERATOR nat

datatype expr =
    Comparison comparison expr expr
  | OtherFunction nat
  | ColumnRef string
  | Constant sql_value
  | Conjunction bool "expr list"
  | Operator operator "expr list"
  | OtherExpr nat

fun flip_comparison :: "comparison \<Rightarrow> comparison" where
  "flip_comparison LESSTHAN = GREATERTHAN"
| "flip_comparison GREATERTHAN = LESSTHAN"
| "flip_comparison LESSTHANOREQUALTO = GREATERTHANOREQUALTO"
| "flip_comparison GREATERTHANOREQUALTO = LESSTHANOREQUALTO"
| "flip_comparison c = c"

section \<open>Serialization\<close>

fun json_escape :: "char \<Rightarrow> string" where
  "json_escape c =
     (if c = CHR 0x22 then [CHR 0x5C, CHR 0x22]
      else if c = CHR 0x5C then [CHR 0x5C, CHR 0x5C]
      else if c = CHR 0x0A then [CHR 0x5C, CHR ''n'']
      else if c = CHR 0x0D then [CHR 0x5C, CHR ''r'']
      else if c = CHR 0x09 then [CHR 0x5C, CHR ''t'']
      else [c])"

definition json_quote :: "string \<Rightarrow> string" where
  "json_quote s = [CHR 0x22] @ concat (map json_escape s) @ [CHR 0x22]"

definition double_is_finite :: "u64 \<Rightarrow> bool" where
  "double_is_finite w \<longleftrightarrow> drop_bit 52 w AND 0x7FF \<noteq> 0x7FF"

text \<open>\<open>GetValue\<close> of a NULL throws. \<open>fmt17g\<close> is \<open>StringUtil::Format("%.17g", d)\<close>.\<close>

definition null_value :: "'a option \<Rightarrow> 'a res" where
  "null_value v = (case v of
     None \<Rightarrow> Inl (InternalException ''Calling GetValueInternal on a value that is NULL'')
   | Some x \<Rightarrow> Inr x)"

fun value_to_irc_json :: "(u64 \<Rightarrow> string) \<Rightarrow> sql_value \<Rightarrow> string res" where
  "value_to_irc_json fmt17g (VSigned v) = bind_res (null_value v) (\<lambda>w. Inr (show_int (sint w)))"
| "value_to_irc_json fmt17g (VUnsigned v) = bind_res (null_value v) (\<lambda>w. Inr (show_nat (unat w)))"
| "value_to_irc_json fmt17g (VDouble v) =
     bind_res (null_value v) (\<lambda>d. Inr (if \<not> double_is_finite d then [] else fmt17g d))"
| "value_to_irc_json fmt17g (VBoolean v) =
     bind_res (null_value v) (\<lambda>b. Inr (if b then ''true'' else ''false''))"
| "value_to_irc_json fmt17g (VVarchar v) =
     Inr (json_quote (case v of None \<Rightarrow> ''NULL'' | Some s \<Rightarrow> s))"
| "value_to_irc_json fmt17g (VOther _) = Inr []"

definition term_for_column_ref :: "string \<Rightarrow> string" where
  "term_for_column_ref col_name = (if col_name = [] then [] else json_quote col_name)"

fun irc_comparison :: "comparison \<Rightarrow> string option" where
  "irc_comparison EQUAL = Some ''eq''"
| "irc_comparison NOTEQUAL = Some ''not-eq''"
| "irc_comparison LESSTHAN = Some ''lt''"
| "irc_comparison GREATERTHAN = Some ''gt''"
| "irc_comparison LESSTHANOREQUALTO = Some ''lt-eq''"
| "irc_comparison GREATERTHANOREQUALTO = Some ''gt-eq''"
| "irc_comparison (OTHER_COMPARISON _) = None"

fun comparison_operands :: "comparison \<Rightarrow> expr \<Rightarrow> expr \<Rightarrow> (comparison \<times> string \<times> sql_value) option" where
  "comparison_operands ty (ColumnRef col) (Constant v) = Some (ty, col, v)"
| "comparison_operands ty (Constant v) (ColumnRef col) = Some (flip_comparison ty, col, v)"
| "comparison_operands ty _ _ = None"

definition join_terms :: "string \<Rightarrow> string \<Rightarrow> string \<Rightarrow> string" where
  "join_terms ty left right =
     ''{\"type\":\"'' @ ty @ ''\",\"left\":'' @ left @ '',\"right\":'' @ right @ ''}''"

text \<open>The parts of a conjunction, joined to the left; none: the empty string.\<close>

definition join_parts :: "string \<Rightarrow> string list \<Rightarrow> string" where
  "join_parts ty parts = (case parts of [] \<Rightarrow> [] | p # ps \<Rightarrow> foldl (join_terms ty) p ps)"

fun expr_to_irc_json :: "(u64 \<Rightarrow> string) \<Rightarrow> expr \<Rightarrow> string res"
  and conjunction_parts :: "(u64 \<Rightarrow> string) \<Rightarrow> bool \<Rightarrow> expr list \<Rightarrow> string list option res" where
  "expr_to_irc_json fmt17g (Comparison ty l r) =
     (case comparison_operands ty l r of
        None \<Rightarrow> Inr []
      | Some (effective_type, col, v) \<Rightarrow>
          (case irc_comparison effective_type of
             None \<Rightarrow> Inr []
           | Some type_name \<Rightarrow>
               let trm = term_for_column_ref col
               in if trm = [] then Inr []
                  else bind_res (value_to_irc_json fmt17g v) (\<lambda>val_json.
                    if val_json = [] then Inr []
                    else Inr (''{\"type\":\"'' @ type_name @ ''\",\"term\":'' @ trm @ '',\"value\":''
                              @ val_json @ ''}''))))"
| "expr_to_irc_json fmt17g (Conjunction is_and children) =
     bind_res (conjunction_parts fmt17g is_and children) (\<lambda>parts.
       case parts of
         None \<Rightarrow> Inr []
       | Some ps \<Rightarrow> Inr (join_parts (if is_and then ''and'' else ''or'') ps))"
| "expr_to_irc_json fmt17g (Operator op children) =
     (case (op, children) of
        (OTHER_OPERATOR _, _) \<Rightarrow> Inr []
      | (_, [ColumnRef col]) \<Rightarrow>
          let trm = term_for_column_ref col
          in if trm = [] then Inr []
             else Inr (''{\"type\":\"'' @ (if op = IS_NULL then ''is-null'' else ''not-null'')
                       @ ''\",\"term\":'' @ trm @ ''}'')
      | _ \<Rightarrow> Inr [])"
| "expr_to_irc_json fmt17g (OtherFunction _) = Inr []"
| "expr_to_irc_json fmt17g (ColumnRef _) = Inr []"
| "expr_to_irc_json fmt17g (Constant _) = Inr []"
| "expr_to_irc_json fmt17g (OtherExpr _) = Inr []"
| "conjunction_parts fmt17g is_and [] = Inr (Some [])"
| "conjunction_parts fmt17g is_and (e # es) =
     bind_res (expr_to_irc_json fmt17g e) (\<lambda>s.
       if s = []
       then (if \<not> is_and then Inr None else conjunction_parts fmt17g is_and es)
       else bind_res (conjunction_parts fmt17g is_and es) (\<lambda>parts. Inr (map_option (Cons s) parts)))"

definition serialize_filters_to_irc :: "(u64 \<Rightarrow> string) \<Rightarrow> expr list \<Rightarrow> string res" where
  "serialize_filters_to_irc fmt17g filters =
     bind_res (map_res (expr_to_irc_json fmt17g) filters) (\<lambda>ss.
       Inr (join_parts ''and'' (filter (\<lambda>s. s \<noteq> []) ss)))"

section \<open>What the strings say\<close>

datatype irc =
    IrcCompare comparison string sql_value
  | IrcNull bool string
  | IrcJoin bool irc irc

fun irc_text :: "(u64 \<Rightarrow> string) \<Rightarrow> irc \<Rightarrow> string" where
  "irc_text fmt17g (IrcCompare c col v) =
     ''{\"type\":\"'' @ the (irc_comparison c) @ ''\",\"term\":'' @ json_quote col @ '',\"value\":''
       @ (case value_to_irc_json fmt17g v of Inr s \<Rightarrow> s | Inl _ \<Rightarrow> []) @ ''}''"
| "irc_text fmt17g (IrcNull is_null col) =
     ''{\"type\":\"'' @ (if is_null then ''is-null'' else ''not-null'') @ ''\",\"term\":''
       @ json_quote col @ ''}''"
| "irc_text fmt17g (IrcJoin is_and l r) =
     join_terms (if is_and then ''and'' else ''or'') (irc_text fmt17g l) (irc_text fmt17g r)"

definition irc_join :: "bool \<Rightarrow> irc list \<Rightarrow> irc option" where
  "irc_join is_and ts = (case ts of [] \<Rightarrow> None | i # ts \<Rightarrow> Some (foldl (IrcJoin is_and) i ts))"

lemma irc_text_not_Nil [simp]: "irc_text fmt17g i \<noteq> []"
  by (cases i) (simp_all add: join_terms_def)

lemma irc_text_foldl:
  "irc_text fmt17g (foldl (IrcJoin is_and) i ts)
     = foldl (join_terms (if is_and then ''and'' else ''or'')) (irc_text fmt17g i) (map (irc_text fmt17g) ts)"
  by (induction ts arbitrary: i) simp_all

text \<open>Rows may hold NULL; \<open>cmp\<close> compares two values and \<open>opaque\<close> evaluates the rest.\<close>

type_synonym row = "string \<Rightarrow> sql_value option"

fun kleene :: "bool \<Rightarrow> bool option list \<Rightarrow> bool option" where
  "kleene True bs = (if Some False \<in> set bs then Some False else if None \<in> set bs then None else Some True)"
| "kleene False bs = (if Some True \<in> set bs then Some True else if None \<in> set bs then None else Some False)"

type_synonym compare_op = "comparison \<Rightarrow> sql_value \<Rightarrow> sql_value \<Rightarrow> bool option"

definition compare_row :: "compare_op \<Rightarrow> comparison \<Rightarrow> sql_value option \<Rightarrow> sql_value option \<Rightarrow> bool option" where
  "compare_row cmp c l r = (case (l, r) of (Some x, Some y) \<Rightarrow> cmp c x y | _ \<Rightarrow> None)"

definition const_value :: "sql_value \<Rightarrow> sql_value option" where
  "const_value v =
     (if v \<in> {VSigned None, VUnsigned None, VDouble None, VBoolean None, VVarchar None} then None else Some v)"

text \<open>The value a server reads from the spelling of a constant.\<close>

fun literal :: "sql_value \<Rightarrow> sql_value" where
  "literal (VVarchar None) = VVarchar (Some ''NULL'')"
| "literal v = v"

fun operand :: "(expr \<Rightarrow> row \<Rightarrow> sql_value option) \<Rightarrow> row \<Rightarrow> expr \<Rightarrow> sql_value option" where
  "operand opaque row (ColumnRef col) = row col"
| "operand opaque row (Constant v) = const_value v"
| "operand opaque row e = opaque e row"

fun eval :: "compare_op \<Rightarrow> (expr \<Rightarrow> row \<Rightarrow> sql_value option) \<Rightarrow> (expr \<Rightarrow> row \<Rightarrow> bool option) \<Rightarrow> row \<Rightarrow> expr \<Rightarrow> bool option" where
  "eval cmp opaque truth row (Comparison c l r) =
     compare_row cmp c (operand opaque row l) (operand opaque row r)"
| "eval cmp opaque truth row (Conjunction is_and es) = kleene is_and (map (eval cmp opaque truth row) es)"
| "eval cmp opaque truth row (Operator op es) =
     (case (op, es) of
        (IS_NULL, [e]) \<Rightarrow> Some (operand opaque row e = None)
      | (IS_NOT_NULL, [e]) \<Rightarrow> Some (operand opaque row e \<noteq> None)
      | _ \<Rightarrow> truth (Operator op es) row)"
| "eval cmp opaque truth row e = truth e row"

fun irc_eval :: "compare_op \<Rightarrow> row \<Rightarrow> irc \<Rightarrow> bool option" where
  "irc_eval cmp row (IrcCompare c col v) = compare_row cmp c (row col) (Some (literal v))"
| "irc_eval cmp row (IrcNull is_null col) = Some (is_null = (row col = None))"
| "irc_eval cmp row (IrcJoin is_and l r) = kleene is_and [irc_eval cmp row l, irc_eval cmp row r]"

text \<open>\<open>x < y\<close> and \<open>y > x\<close> are the same comparison.\<close>

definition cmp_flips :: "compare_op \<Rightarrow> bool" where
  "cmp_flips cmp \<longleftrightarrow> (\<forall>c x y. cmp (flip_comparison c) x y = cmp c y x)"

lemma irc_join_true:
  "irc_join True ts = Some i \<Longrightarrow> \<forall>j \<in> set ts. irc_eval cmp row j = Some True \<Longrightarrow> irc_eval cmp row i = Some True"
proof -
  have "irc_eval cmp row (foldl (IrcJoin True) a ts) = Some True"
    if "irc_eval cmp row a = Some True" "\<forall>j \<in> set ts. irc_eval cmp row j = Some True" for a ts
    using that by (induction ts arbitrary: a) simp_all
  then show "irc_join True ts = Some i \<Longrightarrow> \<forall>j \<in> set ts. irc_eval cmp row j = Some True \<Longrightarrow> irc_eval cmp row i = Some True"
    by (auto simp: irc_join_def split: list.splits)
qed

lemma irc_join_or_true:
  "irc_join False ts = Some i \<Longrightarrow> \<exists>j \<in> set ts. irc_eval cmp row j = Some True \<Longrightarrow> irc_eval cmp row i = Some True"
proof -
  have "irc_eval cmp row (foldl (IrcJoin False) a ts) = Some True"
    if "irc_eval cmp row a = Some True \<or> (\<exists>j \<in> set ts. irc_eval cmp row j = Some True)" for a ts
    using that by (induction ts arbitrary: a) auto
  then show "irc_join False ts = Some i \<Longrightarrow> \<exists>j \<in> set ts. irc_eval cmp row j = Some True \<Longrightarrow> irc_eval cmp row i = Some True"
    by (auto simp: irc_join_def split: list.splits)
qed

section \<open>The filter is never stricter than the query\<close>

text \<open>
  \<open>spells\<close>: a string the serializer returns is empty or is the text of a term that is true on every
  row the expression is true on.
\<close>

definition spells :: "(u64 \<Rightarrow> string) \<Rightarrow> compare_op \<Rightarrow> (row \<Rightarrow> bool) \<Rightarrow> string \<Rightarrow> bool" where
  "spells fmt17g cmp holds s \<longleftrightarrow> s = [] \<or>
     (\<exists>i. s = irc_text fmt17g i \<and> (\<forall>row. holds row \<longrightarrow> irc_eval cmp row i = Some True))"

lemma spellsI:
  "s = irc_text fmt17g i \<Longrightarrow> (\<And>row. holds row \<Longrightarrow> irc_eval cmp row i = Some True) \<Longrightarrow>
     spells fmt17g cmp holds s"
  by (auto simp: spells_def)

lemma true_all:
  "list_all2 (\<lambda>i h. \<forall>row. h row \<longrightarrow> irc_eval cmp row i = Some True) ts hs \<Longrightarrow>
     \<forall>h \<in> set hs. h row \<Longrightarrow> \<forall>i \<in> set ts. irc_eval cmp row i = Some True"
  by (induction rule: list_all2_induct) auto

lemma true_some:
  "list_all2 (\<lambda>i h. \<forall>row. h row \<longrightarrow> irc_eval cmp row i = Some True) ts hs \<Longrightarrow>
     \<exists>h \<in> set hs. h row \<Longrightarrow> \<exists>i \<in> set ts. irc_eval cmp row i = Some True"
  by (induction rule: list_all2_induct) auto

lemma spells_list:
  assumes "list_all2 (\<lambda>s h. spells fmt17g cmp h s \<and> s \<noteq> []) ss hs"
  obtains ts where "ss = map (irc_text fmt17g) ts"
    and "list_all2 (\<lambda>i h. \<forall>row. h row \<longrightarrow> irc_eval cmp row i = Some True) ts hs"
proof -
  have "\<exists>ts. ss = map (irc_text fmt17g) ts \<and>
      list_all2 (\<lambda>i h. \<forall>row. h row \<longrightarrow> irc_eval cmp row i = Some True) ts hs"
    using assms
  proof (induction rule: list_all2_induct)
    case (Cons s ss h hs)
    then obtain i ts where "s = irc_text fmt17g i" "\<forall>row. h row \<longrightarrow> irc_eval cmp row i = Some True"
      "ss = map (irc_text fmt17g) ts" "list_all2 (\<lambda>i h. \<forall>row. h row \<longrightarrow> irc_eval cmp row i = Some True) ts hs"
      by (auto simp: spells_def)
    then show ?case by (intro exI[of _ "i # ts"]) simp
  qed simp
  then show thesis using that by blast
qed

lemma join_parts_text:
  "join_parts (if is_and then ''and'' else ''or'') (map (irc_text fmt17g) ts)
     = (case irc_join is_and ts of None \<Rightarrow> [] | Some i \<Rightarrow> irc_text fmt17g i)"
  by (cases ts) (simp_all add: join_parts_def irc_join_def irc_text_foldl)

lemma spells_conjunction:
  assumes "list_all2 (\<lambda>s h. spells fmt17g cmp h s \<and> s \<noteq> []) ss hs"
    and "\<And>row. holds row \<Longrightarrow> (if is_and then \<forall>h \<in> set hs. h row else \<exists>h \<in> set hs. h row)"
  shows "spells fmt17g cmp holds (join_parts (if is_and then ''and'' else ''or'') ss)"
proof -
  from assms(1) obtain ts where ss: "ss = map (irc_text fmt17g) ts"
    and all: "list_all2 (\<lambda>i h. \<forall>row. h row \<longrightarrow> irc_eval cmp row i = Some True) ts hs"
    by (rule spells_list)
  show ?thesis
  proof (cases "irc_join is_and ts")
    case None
    then show ?thesis by (simp add: ss join_parts_text spells_def)
  next
    case (Some i)
    show ?thesis
    proof (rule spellsI)
      show "join_parts (if is_and then ''and'' else ''or'') ss = irc_text fmt17g i"
        by (simp add: ss join_parts_text Some)
      fix row
      assume h: "holds row"
      show "irc_eval cmp row i = Some True"
      proof (cases is_and)
        case True
        then show ?thesis using irc_join_true[of ts i] true_all[OF all, of row] assms(2)[OF h] Some by simp
      next
        case False
        then show ?thesis using irc_join_or_true[of ts i] true_some[OF all, of row] assms(2)[OF h] Some by simp
      qed
    qed
  qed
qed

lemma kleene_true:
  "kleene is_and bs = Some True \<longleftrightarrow> (if is_and then set bs \<subseteq> {Some True} else Some True \<in> set bs)"
proof (cases is_and)
  case True
  have "set bs \<subseteq> {Some True} \<longleftrightarrow> Some False \<notin> set bs \<and> None \<notin> set bs"
    by (auto, metis (full_types) option.exhaust)
  then show ?thesis using True by auto
qed auto

lemma comparison_spells:
  assumes "cmp_flips cmp" and "expr_to_irc_json fmt17g (Comparison c l r) = Inr s"
  shows "spells fmt17g cmp (\<lambda>row. eval cmp opaque truth row (Comparison c l r) = Some True) s"
proof (cases "s = []")
  case False
  then obtain c' col v ty vs where ops: "comparison_operands c l r = Some (c', col, v)"
    and ty: "irc_comparison c' = Some ty" and vs: "value_to_irc_json fmt17g v = Inr vs"
    and col: "col \<noteq> []"
    and s: "s = irc_text fmt17g (IrcCompare c' col v)"
    using assms(2)
    by (auto simp: bind_res_eq_Inr Let_def term_for_column_ref_def split: option.splits if_splits)
  have "irc_eval cmp row (IrcCompare c' col v) = Some True"
    if "eval cmp opaque truth row (Comparison c l r) = Some True" for row
  proof -
    have lit: "const_value v = Some w \<Longrightarrow> literal v = w" for w
      by (cases v rule: literal.cases) (auto simp: const_value_def split: if_splits)
    from ops consider "l = ColumnRef col" "r = Constant v" "c' = c"
      | "l = Constant v" "r = ColumnRef col" "c' = flip_comparison c"
      by (cases "(c, l, r)" rule: comparison_operands.cases) auto
    then show ?thesis
      using that assms(1) lit
      by cases (auto simp: compare_row_def cmp_flips_def split: option.splits)
  qed
  with s show ?thesis by (rule spellsI)
qed (simp add: spells_def)

lemma operator_spells:
  assumes "expr_to_irc_json fmt17g (Operator op es) = Inr s"
  shows "spells fmt17g cmp (\<lambda>row. eval cmp opaque truth row (Operator op es) = Some True) s"
proof (cases "s = []")
  case False
  then obtain col where "es = [ColumnRef col]" "op = IS_NULL \<or> op = IS_NOT_NULL" "col \<noteq> []"
    "s = irc_text fmt17g (IrcNull (op = IS_NULL) col)"
    using assms
    by (auto simp: Let_def term_for_column_ref_def split: operator.splits list.splits expr.splits if_splits)
  note shape = this
  show ?thesis by (rule spellsI[OF shape(4)]) (use shape in auto)
qed (simp add: spells_def)

lemma expr_spells:
  assumes "cmp_flips cmp"
  shows "expr_to_irc_json fmt17g e = Inr s \<Longrightarrow>
      spells fmt17g cmp (\<lambda>row. eval cmp opaque truth row e = Some True) s"
    and "conjunction_parts fmt17g is_and es = Inr (Some ss) \<Longrightarrow>
      \<exists>fs. set fs \<subseteq> set es \<and> (\<not> is_and \<longrightarrow> fs = es) \<and>
        list_all2 (\<lambda>s h. spells fmt17g cmp h s \<and> s \<noteq> []) ss
          (map (\<lambda>e row. eval cmp opaque truth row e = Some True) fs)"
proof (induction fmt17g e and fmt17g is_and es arbitrary: s and ss
    rule: expr_to_irc_json_conjunction_parts.induct[case_names cmp conj op fn col const other nil cons])
  case (cmp fmt17g ty l r)
  then show ?case by (intro comparison_spells assms)
next
  case (conj fmt17g is_and children)
  from conj.prems obtain parts where parts: "conjunction_parts fmt17g is_and children = Inr parts"
    and s: "s = (case parts of None \<Rightarrow> [] | Some ps \<Rightarrow> join_parts (if is_and then ''and'' else ''or'') ps)"
    by (cases "conjunction_parts fmt17g is_and children") (simp_all split: option.splits)
  show ?case
  proof (cases parts)
    case None
    then show ?thesis using s by (simp add: spells_def)
  next
    case (Some ss)
    have 2: "conjunction_parts fmt17g is_and children = Inr (Some ss)"
      "s = join_parts (if is_and then ''and'' else ''or'') ss" using parts s Some by simp_all
    from conj.IH[OF 2(1)] obtain fs where fs: "set fs \<subseteq> set children" "\<not> is_and \<longrightarrow> fs = children"
      "list_all2 (\<lambda>s h. spells fmt17g cmp h s \<and> s \<noteq> []) ss
          (map (\<lambda>e row. eval cmp opaque truth row e = Some True) fs)" by blast
    show ?thesis unfolding 2(2)
    proof (rule spells_conjunction[OF fs(3)])
      fix row
      assume "eval cmp opaque truth row (Conjunction is_and children) = Some True"
      then have "if is_and then set (map (eval cmp opaque truth row) children) \<subseteq> {Some True}
          else Some True \<in> set (map (eval cmp opaque truth row) children)"
        unfolding eval.simps kleene_true .
      then show "if is_and then \<forall>h \<in> set (map (\<lambda>e row. eval cmp opaque truth row e = Some True) fs). h row
          else \<exists>h \<in> set (map (\<lambda>e row. eval cmp opaque truth row e = Some True) fs). h row"
        using fs(1,2) by (cases is_and) auto
    qed
  qed
next
  case (op fmt17g op children)
  then show ?case by (intro operator_spells)
next
  case (nil fmt17g is_and)
  then show ?case by (intro exI[of _ "[]"]) simp
next
  case (cons fmt17g is_and e es)
  from cons.prems obtain s1 where s1: "expr_to_irc_json fmt17g e = Inr s1"
    by (auto simp: bind_res_eq_Inr)
  show ?case
  proof (cases "s1 = []")
    case True
    then have "is_and" "conjunction_parts fmt17g is_and es = Inr (Some ss)"
      using cons.prems s1 by (auto split: if_splits)
    from cons.IH(2)[OF s1 True _ this(2)] this(1) obtain fs where "set fs \<subseteq> set es"
      "list_all2 (\<lambda>s h. spells fmt17g cmp h s \<and> s \<noteq> []) ss
          (map (\<lambda>e row. eval cmp opaque truth row e = Some True) fs)" by blast
    then show ?thesis using \<open>is_and\<close> by (intro exI[of _ fs]) auto
  next
    case False
    then obtain ss' where ss': "conjunction_parts fmt17g is_and es = Inr (Some ss')" "ss = s1 # ss'"
      using cons.prems s1 by (auto simp: bind_res_eq_Inr)
    from cons.IH(3)[OF s1 False ss'(1)] obtain fs where "set fs \<subseteq> set es" "\<not> is_and \<longrightarrow> fs = es"
      "list_all2 (\<lambda>s h. spells fmt17g cmp h s \<and> s \<noteq> []) ss'
          (map (\<lambda>e row. eval cmp opaque truth row e = Some True) fs)" by blast
    then show ?thesis using cons.IH(1)[OF s1] False ss'(2)
      by (intro exI[of _ "e # fs"]) auto
  qed
qed (auto simp: spells_def)

section \<open>Strings and totality\<close>

lemma json_quote_reads:
  "json_string (json_quote s @ rest)
     = (if \<exists>c \<in> set s. is_control c \<and> c \<notin> {CHR 0x0A, CHR 0x0D, CHR 0x09} then None else Some (s, rest))"
proof -
  have "escapes json_escape" by (simp add: escapes_def json_unescape_def)
  moreover have "is_control c \<and> json_escape c = [c] \<longleftrightarrow>
      is_control c \<and> c \<notin> {CHR 0x0A, CHR 0x0D, CHR 0x09}" for c
    by (auto simp: is_control_def)
  ultimately show ?thesis
    using json_chars_escaped[of json_escape s rest] by (simp add: json_quote_def)
qed

fun has_null_constant :: "expr \<Rightarrow> bool" where
  "has_null_constant (Comparison _ l r) = (has_null_constant l \<or> has_null_constant r)"
| "has_null_constant (Constant v) = (v \<in> {VSigned None, VUnsigned None, VDouble None, VBoolean None})"
| "has_null_constant (Conjunction _ es) = (\<exists>e \<in> set es. has_null_constant e)"
| "has_null_constant _ = False"

lemma value_to_irc_json_total: "\<not> has_null_constant (Constant v) \<Longrightarrow> \<exists>s. value_to_irc_json fmt17g v = Inr s"
  by (cases "(fmt17g, v)" rule: value_to_irc_json.cases) (auto simp: null_value_def split: option.splits)

lemma expr_to_irc_json_total:
  "\<not> has_null_constant e \<Longrightarrow> \<exists>s. expr_to_irc_json fmt17g e = Inr s"
  "\<forall>e \<in> set es. \<not> has_null_constant e \<Longrightarrow> \<exists>p. conjunction_parts fmt17g is_and es = Inr p"
proof (induction fmt17g e and fmt17g is_and es
    rule: expr_to_irc_json_conjunction_parts.induct[case_names cmp conj op fn col const other nil cons])
  case (cmp fmt17g ty l r)
  have "\<not> has_null_constant (Constant v)" if "comparison_operands ty l r = Some (c, col, v)" for c col v
    using that cmp by (cases "(ty, l, r)" rule: comparison_operands.cases) auto
  then show ?case using value_to_irc_json_total[of _ fmt17g]
    by (fastforce simp: Let_def split: option.splits)
next
  case (conj fmt17g is_and children)
  then show ?case by (auto split: option.splits)
next
  case (op fmt17g op children)
  then show ?case by (auto simp: Let_def split: operator.splits list.splits expr.splits)
next
  case (cons fmt17g is_and e es)
  then show ?case by (cases "expr_to_irc_json fmt17g e") auto
qed simp_all

lemma serialize_total:
  assumes "\<forall>f \<in> set filters. \<not> has_null_constant f"
  shows "\<exists>s. serialize_filters_to_irc fmt17g filters = Inr s"
proof -
  have "\<exists>ss. map_res (expr_to_irc_json fmt17g) fs = Inr ss" if "\<forall>f \<in> set fs. \<not> has_null_constant f" for fs
    using that
  proof (induction fs)
    case (Cons f fs)
    then show ?case using expr_to_irc_json_total(1)[of f fmt17g] by auto
  qed simp
  then obtain ss where "map_res (expr_to_irc_json fmt17g) filters = Inr ss" using assms by blast
  then show ?thesis by (simp add: serialize_filters_to_irc_def)
qed

lemma serialize_spells:
  assumes "cmp_flips cmp" and "serialize_filters_to_irc fmt17g filters = Inr s"
  shows "spells fmt17g cmp (\<lambda>row. \<forall>f \<in> set filters. eval cmp opaque truth row f = Some True) s"
proof -
  obtain ss where ss: "list_all2 (\<lambda>f s. expr_to_irc_json fmt17g f = Inr s) filters ss"
    and s: "s = join_parts ''and'' (filter (\<lambda>s. s \<noteq> []) ss)"
    using assms(2) by (auto simp: serialize_filters_to_irc_def bind_res_eq_Inr map_res_Inr_iff)
  have "\<exists>fs. set fs \<subseteq> set filters \<and> list_all2 (\<lambda>s h. spells fmt17g cmp h s \<and> s \<noteq> []) (filter (\<lambda>s. s \<noteq> []) ss)
      (map (\<lambda>f row. eval cmp opaque truth row f = Some True) fs)"
    using ss
  proof (induction rule: list_all2_induct)
    case (Cons f fs' s ss)
    then obtain fs where fs: "set fs \<subseteq> set fs'" "list_all2 (\<lambda>s h. spells fmt17g cmp h s \<and> s \<noteq> [])
        (filter (\<lambda>s. s \<noteq> []) ss) (map (\<lambda>f row. eval cmp opaque truth row f = Some True) fs)" by blast
    have sp: "spells fmt17g cmp (\<lambda>row. eval cmp opaque truth row f = Some True) s"
      using expr_spells(1)[OF assms(1)] Cons(1) by blast
    show ?case
    proof (cases "s = []")
      case True
      then show ?thesis using fs by (intro exI[of _ fs]) auto
    next
      case False
      then show ?thesis using fs sp by (intro exI[of _ "f # fs"]) auto
    qed
  qed (auto intro: exI[of _ "[]"])
  then obtain fs where fs: "set fs \<subseteq> set filters"
    "list_all2 (\<lambda>s h. spells fmt17g cmp h s \<and> s \<noteq> []) (filter (\<lambda>s. s \<noteq> []) ss)
      (map (\<lambda>f row. eval cmp opaque truth row f = Some True) fs)" by blast
  have "spells fmt17g cmp (\<lambda>row. \<forall>f \<in> set filters. eval cmp opaque truth row f = Some True)
      (join_parts (if True then ''and'' else ''or'') (filter (\<lambda>s. s \<noteq> []) ss))"
    by (rule spells_conjunction[OF fs(2)]) (use fs(1) in auto)
  then show ?thesis using s by simp
qed

section \<open>Properties\<close>


definition cmp_witness :: compare_op where
  "cmp_witness c x y = (if c = EQUAL then Some (x = y) else None)"

definition filters_witness :: "expr list" where
  "filters_witness =
     [Conjunction True [Comparison EQUAL (Constant (VSigned (Some 3))) (ColumnRef ''a''), OtherFunction 0],
      Operator IS_NOT_NULL [ColumnRef ''b'']]"


text \<open>
  Serialization always succeeds unless a filter holds a NULL constant of a numeric or boolean
  type: no other filter, however it is built, can make it throw.
\<close>

theorem filter_serialization_total:
  assumes "\<forall>f \<in> set filters. \<not> has_null_constant f"
  shows "\<exists>s. serialize_filters_to_irc fmt17g filters = Inr s"
  by (rule serialize_total[OF assms])

lemma filter_serialization_total_witness:
  "\<exists>s. serialize_filters_to_irc (\<lambda>_. ''1'') filters_witness = Inr s"
  by (rule filter_serialization_total) (simp add: filters_witness_def)

text \<open>
  A name or string in the filter is read by a JSON parser as exactly that string, unless it
  holds a control character other than newline, carriage return and tab: those are written raw, and
  the filter is then not JSON.
\<close>

theorem quoted_string_roundtrip:
  "json_string (json_quote s @ rest)
     = (if \<exists>c \<in> set s. is_control c \<and> c \<notin> {CHR 0x0A, CHR 0x0D, CHR 0x09} then None else Some (s, rest))"
  by (rule json_quote_reads)

end
