(* ===== verification/UC_Deletes.thy ===== *)
theory UC_Deletes
  imports UC_Puffin UC_Scan_Plan
begin

text \<open>
  Row-level deletes: \<open>UCPositionDeleteFilter::Filter\<close>, \<open>BuildUCDeleteFilter\<close> with
  \<open>ScanPositionalDeleteFile\<close> and \<open>ScanDeletionVectorFile\<close> (\<open>src/uc_multi_file_list.cpp\<close>), and the
  table function \<open>uc_read_deletion_vector\<close> (\<open>src/functions/uc_deletion_vector.cpp\<close>).

  A set of row positions is a HOL set of 64-bit words; an ordered \<open>set<idx_t>\<close> is read out in
  unsigned order. The parquet reader and the file system belong to the environment.
\<close>

section \<open>The filter of one file\<close>

definition position_filter :: "i64 set \<Rightarrow> i64 \<Rightarrow> nat \<Rightarrow> nat \<times> nat list" where
  "position_filter positions start_row_index cnt =
     (if cnt = 0 then (0, [])
      else let result_sel = filter (\<lambda>i. start_row_index + of_nat i \<notin> positions) [0..<cnt]
           in (length result_sel, result_sel))"

text \<open>\<open>NumericCast<int64_t>\<close> of an unsigned and \<open>NumericCast<idx_t>\<close> of a signed 64-bit value.\<close>

definition numeric_cast :: "u64 \<Rightarrow> u64 res" where
  "numeric_cast w =
     (if sint w < 0 then Inl (InternalException ''Information loss on integer cast'') else Inr w)"

text \<open>\<open>FileHandle::Read\<close> at a location: all the bytes asked for, or an exception.\<close>

definition read_at :: "env \<Rightarrow> string \<Rightarrow> u64 \<Rightarrow> u64 \<Rightarrow> ('x world_scheme, bytes) io" where
  "read_at env path n location =
     bind (call (e_file env) (ReadAt path n location)) (\<lambda>bs.
       if length bs = unat n then ret bs
       else throw (IOException (''Could not read enough bytes from file '' @ path)))"

definition keep_positions :: "string \<Rightarrow> (string \<times> i64) list \<Rightarrow> i64 set" where
  "keep_positions data_file_path rows = snd ` {r \<in> set rows. fst r = data_file_path}"

text \<open>
  \<open>ScanParquetFile\<close>: the callback sees each chunk that holds rows, up to the first that holds none. A chunk
  is the number of its columns with its rows.
\<close>

fun each_chunk :: "(nat \<times> 'r list \<Rightarrow> 'a \<Rightarrow> 'a res) \<Rightarrow> (nat \<times> 'r list) list \<Rightarrow> 'a \<Rightarrow> 'a res" where
  "each_chunk consume [] out = Inr out"
| "each_chunk consume (result # chunks) out =
     (if snd result \<noteq> [] then bind_res (consume result out) (each_chunk consume chunks) else Inr out)"

definition scan_parquet_file ::
  "env \<Rightarrow> string \<Rightarrow> (nat \<times> (string \<times> i64) list \<Rightarrow> 'a \<Rightarrow> 'a res) \<Rightarrow> 'a \<Rightarrow> ('x world_scheme, 'a) io" where
  "scan_parquet_file env path consume out =
     bind (call (e_done env) (LookupFunction ''parquet_scan'')) (\<lambda>_.
     bind (call (e_parquet env) (ScanParquet path)) (\<lambda>chunks. lift_res (each_chunk consume chunks out)))"

definition consume_positions :: "string \<Rightarrow> string \<Rightarrow> nat \<times> (string \<times> i64) list \<Rightarrow> i64 set \<Rightarrow> i64 set res" where
  "consume_positions file_path data_file_path chunk out =
     (if fst chunk < 2
      then Inl (IOException (''scan-plan: positional delete file '' @ in_quotes file_path @ '' has ''
             @ show_nat (fst chunk) @ '' column(s), expected at least (file_path, pos)''))
      else Inr (out \<union> keep_positions data_file_path (snd chunk)))"

definition scan_positional_delete_file ::
  "env \<Rightarrow> scan_delete_file \<Rightarrow> string \<Rightarrow> i64 set \<Rightarrow> ('x world_scheme, i64 set) io" where
  "scan_positional_delete_file env d data_file_path out =
     (if del_file_format d \<noteq> ''parquet''
      then throw (NotImplementedException (''scan-plan: positional delete file '' @ in_quotes (del_file_path d)
             @ '' has file-format '' @ in_quotes (del_file_format d) @ em_dash
             @ ''only parquet-format position-delete files are supported ''
             @ ''(the format Delta-via-UniForm is expected to produce); avro/orc are not.''))
      else scan_parquet_file env (del_file_path d) (consume_positions (del_file_path d) data_file_path) out)"

definition scan_deletion_vector_file ::
  "env \<Rightarrow> roaring_ops \<Rightarrow> scan_delete_file \<Rightarrow> i64 set \<Rightarrow> ('x world_scheme, i64 set) io" where
  "scan_deletion_vector_file env rb d out =
     (if sint (del_content_size d) < 0
      then throw (IOException (''scan-plan: deletion-vector delete file '' @ in_quotes (del_file_path d)
             @ '' has content-offset '' @ show_int (sint (del_content_offset d))
             @ '' but no content-size-in-bytes'' @ em_dash @ ''server response is malformed''))
      else try_catch
        (bind (call (e_done env) (OpenRead (del_file_path d))) (\<lambda>_.
         bind (lift_res (numeric_cast (del_content_size d))) (\<lambda>n.
         bind (lift_res (numeric_cast (del_content_offset d))) (\<lambda>location.
         bind (read_at env (del_file_path d) n location) (\<lambda>buffer.
         bind (lift_res (from_blob rb buffer (del_file_path d))) (\<lambda>blob.
         bind (lift_res (map_res numeric_cast (sorted_list_of_set (to_set blob {})))) (\<lambda>positions.
         ret (out \<union> set positions))))))))
        (\<lambda>e. bind (log_warning ''api-irc.DeletionVector'') (\<lambda>_. throw e)))"

fun scan_deletes ::
  "env \<Rightarrow> roaring_ops \<Rightarrow> string \<Rightarrow> scan_delete_file list \<Rightarrow> i64 set \<Rightarrow> ('x world_scheme, i64 set) io" where
  "scan_deletes env rb data_file_path [] out = ret out"
| "scan_deletes env rb data_file_path (d # ds) out =
     bind (if 0 \<le> sint (del_content_offset d) then scan_deletion_vector_file env rb d out
           else scan_positional_delete_file env d data_file_path out)
       (scan_deletes env rb data_file_path ds)"

definition equality_delete :: "string \<Rightarrow> scan_delete_file \<Rightarrow> uc_exn" where
  "equality_delete data_file_path d = NotImplementedException
     (''scan-plan: table has an equality-delete file ('' @ in_quotes (del_file_path d)
       @ '') referencing data file '' @ in_quotes data_file_path @ ''. Applying ''
       @ ''equality deletes correctly requires mapping each Iceberg field-id in its equality-ids to this ''
       @ ''table's output columns; that mapping is not resolved anywhere in this extension today (no ''
       @ ''field-id-carrying schema fetch exists), so the safe choice is to fail loud rather than silently ''
       @ ''match columns by name (wrong under a renamed column). See BuildUCDeleteFilter's doc comment.'')"

definition build_uc_delete_filter ::
  "env \<Rightarrow> roaring_ops \<Rightarrow> string \<Rightarrow> scan_delete_file list \<Rightarrow> ('x world_scheme, i64 set option) io" where
  "build_uc_delete_filter env rb data_file_path deletes =
     (if deletes = [] then ret None
      else case filter (\<lambda>d. del_content d = EQUALITY_DELETES) deletes of
        d # _ \<Rightarrow> throw (equality_delete data_file_path d)
      | [] \<Rightarrow> bind (scan_deletes env rb data_file_path deletes {}) (\<lambda>deleted_positions.
               ret (if deleted_positions = {} then None else Some deleted_positions)))"

section \<open>uc_read_deletion_vector\<close>

record read_dv_bind_data =
  rdv_path :: string
  rdv_offset :: i64
  rdv_size :: i64
  rdv_whole_file :: bool

definition read_dv_bind :: "string \<Rightarrow> i64 option \<Rightarrow> i64 option \<Rightarrow> read_dv_bind_data res" where
  "read_dv_bind path content_offset content_size =
     (case (content_offset, content_size) of
        (None, None) \<Rightarrow> Inr \<lparr>rdv_path = path, rdv_offset = 0, rdv_size = - 1, rdv_whole_file = True\<rparr>
      | (Some off, Some sz) \<Rightarrow>
          if sint off < 0 \<or> sint sz < 0
          then Inl (InvalidInputException
                 (''uc_read_deletion_vector: '' @ in_quotes ''content_offset'' @ '' and '' @ in_quotes ''content_size''
                    @ '' must be non-negative''))
          else Inr \<lparr>rdv_path = path, rdv_offset = off, rdv_size = sz, rdv_whole_file = False\<rparr>
      | _ \<Rightarrow> Inl (InvalidInputException
               (''uc_read_deletion_vector: '' @ in_quotes ''content_offset'' @ '' and '' @ in_quotes ''content_size''
                  @ '' must be given together (or neither, to read the whole file)'')))"

fun decode_blobs :: "roaring_ops \<Rightarrow> bytes \<Rightarrow> string \<Rightarrow> puffin_blob list \<Rightarrow> u64 set \<Rightarrow> u64 set res" where
  "decode_blobs rb data path [] out = Inr out"
| "decode_blobs rb data path (b # bs) out =
     bind_res (decode_blob rb data path b) (\<lambda>dv. decode_blobs rb data path bs (to_set dv out))"

text \<open>\<open>file_size\<close> is what \<open>GetFileSize\<close> says of the open file.\<close>

definition read_dv_init ::
  "env \<Rightarrow> roaring_ops \<Rightarrow> (string \<Rightarrow> i64) \<Rightarrow> read_dv_bind_data \<Rightarrow> ('x world_scheme, i64 list) io" where
  "read_dv_init env rb file_size bd =
     bind (call (e_done env) (OpenRead (rdv_path bd))) (\<lambda>_.
     bind (if rdv_whole_file bd
           then bind (lift_res (numeric_cast (file_size (rdv_path bd)))) (\<lambda>n.
                bind (read_at env (rdv_path bd) n 0) (\<lambda>buffer.
                bind (lift_res (parse_footer (e_read env) buffer n (rdv_path bd))) (\<lambda>blobs.
                lift_res (decode_blobs rb buffer (rdv_path bd) blobs {}))))
           else bind (lift_res (numeric_cast (rdv_size bd))) (\<lambda>n.
                bind (lift_res (numeric_cast (rdv_offset bd))) (\<lambda>location.
                bind (read_at env (rdv_path bd) n location) (\<lambda>buffer.
                bind (lift_res (from_blob rb buffer (rdv_path bd))) (\<lambda>dv. ret (to_set dv {}))))))
       (\<lambda>positions. lift_res (map_res numeric_cast (sorted_list_of_set positions))))"

definition standard_vector_size :: nat where
  "standard_vector_size = 2048"

text \<open>One call of the scan: the rows it outputs and the cursor it leaves.\<close>

definition read_dv_function :: "i64 list \<Rightarrow> nat \<Rightarrow> i64 list \<times> nat" where
  "read_dv_function positions cursor =
     (let out = take standard_vector_size (drop cursor positions) in (out, cursor + length out))"

text \<open>The operator calls the function until it outputs no row.\<close>

function read_dv_scan :: "i64 list \<Rightarrow> nat \<Rightarrow> i64 list list" where
  "read_dv_scan positions cursor =
     (case read_dv_function positions cursor of (out, cursor') \<Rightarrow>
        if out = [] then [] else out # read_dv_scan positions cursor')"
  by pat_completeness auto
termination
  by (relation "measure (\<lambda>(positions, cursor). length positions - cursor)")
     (auto simp: read_dv_function_def standard_vector_size_def)

declare read_dv_scan.simps [simp del]

section \<open>What a delete file contributes\<close>

definition contributes :: "env \<Rightarrow> roaring_ops \<Rightarrow> string \<Rightarrow> scan_delete_file \<Rightarrow> i64 set \<Rightarrow> bool" where
  "contributes env rb path d part \<longleftrightarrow>
     (if 0 \<le> sint (del_content_offset d)
      then \<exists>h buf dv. e_file env h = Inr buf \<and> length buf = unat (del_content_size d)
             \<and> from_blob rb buf (del_file_path d) = Inr dv \<and> part = to_set dv {}
      else \<exists>h chunks. e_parquet env h = Inr chunks
             \<and> part = keep_positions path (concat (map snd (takeWhile (\<lambda>c. snd c \<noteq> []) chunks))))"

lemma numeric_cast_id: "numeric_cast w = Inr v \<Longrightarrow> v = w \<and> 0 \<le> sint w"
  by (auto simp: numeric_cast_def split: if_splits)

lemma numeric_casts_id: "map_res numeric_cast ws = Inr vs \<Longrightarrow> vs = ws"
  by (induction ws arbitrary: vs) (auto simp: bind_res_eq_Inr dest: numeric_cast_id)

lemma read_at_length: "read_at env path n loc s = (Inr bs, t) \<Longrightarrow>
    length bs = unat n \<and> (\<exists>h. e_file env h = Inr bs)"
  by (auto simp: read_at_def bind_eq_Inr split: if_splits)

lemma keep_positions_append [simp]:
  "keep_positions path [] = {}"
  "keep_positions path (xs @ ys) = keep_positions path xs \<union> keep_positions path ys"
  by (auto simp: keep_positions_def)

lemma each_chunk_union:
  "each_chunk (consume_positions fp path) chunks out = Inr r \<Longrightarrow>
     r = out \<union> keep_positions path (concat (map snd (takeWhile (\<lambda>c. snd c \<noteq> []) chunks)))"
  by (induction "consume_positions fp path" chunks out rule: each_chunk.induct)
     (auto simp: keep_positions_append consume_positions_def bind_res_eq_Inr split: if_splits)

lemma finite_to_set: "finite (to_set dv {})"
  by (induction dv) (auto simp: to_set_def)

lemma scan_deletion_vector_contributes:
  fixes s :: "'x world_scheme"
  assumes "scan_deletion_vector_file env rb d out s = (Inr r, t)" and "0 \<le> sint (del_content_offset d)"
  shows "\<exists>part. contributes env rb path d part \<and> r = out \<union> part"
proof -
  from assms(1) obtain n loc buf dv ps and s1 s2 :: "'x world_scheme" where
    "numeric_cast (del_content_size d) = Inr n"
    "read_at env (del_file_path d) n loc s1 = (Inr buf, s2)"
    "from_blob rb buf (del_file_path d) = Inr dv"
    "map_res numeric_cast (sorted_list_of_set (to_set dv {})) = Inr ps" "r = out \<union> set ps"
    by (auto simp: scan_deletion_vector_file_def try_catch_run bind_eq_Inr bind_eq_Inl log_warning_def
        split: if_splits sum.splits prod.splits)
  then show ?thesis
    using assms(2) read_at_length numeric_cast_id numeric_casts_id finite_to_set[of dv]
    unfolding contributes_def by (metis set_sorted_list_of_set)
qed

lemma scan_positional_contributes:
  assumes "scan_positional_delete_file env d path out s = (Inr r, t)" and "\<not> 0 \<le> sint (del_content_offset d)"
  shows "\<exists>part. contributes env rb path d part \<and> r = out \<union> part"
  using assms each_chunk_union
  by (fastforce simp: scan_positional_delete_file_def scan_parquet_file_def bind_eq_Inr contributes_def split: if_splits)

lemma scan_deletes_contribute:
  "scan_deletes env rb path ds out s = (Inr r, t) \<Longrightarrow>
     \<exists>parts. list_all2 (contributes env rb path) ds parts \<and> r = out \<union> \<Union> (set parts)"
proof (induction ds arbitrary: out s)
  case (Cons d ds)
  then obtain r1 s1 where
    one: "(if 0 \<le> sint (del_content_offset d) then scan_deletion_vector_file env rb d out
           else scan_positional_delete_file env d path out) s = (Inr r1, s1)"
    and rest: "scan_deletes env rb path ds r1 s1 = (Inr r, t)"
    by (auto simp: bind_eq_Inr)
  from Cons.IH[OF rest] obtain parts where parts: "list_all2 (contributes env rb path) ds parts"
    "r = r1 \<union> \<Union> (set parts)" by blast
  obtain part where "contributes env rb path d part" "r1 = out \<union> part"
  proof (cases "0 \<le> sint (del_content_offset d)")
    case True
    with one have "scan_deletion_vector_file env rb d out s = (Inr r1, s1)" by simp
    from scan_deletion_vector_contributes[OF this True] show ?thesis using that by blast
  next
    case False
    with one have "scan_positional_delete_file env d path out s = (Inr r1, s1)" by simp
    from scan_positional_contributes[OF this False] show ?thesis using that by blast
  qed
  then show ?case using parts by (intro exI[of _ "part # parts"]) auto
qed (auto intro: exI[of _ "[]"])

lemma build_filter_contributes:
  fixes s :: "'x world_scheme"
  assumes "build_uc_delete_filter env rb path ds s = (Inr flt, t)"
  shows "\<exists>parts. list_all2 (contributes env rb path) ds parts \<and>
    flt = (if \<Union> (set parts) = {} then None else Some (\<Union> (set parts)))"
proof (cases "ds = []")
  case True
  then show ?thesis using assms by (simp add: build_uc_delete_filter_def)
next
  case False
  show ?thesis
  proof (cases "filter (\<lambda>d. del_content d = EQUALITY_DELETES) ds")
    case Nil
    then obtain ps and s' :: "'x world_scheme" where ps: "scan_deletes env rb path ds {} s = (Inr ps, s')"
      and flt: "flt = (if ps = {} then None else Some ps)"
      using assms False unfolding build_uc_delete_filter_def by (simp only: if_False list.case) (auto simp: bind_eq_Inr)
    from scan_deletes_contribute[OF ps] obtain parts where "list_all2 (contributes env rb path) ds parts"
      "ps = {} \<union> \<Union> (set parts)" by blast
    then show ?thesis using flt by (intro exI[of _ parts]) simp
  next
    case (Cons d ds')
    then show ?thesis using assms False unfolding build_uc_delete_filter_def by simp
  qed
qed

lemma build_filter_equality:
  assumes "d \<in> set ds" and "del_content d = EQUALITY_DELETES"
  shows "\<exists>d'. build_uc_delete_filter env rb path ds s = (Inl (equality_delete path d'), s)"
proof (cases "filter (\<lambda>d. del_content d = EQUALITY_DELETES) ds")
  case Nil
  then show ?thesis using assms by (simp add: filter_empty_conv)
next
  case (Cons d' ds')
  then have "ds \<noteq> []" by auto
  then show ?thesis using Cons unfolding build_uc_delete_filter_def by simp blast
qed

lemma read_dv_scan_concat: "concat (read_dv_scan positions cursor) = drop cursor positions"
proof (induction positions cursor rule: read_dv_scan.induct)
  case (1 positions cursor)
  show ?case
  proof (cases "cursor < length positions")
    case True
    define out where "out = take standard_vector_size (drop cursor positions)"
    have "out \<noteq> []" using True by (simp add: out_def standard_vector_size_def)
    then have "read_dv_scan positions cursor = out # read_dv_scan positions (cursor + length out)"
      by (subst read_dv_scan.simps) (simp add: read_dv_function_def Let_def out_def)
    moreover have "concat (read_dv_scan positions (cursor + length out)) = drop (cursor + length out) positions"
      using 1 \<open>out \<noteq> []\<close> by (simp add: read_dv_function_def Let_def out_def)
    moreover have "out @ drop (cursor + length out) positions = drop cursor positions"
      unfolding out_def by (metis add.commute append_take_drop_id drop_drop length_take
          drop_eq_Nil min.absorb1 min.cobounded1 min_def nat_le_linear take_all)
    ultimately show ?thesis by simp
  next
    case False
    then show ?thesis by (subst read_dv_scan.simps) (simp add: read_dv_function_def)
  qed
qed

lemma read_dv_scan_chunk: "out \<in> set (read_dv_scan positions cursor) \<Longrightarrow> 0 < length out \<and> length out \<le> 2048"
proof (induction positions cursor rule: read_dv_scan.induct)
  case (1 positions cursor)
  then show ?case
    by (subst (asm) (2) read_dv_scan.simps)
       (auto simp: read_dv_function_def Let_def standard_vector_size_def split: if_splits)
qed

section \<open>Properties\<close>


definition delete_witness :: scan_delete_file where
  "delete_witness = \<lparr>del_content = POSITION_DELETES, del_file_path = ''d'', del_file_format = ''parquet'',
     del_file_size = 0, del_record_count = 0, del_equality_ids = [], del_content_offset = - 1,
     del_content_size = - 1\<rparr>"

definition env_deletes :: env where
  "env_deletes = env_witness\<lparr>e_parquet := (\<lambda>_. Inr [(2, [(''a'', 1), (''b'', 2)]), (2, [(''a'', 3)])])\<rparr>"


text \<open>
  A table with equality deletes is refused before anything is read: if any delete file of a data
  file is one, the filter is not built, the exception names it, and no call is made.
\<close>

theorem equality_deletes_refused:
  assumes "d \<in> set ds" and "del_content d = EQUALITY_DELETES"
  shows "\<exists>d'. build_uc_delete_filter env rb path ds s = (Inl (equality_delete path d'), s)"
  by (rule build_filter_equality[OF assms])

lemma equality_deletes_refused_witness:
  "\<exists>d'. build_uc_delete_filter env_witness rb_witness ''a''
      [delete_witness, delete_witness\<lparr>del_content := EQUALITY_DELETES\<rparr>] \<lparr>hist = []\<rparr>
    = (Inl (equality_delete ''a'' d'), \<lparr>hist = []\<rparr>)"
  by (rule equality_deletes_refused[of "delete_witness\<lparr>del_content := EQUALITY_DELETES\<rparr>"]) simp_all

text \<open>
  \<open>uc_read_deletion_vector\<close> returns every position once and in order: the chunks of its
  successive calls, each of 1 to 2048 rows, are the list of positions cut into pieces.
\<close>

theorem read_deletion_vector_complete:
  "concat (read_dv_scan positions 0) = positions \<and>
   list_all (\<lambda>out. 0 < length out \<and> length out \<le> 2048) (read_dv_scan positions 0)"
  using read_dv_scan_concat[of positions 0] read_dv_scan_chunk[of _ positions 0]
  by (auto simp: list_all_iff)

end
