(* ===== verification/UC_File_List.thy ===== *)
theory UC_File_List
  imports UC_Deletes "HOL-Library.Multiset"
begin

text \<open>
  \<open>UCMultiFileList\<close> and \<open>UCMultiFileReader\<close> (\<open>src/uc_multi_file_list.cpp\<close>): the files of a scan
  plan, those listed inline and those fetched token by token, each with its delete files.

  The list is an extension of the world record. \<open>ExpandNextPath\<close> asks the server for as long as it
  hands out tokens without files, which need not end: it is a partial function, None when it does
  not return. \<open>expansion_returns\<close> says when it does.
\<close>

section \<open>The list\<close>

record open_file_info =
  of_path :: string
  of_file_size :: "u64 option"

record list_state = world +
  fl_expanded_files :: "open_file_info list"
  fl_file_deletes :: "scan_delete_file list list"
  fl_remaining_tokens :: "string list"
  fl_all_files_expanded :: bool

definition make_open_file_info :: "scan_data_file \<Rightarrow> open_file_info" where
  "make_open_file_info df =
     \<lparr>of_path = df_file_path df,
      of_file_size = (if 0 < sint (df_file_size df) then Some (df_file_size df) else None)\<rparr>"

definition bad_reference :: "file_scan_task \<Rightarrow> u64 \<Rightarrow> nat \<Rightarrow> uc_exn" where
  "bad_reference task r n = IOException (''scan-plan: file-scan-task for ''
     @ in_quotes (df_file_path (task_data_file task)) @ '' references delete-file index '' @ show_nat (unat r)
     @ '', but the response only carries '' @ show_nat n
     @ '' delete file(s)'' @ em_dash @ ''server response is malformed'')"

definition resolve_reference ::
  "file_scan_task \<Rightarrow> scan_delete_file list \<Rightarrow> u64 \<Rightarrow> scan_delete_file res" where
  "resolve_reference task all_delete_files r =
     (if length all_delete_files \<le> unat r then Inl (bad_reference task r (length all_delete_files))
      else Inr (all_delete_files ! unat r))"

definition add_file_scan_task ::
  "file_scan_task \<Rightarrow> scan_delete_file list \<Rightarrow> (list_state, unit) io" where
  "add_file_scan_task task all_delete_files =
     bind (modify (\<lambda>s. s\<lparr>fl_expanded_files := fl_expanded_files s
                          @ [make_open_file_info (task_data_file task)]\<rparr>)) (\<lambda>_.
     bind (lift_res (map_res (resolve_reference task all_delete_files) (task_delete_refs task))) (\<lambda>resolved.
     modify (\<lambda>s. s\<lparr>fl_file_deletes := fl_file_deletes s @ [resolved]\<rparr>)))"

fun add_file_scan_tasks :: "file_scan_task list \<Rightarrow> scan_delete_file list \<Rightarrow> (list_state, unit) io" where
  "add_file_scan_tasks [] dels = ret ()"
| "add_file_scan_tasks (task # tasks) dels =
     bind (add_file_scan_task task dels) (\<lambda>_. add_file_scan_tasks tasks dels)"

text \<open>The constructor, on a list that is still empty.\<close>

definition new_file_list :: "scan_plan_result \<Rightarrow> (list_state, unit) io" where
  "new_file_list plan =
     bind (modify (\<lambda>s. s\<lparr>fl_expanded_files := [], fl_file_deletes := [], fl_remaining_tokens := [],
                         fl_all_files_expanded := False\<rparr>)) (\<lambda>_.
     bind (add_file_scan_tasks (pl_file_scan_tasks plan) (pl_delete_files plan)) (\<lambda>_.
     modify (\<lambda>s. s\<lparr>fl_remaining_tokens := pl_plan_tasks plan,
                   fl_all_files_expanded := (pl_plan_tasks plan = [])\<rparr>)))"

text \<open>One round of the loop of \<open>ExpandNextPath\<close>: it continues (None) or the function returns.\<close>

definition expand_round :: "env \<Rightarrow> plan_ref \<Rightarrow> string \<Rightarrow> (list_state, bool option) io" where
  "expand_round env p tok =
     bind (modify (\<lambda>s. s\<lparr>fl_remaining_tokens := tl (fl_remaining_tokens s)\<rparr>)) (\<lambda>_.
     bind (fetch_scan_tasks env p tok) (\<lambda>result.
     bind (modify (\<lambda>s. s\<lparr>fl_remaining_tokens := fl_remaining_tokens s @ pl_plan_tasks result\<rparr>)) (\<lambda>_.
     if pl_file_scan_tasks result = [] then ret None
     else bind (add_file_scan_tasks (pl_file_scan_tasks result) (pl_delete_files result)) (\<lambda>_.
          ret (Some True)))))"

partial_function (option) expand_next_path ::
  "env \<Rightarrow> plan_ref \<Rightarrow> list_state \<Rightarrow> (bool res \<times> list_state) option" where
  "expand_next_path env p s =
     (case fl_remaining_tokens s of
        [] \<Rightarrow> Some (Inr False, s)
      | tok # _ \<Rightarrow>
          (case expand_round env p tok s of
             (Inl e, s') \<Rightarrow> Some (Inl e, s')
           | (Inr (Some b), s') \<Rightarrow> Some (Inr b, s')
           | (Inr None, s') \<Rightarrow> expand_next_path env p s'))"

definition get_delete_files_for_file :: "list_state \<Rightarrow> nat \<Rightarrow> scan_delete_file list" where
  "get_delete_files_for_file s file_idx = fl_file_deletes s ! file_idx"

definition get_data_file_path :: "list_state \<Rightarrow> nat \<Rightarrow> string" where
  "get_data_file_path s file_idx = of_path (fl_expanded_files s ! file_idx)"

text \<open>\<open>FinalizeBind\<close> of one file's reader: the deletion filter it gets.\<close>

definition finalize_bind :: "env \<Rightarrow> roaring_ops \<Rightarrow> nat \<Rightarrow> (list_state, i64 set option) io" where
  "finalize_bind env rb file_idx =
     bind (get_state (\<lambda>s. get_delete_files_for_file s file_idx)) (\<lambda>deletes.
     if deletes = [] then ret None
     else bind (get_state (\<lambda>s. get_data_file_path s file_idx)) (\<lambda>path.
          build_uc_delete_filter env rb path deletes))"

section \<open>Adding tasks\<close>

text \<open>
  \<open>resolved task dels\<close>: the delete files a task names, out of those of the response it came with.
\<close>

definition resolvable :: "scan_delete_file list \<Rightarrow> file_scan_task \<Rightarrow> bool" where
  "resolvable dels task \<longleftrightarrow> (\<forall>r \<in> set (task_delete_refs task). unat r < length dels)"

definition resolved :: "scan_delete_file list \<Rightarrow> file_scan_task \<Rightarrow> scan_delete_file list" where
  "resolved dels task = map (\<lambda>r. dels ! unat r) (task_delete_refs task)"

definition aligned :: "list_state \<Rightarrow> bool" where
  "aligned s \<longleftrightarrow> length (fl_file_deletes s) = length (fl_expanded_files s)"

text \<open>\<open>added s t tasks dels\<close>: \<open>t\<close> has the files of the tasks added to those of \<open>s\<close>, with their deletes.\<close>

definition added :: "list_state \<Rightarrow> list_state \<Rightarrow> file_scan_task list \<Rightarrow> scan_delete_file list \<Rightarrow> bool" where
  "added s t tasks dels \<longleftrightarrow> list_all (resolvable dels) tasks \<and>
     fl_expanded_files t = fl_expanded_files s @ map (\<lambda>k. make_open_file_info (task_data_file k)) tasks \<and>
     fl_file_deletes t = fl_file_deletes s @ map (resolved dels) tasks"

lemma added_aligned: "added s t tasks dels \<Longrightarrow> aligned s \<Longrightarrow> aligned t"
  by (simp add: added_def aligned_def)

lemma resolve_references:
  "map_res (resolve_reference task dels) rs = Inr ds \<longleftrightarrow>
     (\<forall>r \<in> set rs. unat r < length dels) \<and> ds = map (\<lambda>r. dels ! unat r) rs"
  by (induction rs arbitrary: ds)
     (auto simp: bind_res_eq_Inr resolve_reference_def not_le split: if_splits)

lemma add_file_scan_task_added:
  assumes "add_file_scan_task task dels s = (Inr u, t)"
  shows "added s t [task] dels \<and> fl_remaining_tokens t = fl_remaining_tokens s \<and> hist t = hist s"
  using assms
  by (auto simp: add_file_scan_task_def bind_eq_Inr resolve_references added_def resolvable_def resolved_def)

lemma add_file_scan_tasks_added:
  "add_file_scan_tasks tasks dels s = (Inr u, t) \<Longrightarrow>
     added s t tasks dels \<and> fl_remaining_tokens t = fl_remaining_tokens s \<and> hist t = hist s"
proof (induction tasks arbitrary: s)
  case (Cons task tasks)
  then obtain v s1 where one: "add_file_scan_task task dels s = (Inr v, s1)"
    and rest: "add_file_scan_tasks tasks dels s1 = (Inr u, t)"
    by (auto simp: bind_eq_Inr)
  from add_file_scan_task_added[OF one] Cons.IH[OF rest] show ?case by (auto simp: added_def)
qed (simp add: added_def)

lemma add_file_scan_tasks_total:
  "list_all (resolvable dels) tasks \<Longrightarrow> \<exists>t. add_file_scan_tasks tasks dels s = (Inr (), t)"
proof (induction tasks arbitrary: s)
  case (Cons task tasks)
  let ?rs = "map (\<lambda>r. dels ! unat r) (task_delete_refs task)"
  have "map_res (resolve_reference task dels) (task_delete_refs task) = Inr ?rs"
    using Cons.prems by (simp add: resolve_references resolvable_def)
  then have "\<exists>s1. add_file_scan_task task dels s = (Inr (), s1)"
    by (simp add: add_file_scan_task_def bind_run)
  then show ?case using Cons by (auto simp: bind_run)
qed simp

lemma new_file_list_added:
  assumes "new_file_list plan s = (Inr u, t)"
  shows "list_all (resolvable (pl_delete_files plan)) (pl_file_scan_tasks plan) \<and>
    fl_expanded_files t = map (\<lambda>k. make_open_file_info (task_data_file k)) (pl_file_scan_tasks plan) \<and>
    fl_file_deletes t = map (resolved (pl_delete_files plan)) (pl_file_scan_tasks plan) \<and>
    fl_remaining_tokens t = pl_plan_tasks plan"
  using assms add_file_scan_tasks_added
  by (fastforce simp: new_file_list_def bind_eq_Inr added_def)

lemma new_file_list_total:
  assumes "list_all (resolvable (pl_delete_files plan)) (pl_file_scan_tasks plan)"
  shows "\<exists>t. new_file_list plan s = (Inr (), t)"
proof -
  let ?s = "s\<lparr>fl_expanded_files := [], fl_file_deletes := [], fl_remaining_tokens := [],
              fl_all_files_expanded := False\<rparr>"
  obtain t where "add_file_scan_tasks (pl_file_scan_tasks plan) (pl_delete_files plan) ?s = (Inr (), t)"
    using add_file_scan_tasks_total[OF assms] by blast
  then show ?thesis by (simp add: new_file_list_def bind_run)
qed

section \<open>Expanding the list\<close>

lemma keeps_fetch_scan_tasks: "keeps wrote (fetch_scan_tasks env p tok)"
  unfolding fetch_scan_tasks_def make_request_def make_request_resp_def ensure_httpfs_extension_def
  by (auto intro!: wr.keeps_bind wr.keeps_pure call_keeps split: option.split)

lemma fetch_keeps_list:
  assumes "fetch_scan_tasks env p tok s = (r, t)"
  shows "fl_expanded_files t = fl_expanded_files s" "fl_file_deletes t = fl_file_deletes s"
    "fl_remaining_tokens t = fl_remaining_tokens s"
proof -
  have "t = s\<lparr>hist := hist t\<rparr>"
    using wr.keepsD[OF keeps_fetch_scan_tasks assms] by (simp add: wrote_def)
  then show "fl_expanded_files t = fl_expanded_files s" "fl_file_deletes t = fl_file_deletes s"
    "fl_remaining_tokens t = fl_remaining_tokens s"
    by (metis list_state.select_convs world.update_convs(1) list_state.surjective)+
qed

lemma expand_round_result:
  assumes "expand_round env p tok s = (Inr b, t)"
  obtains s1 s2 :: list_state and result where "fetch_scan_tasks env p tok s1 = (Inr result, s2)"
    and "fl_remaining_tokens t = tl (fl_remaining_tokens s) @ pl_plan_tasks result"
    and "b = None \<and> fl_expanded_files t = fl_expanded_files s \<and> fl_file_deletes t = fl_file_deletes s \<or>
         b = Some True \<and> pl_file_scan_tasks result \<noteq> [] \<and>
           added s t (pl_file_scan_tasks result) (pl_delete_files result)"
proof -
  let ?s1 = "s\<lparr>fl_remaining_tokens := tl (fl_remaining_tokens s)\<rparr>"
  obtain result s2 where f: "fetch_scan_tasks env p tok ?s1 = (Inr result, s2)"
    using assms by (auto simp: expand_round_def bind_eq_Inr)
  let ?s3 = "s2\<lparr>fl_remaining_tokens := fl_remaining_tokens s2 @ pl_plan_tasks result\<rparr>"
  show thesis
  proof (cases "pl_file_scan_tasks result = []")
    case True
    then have "b = None" "t = ?s3" using assms f by (auto simp: expand_round_def bind_run)
    then show ?thesis using that[OF f] fetch_keeps_list[OF f] by simp
  next
    case False
    then obtain u where "b = Some True"
      "add_file_scan_tasks (pl_file_scan_tasks result) (pl_delete_files result) ?s3 = (Inr u, t)"
      using assms f by (auto simp: expand_round_def bind_run split: sum.splits prod.splits)
    then show ?thesis using that[OF f] fetch_keeps_list[OF f] add_file_scan_tasks_added False
      by (fastforce simp: added_def)
  qed
qed

text \<open>
  \<open>expanded env p s y\<close>: what a call of \<open>ExpandNextPath\<close> may return from \<open>s\<close>. True means that the tasks of
  one response, at least one, were added with the delete files of that response.
\<close>

definition expanded :: "env \<Rightarrow> plan_ref \<Rightarrow> list_state \<Rightarrow> bool res \<times> list_state \<Rightarrow> bool" where
  "expanded env p s y \<longleftrightarrow>
     (case y of
        (Inl e, t) \<Rightarrow> True
      | (Inr True, t) \<Rightarrow> (\<exists>tok (s1 :: list_state) s2 result. fetch_scan_tasks env p tok s1 = (Inr result, s2) \<and>
          pl_file_scan_tasks result \<noteq> [] \<and>
          added s t (pl_file_scan_tasks result) (pl_delete_files result))
      | (Inr False, t) \<Rightarrow> fl_remaining_tokens t = [] \<and>
          fl_expanded_files t = fl_expanded_files s \<and> fl_file_deletes t = fl_file_deletes s)"

lemma expanded_same_files:
  "expanded env p s1 y \<Longrightarrow> fl_expanded_files s1 = fl_expanded_files s \<Longrightarrow>
     fl_file_deletes s1 = fl_file_deletes s \<Longrightarrow> expanded env p s y"
  by (auto simp: expanded_def added_def split: prod.splits sum.splits bool.splits)

lemma expand_next_path_result:
  assumes "expand_next_path env p s = Some y"
  shows "expanded env p s y"
proof (rule expand_next_path.raw_induct[OF _ assms, of expanded])
  fix rec :: "env \<Rightarrow> plan_ref \<Rightarrow> list_state \<Rightarrow> (bool res \<times> list_state) option" and env p s y
  assume IH: "\<And>env p s y. rec env p s = Some y \<Longrightarrow> expanded env p s y"
    and step: "(case fl_remaining_tokens s of [] \<Rightarrow> Some (Inr False, s)
      | tok # xs \<Rightarrow> (case expand_round env p tok s of
             (Inl e, s') \<Rightarrow> Some (Inl e, s')
           | (Inr None, s') \<Rightarrow> rec env p s'
           | (Inr (Some b), s') \<Rightarrow> Some (Inr b, s'))) = Some y"
  show "expanded env p s y"
  proof (cases "fl_remaining_tokens s")
    case Nil
    then show ?thesis using step by (auto simp: expanded_def)
  next
    case (Cons tok xs)
    obtain r t where rd: "expand_round env p tok s = (r, t)" by (cases "expand_round env p tok s")
    show ?thesis
    proof (cases r)
      case (Inl e)
      then show ?thesis using step Cons rd by (auto simp: expanded_def)
    next
      case (Inr b)
      from rd Inr have "expand_round env p tok s = (Inr b, t)" by simp
      then obtain s1 s2 :: list_state and result where f: "fetch_scan_tasks env p tok s1 = (Inr result, s2)"
        and b: "b = None \<and> fl_expanded_files t = fl_expanded_files s \<and> fl_file_deletes t = fl_file_deletes s \<or>
         b = Some True \<and> pl_file_scan_tasks result \<noteq> [] \<and>
           added s t (pl_file_scan_tasks result) (pl_delete_files result)"
        by (rule expand_round_result) blast
      from b show ?thesis
      proof
        assume "b = None \<and> fl_expanded_files t = fl_expanded_files s \<and> fl_file_deletes t = fl_file_deletes s"
        then show ?thesis using step Cons rd Inr IH[of env p t y] expanded_same_files[of env p t y s] by simp
      next
        assume "b = Some True \<and> pl_file_scan_tasks result \<noteq> [] \<and>
           added s t (pl_file_scan_tasks result) (pl_delete_files result)"
        moreover from this have "y = (Inr True, t)" using step Cons rd Inr by simp
        ultimately show ?thesis using f unfolding expanded_def by (simp, blast)
      qed
    qed
  qed
qed

section \<open>When it returns\<close>

lemma expand_round_tokens:
  assumes "expand_round env p tok s = (Inr None, t)" and "fl_remaining_tokens s = tok # rest"
    and rank: "\<And>tok (s :: list_state) result s2. fetch_scan_tasks env p tok s = (Inr result, s2) \<Longrightarrow>
      list_all (\<lambda>new. rank new < (rank tok :: nat)) (pl_plan_tasks result)"
  shows "(image_mset rank (mset (fl_remaining_tokens t)), image_mset rank (mset (fl_remaining_tokens s)))
    \<in> mult less_than"
proof -
  obtain s1 s2 :: list_state and result where f: "fetch_scan_tasks env p tok s1 = (Inr result, s2)"
    and t: "fl_remaining_tokens t = tl (fl_remaining_tokens s) @ pl_plan_tasks result"
    using assms(1) by (rule expand_round_result) blast
  let ?I = "image_mset rank (mset rest)" and ?K = "image_mset rank (mset (pl_plan_tasks result))"
  have "(?I + ?K, ?I + {#rank tok#}) \<in> mult less_than"
    using rank[OF f] by (intro one_step_implies_mult) (auto simp: list_all_iff)
  then show ?thesis using assms(2) t by simp
qed

lemma expand_terminates:
  assumes rank: "\<And>tok (s :: list_state) result s2. fetch_scan_tasks env p tok s = (Inr result, s2) \<Longrightarrow>
      list_all (\<lambda>new. rank new < (rank tok :: nat)) (pl_plan_tasks result)"
  shows "\<exists>y. expand_next_path env p s = Some y"
proof (induction "image_mset rank (mset (fl_remaining_tokens s))" arbitrary: s
    rule: wf_induct_rule[OF wf_mult[OF wf_less_than]])
  case 1
  show ?case
  proof (cases "fl_remaining_tokens s")
    case Nil
    then show ?thesis by (subst expand_next_path.simps) simp
  next
    case (Cons tok rest)
    obtain r t where rd: "expand_round env p tok s = (r, t)" by (cases "expand_round env p tok s")
    show ?thesis
    proof (cases "r = Inr None")
      case True
      have "\<exists>y. expand_next_path env p t = Some y"
        by (rule 1) (use expand_round_tokens[OF _ Cons rank] rd True in auto)
      then show ?thesis using Cons rd True by (subst expand_next_path.simps) simp
    next
      case False
      then show ?thesis using Cons rd
        by (subst expand_next_path.simps) (auto split: sum.splits option.splits)
    qed
  qed
qed

section \<open>Properties\<close>

text \<open>
  The list is built from a plan exactly when every delete reference of every task is inside the
  plan's delete files; then it holds the tasks' files in order, each with the delete files it names.
\<close>

theorem file_list_of_plan:
  "(\<exists>t. new_file_list plan s = (Inr (), t)) =
     list_all (resolvable (pl_delete_files plan)) (pl_file_scan_tasks plan) \<and>
   (case new_file_list plan s of
      (Inl e, t) \<Rightarrow> True
    | (Inr u, t) \<Rightarrow>
        map of_path (fl_expanded_files t)
          = map (\<lambda>k. df_file_path (task_data_file k)) (pl_file_scan_tasks plan) \<and>
        fl_file_deletes t = map (resolved (pl_delete_files plan)) (pl_file_scan_tasks plan) \<and>
        fl_remaining_tokens t = pl_plan_tasks plan)"
proof (rule conjI)
  show "(\<exists>t. new_file_list plan s = (Inr (), t)) =
     list_all (resolvable (pl_delete_files plan)) (pl_file_scan_tasks plan)"
  proof
    assume "\<exists>t. new_file_list plan s = (Inr (), t)"
    then show "list_all (resolvable (pl_delete_files plan)) (pl_file_scan_tasks plan)"
      using new_file_list_added by blast
  next
    assume "list_all (resolvable (pl_delete_files plan)) (pl_file_scan_tasks plan)"
    then show "\<exists>t. new_file_list plan s = (Inr (), t)" by (rule new_file_list_total)
  qed
  show "case new_file_list plan s of (Inl e, t) \<Rightarrow> True | (Inr u, t) \<Rightarrow>
        map of_path (fl_expanded_files t)
          = map (\<lambda>k. df_file_path (task_data_file k)) (pl_file_scan_tasks plan) \<and>
        fl_file_deletes t = map (resolved (pl_delete_files plan)) (pl_file_scan_tasks plan) \<and>
        fl_remaining_tokens t = pl_plan_tasks plan"
    using new_file_list_added[of plan s]
    by (auto simp: make_open_file_info_def split: prod.split sum.split)
qed

text \<open>
  A call of \<open>ExpandNextPath\<close> that returns true has added the files of one response, at least one, each
  with the delete files of that same response; one that returns false leaves no token unread and the
  files unchanged. Either way every file keeps exactly one list of delete files.
\<close>

theorem expansion_keeps_deletes_with_files:
  assumes "expand_next_path env p s = Some (Inr b, t)" and "aligned s"
  shows "aligned t \<and> expanded env p s (Inr b, t)"
proof -
  have e: "expanded env p s (Inr b, t)" by (rule expand_next_path_result[OF assms(1)])
  have "aligned t"
  proof (cases b)
    case True
    then obtain tasks dels where "added s t tasks dels" using e by (auto simp: expanded_def)
    then show ?thesis using assms(2) by (rule added_aligned)
  next
    case False
    then show ?thesis using e assms(2) by (simp add: expanded_def aligned_def)
  qed
  then show ?thesis using e by simp
qed

definition list_witness :: list_state where
  "list_witness = \<lparr>hist = [], fl_expanded_files = [], fl_file_deletes = [], fl_remaining_tokens = [],
     fl_all_files_expanded = True\<rparr>"

lemma expansion_keeps_deletes_with_files_witness:
  "aligned list_witness \<and> expanded env_witness plan_ref_witness list_witness (Inr False, list_witness)"
proof -
  have "expand_next_path env_witness plan_ref_witness list_witness = Some (Inr False, list_witness)"
    by (subst expand_next_path.simps) (simp add: list_witness_def)
  moreover have "aligned list_witness" by (simp add: aligned_def list_witness_def)
  ultimately show ?thesis by (rule expansion_keeps_deletes_with_files)
qed

text \<open>
  C35: The expansion returns if the server's tokens are well-founded: if a fetched token only ever hands
  out tokens of a smaller rank, every call of \<open>ExpandNextPath\<close> ends, whatever the answers.
\<close>

theorem expansion_returns:
  assumes "\<And>tok (s :: list_state) result s2. fetch_scan_tasks env p tok s = (Inr result, s2) \<Longrightarrow>
      list_all (\<lambda>new. rank new < (rank tok :: nat)) (pl_plan_tasks result)"
  shows "\<exists>y. expand_next_path env p s = Some y"
  using assms by (rule expand_terminates)

lemma expansion_returns_witness:
  "\<exists>y. expand_next_path env_witness plan_ref_witness (list_witness\<lparr>fl_remaining_tokens := [''a'', ''b'']\<rparr>) = Some y"
proof (rule expansion_returns[where rank = "\<lambda>_. 0"])
  fix tok and s :: list_state and result s2
  assume "fetch_scan_tasks env_witness plan_ref_witness tok s = (Inr result, s2)"
  then show "list_all (\<lambda>new. 0 < (0 :: nat)) (pl_plan_tasks result)"
    by (auto simp: fetch_scan_tasks_def make_request_def make_request_resp_def ensure_httpfs_extension_def
        bind_run env_witness_def parse_scan_tasks_payload_def empty_plan_def bind_res_eq_Inr str_items_def)
qed

end
