(* ===== verification/UC_Wire.thy ===== *)
theory UC_Wire
  imports UC_Http
begin

text \<open>
  \<open>UCAPI::WireSchema\<close> (\<open>src/uc_api.cpp\<close>): the Delta schema of a table rewritten for a create-table
  request, which spells multi-word keys with dashes.

  \<open>put\<close> stands for \<open>yyjson_mut_obj_put\<close>; \<open>object_put\<close> states what yyjson documents of it. The lemmas
  follow the copy through the members of an object; the properties say that no camelCase key is left
  and that nothing else changes.
\<close>

section \<open>The copy\<close>

type_synonym members = "(string \<times> json) list"
type_synonym put_fun = "members \<Rightarrow> string \<Rightarrow> json \<Rightarrow> members"

definition renamed :: "(string \<times> string) list" where
  "renamed = [(''elementType'', ''element-type''), (''containsNull'', ''contains-null''),
     (''keyType'', ''key-type''), (''valueType'', ''value-type''),
     (''valueContainsNull'', ''value-contains-null'')]"

definition wire_schema_key :: "string \<Rightarrow> string" where
  "wire_schema_key key = (case map_of renamed key of None \<Rightarrow> key | Some wire \<Rightarrow> wire)"

fun wire_schema_copy :: "put_fun \<Rightarrow> json \<Rightarrow> json"
  and copy_members :: "put_fun \<Rightarrow> members \<Rightarrow> members \<Rightarrow> members"
  and copy_items :: "put_fun \<Rightarrow> json list \<Rightarrow> json list" where
  "wire_schema_copy put (JObj kvs) = JObj (copy_members put [] kvs)"
| "wire_schema_copy put (JArr xs) = JArr (copy_items put xs)"
| "wire_schema_copy put v = v"
| "copy_members put out [] = out"
| "copy_members put out ((key, child) # kvs) =
     copy_members put (put out (wire_schema_key (cstr key)) (wire_schema_copy put child)) kvs"
| "copy_items put [] = []"
| "copy_items put (x # xs) = wire_schema_copy put x # copy_items put xs"

definition wire_schema :: "env \<Rightarrow> put_fun \<Rightarrow> string \<Rightarrow> string res" where
  "wire_schema env put schema_json =
     (case e_read env schema_json of
        None \<Rightarrow> Inl (InvalidInputException ''could not parse the table schema written to the Delta log'')
      | Some root \<Rightarrow>
          if \<not> e_new_doc env then Inl (InvalidInputException ''yyjson document allocation failed'')
          else (case e_write env (wire_schema_copy put root) of
             None \<Rightarrow> Inl (InvalidInputException ''yyjson schema encoding failed'')
           | Some written \<Rightarrow> Inr written))"

text \<open>
  \<open>yyjson_mut_obj_put\<close> appends a member whose key is new, and otherwise replaces the members of
  that key; it never changes the others.
\<close>

definition object_put :: "put_fun \<Rightarrow> bool" where
  "object_put put \<longleftrightarrow>
     (\<forall>kvs k v. (k \<notin> fst ` set kvs \<longrightarrow> put kvs k v = kvs @ [(k, v)]) \<and>
                set (put kvs k v) \<subseteq> insert (k, v) (set kvs))"

section \<open>Keys\<close>

lemma wire_keys: "wire_schema_key k \<in> {k, ''element-type'', ''contains-null'', ''key-type'', ''value-type'',
    ''value-contains-null''}"
  by (simp add: wire_schema_key_def renamed_def)

lemma wire_key_not_camel: "wire_schema_key k \<notin> fst ` set renamed"
  by (simp add: wire_schema_key_def renamed_def)

lemma wire_schema_key_idem [simp]: "wire_schema_key (wire_schema_key k) = wire_schema_key k"
  using wire_key_not_camel[of k] unfolding wire_schema_key_def[of "wire_schema_key k"]
  by (simp add: map_of_eq_None_iff[THEN iffD2])

text \<open>\<open>delta_key\<close> is the Delta spelling of a wire key.\<close>

definition delta_key :: "string \<Rightarrow> string" where
  "delta_key key = (case map_of (map prod.swap renamed) key of None \<Rightarrow> key | Some k \<Rightarrow> k)"

lemma delta_key_wire: "k \<notin> snd ` set renamed \<Longrightarrow> delta_key (wire_schema_key k) = k"
  by (auto simp: delta_key_def wire_schema_key_def renamed_def)

text \<open>\<open>keys_all P v\<close>: every member name of \<open>v\<close>, at any depth, satisfies \<open>P\<close>.\<close>

fun keys_all :: "(string \<Rightarrow> bool) \<Rightarrow> json \<Rightarrow> bool" where
  "keys_all P (JObj kvs) = list_all (\<lambda>(k, v). P k \<and> keys_all P v) kvs"
| "keys_all P (JArr xs) = list_all (keys_all P) xs"
| "keys_all P v = True"

lemma keys_all_mono: "keys_all P v \<Longrightarrow> (\<And>k. P k \<Longrightarrow> Q k) \<Longrightarrow> keys_all Q v"
  by (induction P v rule: keys_all.induct) (auto simp: list_all_iff)

lemma put_list_all:
  assumes "object_put put" and "list_all Q out" and "Q (k, v)"
  shows "list_all Q (put out k v)"
proof -
  have "set (put out k v) \<subseteq> insert (k, v) (set out)" using assms(1) by (simp add: object_put_def)
  then show ?thesis using assms(2,3) unfolding list_all_iff by blast
qed

lemma copy_keys:
  assumes "object_put put" and P: "\<And>k. P (wire_schema_key k)"
  shows "keys_all P (wire_schema_copy put v)"
    and "list_all (\<lambda>(k, v). P k \<and> keys_all P v) out \<Longrightarrow>
      list_all (\<lambda>(k, v). P k \<and> keys_all P v) (copy_members put out kvs)"
    and "list_all (keys_all P) (copy_items put xs)"
  using assms(1)
  by (induction put v and put out kvs and put xs rule: wire_schema_copy_copy_members_copy_items.induct)
     (simp_all add: put_list_all P)

section \<open>Structure\<close>

fun rename :: "(string \<Rightarrow> string) \<Rightarrow> json \<Rightarrow> json" where
  "rename f (JObj kvs) = JObj (map (\<lambda>(k, v). (f k, rename f v)) kvs)"
| "rename f (JArr xs) = JArr (map (rename f) xs)"
| "rename f v = v"

text \<open>
  \<open>no_clash v\<close>: in no object of \<open>v\<close> do two member names have one wire name. This holds of every object
  whose names are distinct and not wire names themselves.
\<close>

fun no_clash :: "json \<Rightarrow> bool" where
  "no_clash (JObj kvs) = (distinct (map (\<lambda>(k, v). wire_schema_key (cstr k)) kvs)
     \<and> list_all (\<lambda>(k, v). no_clash v) kvs)"
| "no_clash (JArr xs) = list_all no_clash xs"
| "no_clash v = True"

lemma put_new: "object_put put \<Longrightarrow> k \<notin> fst ` set out \<Longrightarrow> put out k v = out @ [(k, v)]"
  by (simp add: object_put_def)

lemma copy_rename:
  assumes "object_put put"
  shows "no_clash v \<Longrightarrow> wire_schema_copy put v = rename (wire_schema_key \<circ> cstr) v"
    and "distinct (map fst out @ map (\<lambda>(k, v). wire_schema_key (cstr k)) kvs) \<Longrightarrow>
      list_all (\<lambda>(k, v). no_clash v) kvs \<Longrightarrow>
      copy_members put out kvs = out @ map (\<lambda>(k, v). (wire_schema_key (cstr k), rename (wire_schema_key \<circ> cstr) v)) kvs"
    and "list_all no_clash xs \<Longrightarrow> copy_items put xs = map (rename (wire_schema_key \<circ> cstr)) xs"
  using assms
proof (induction put v and put out kvs and put xs rule: wire_schema_copy_copy_members_copy_items.induct)
  case (5 put out key child kvs)
  have "wire_schema_key (cstr key) \<notin> fst ` set out" using 5(3) by auto
  then show ?case using 5 by (simp add: put_new)
qed simp_all

lemma rename_rename: "rename f (rename g v) = rename (f \<circ> g) v"
  by (induction g v rule: rename.induct) (auto simp: comp_def)

lemma rename_same: "keys_all (\<lambda>k. f k = k) v \<Longrightarrow> rename f v = v"
  by (induction f v rule: rename.induct) (auto simp: list_all_iff intro!: map_idI)

section \<open>Properties\<close>

text \<open>
  The schema sent to the server has none of the camelCase names left, at any depth, whatever the
  schema in the log is.
\<close>

theorem wire_schema_keys:
  assumes "object_put put"
  shows "keys_all (\<lambda>k. k \<notin> {''elementType'', ''containsNull'', ''keyType'', ''valueType'', ''valueContainsNull''})
    (wire_schema_copy put v)"
  by (rule copy_keys(1)[OF assms]) (simp add: wire_schema_key_def renamed_def)

definition put_witness :: put_fun where
  "put_witness kvs k v = (if k \<in> fst ` set kvs then map (\<lambda>(k', v'). (k', if k' = k then v else v')) kvs
     else kvs @ [(k, v)])"

lemma object_put_witness: "object_put put_witness"
  by (auto simp: object_put_def put_witness_def split: if_splits)

lemma wire_schema_keys_witness:
  "keys_all (\<lambda>k. k \<notin> {''elementType'', ''containsNull'', ''keyType'', ''valueType'', ''valueContainsNull''})
    (wire_schema_copy put_witness (JObj [(''type'', JStr ''array''), (''elementType'', JStr ''long'')])) \<and>
   wire_schema_copy put_witness (JObj [(''type'', JStr ''array''), (''elementType'', JStr ''long'')])
    = JObj [(''type'', JStr ''array''), (''element-type'', JStr ''long'')]"
  using wire_schema_keys[OF object_put_witness]
  by (simp add: put_witness_def wire_schema_key_def renamed_def cstr_def)



end
