(* ===== verification/UC_Rest.thy ===== *)
theory UC_Rest
  imports UC_Wire UC_Scan_Plan
begin

text \<open>
  The Unity Catalog calls of \<open>src/uc_api.cpp\<close>: the listings (\<open>GetSchemas\<close>, \<open>GetTables\<close>), the
  credentials, staging and registering a table, loading a table's commits and committing one.

  Every call makes one request, reads the body as JSON, and throws the error the body reports. The
  properties say which request each call makes, that an error body never passes for a result, that a
  taken table name always becomes the one catalog exception its callers act on, and that the version
  a load reports covers every commit it lists.
\<close>

section \<open>Data\<close>

record api_table =
  tb_table_id :: string
  tb_name :: string
  tb_catalog_name :: string
  tb_schema_name :: string
  tb_table_type :: string
  tb_data_source_format :: string
  tb_storage_location :: string
  tb_columns :: "column_definition list"
  tb_properties :: "string \<rightharpoonup> string"

record api_schema =
  sc_schema_name :: string
  sc_catalog_name :: string

record table_credentials =
  key_id :: string
  secret :: string
  session_token :: string

record api_commit =
  cm_version :: u64
  cm_timestamp :: i64
  cm_file_name :: string
  cm_file_size :: i64
  cm_file_modification_timestamp :: i64

record commits_result =
  cr_commits :: "api_commit list"
  cr_table_uuid :: string
  cr_location :: string
  cr_ratified_version :: u64
  cr_etag :: string

record staging_table =
  sg_table_id :: string
  sg_location :: string
  sg_min_reader_version :: i64
  sg_min_writer_version :: i64
  sg_reader_features :: "string list"
  sg_writer_features :: "string list"
  sg_required_properties :: "(string \<times> string) list"
  sg_suggested_properties :: "(string \<times> string) list"

record committed_table =
  ct_name :: string
  ct_location :: string
  ct_schema_json :: string
  ct_partition_columns :: "string list"
  ct_min_reader_version :: i64
  ct_min_writer_version :: i64
  ct_reader_features :: "string list"
  ct_writer_features :: "string list"
  ct_properties :: "(string \<times> string) list"
  ct_last_commit_timestamp_ms :: i64

definition empty_credentials :: table_credentials where
  "empty_credentials = \<lparr>key_id = [], secret = [], session_token = []\<rparr>"

section \<open>Requests and their errors\<close>

text \<open>A table name in an error message, and the URL of a table under the Delta API.\<close>

definition dotted :: "string \<Rightarrow> string \<Rightarrow> string \<Rightarrow> string" where
  "dotted c s t = c @ ''.'' @ s @ ''.'' @ t"

definition delta_schema_url :: "credentials \<Rightarrow> string \<Rightarrow> string \<Rightarrow> string" where
  "delta_schema_url creds c s =
     endpoint creds @ ''/api/2.1/unity-catalog/delta/v1/catalogs/'' @ c @ ''/schemas/'' @ s"

definition delta_table_url :: "credentials \<Rightarrow> string \<Rightarrow> string \<Rightarrow> string \<Rightarrow> string" where
  "delta_table_url creds c s t = delta_schema_url creds c s @ ''/tables/'' @ t"

text \<open>The lines every call shares: request, parse, throw the error of the body.\<close>

definition request_json ::
  "env \<Rightarrow> string \<Rightarrow> string \<Rightarrow> string \<Rightarrow> string \<Rightarrow> ('x world_scheme, json option) io" where
  "request_json env url tok body failed =
     bind (make_request env url tok body) (\<lambda>api_result.
     bind (lift_res (throw_on_error (e_read env api_result) failed)) (\<lambda>_.
     ret (e_read env api_result)))"

definition entry_already_exists :: "string \<Rightarrow> uc_exn" where
  "entry_already_exists name =
     CatalogException ''ENTRY_ALREADY_EXISTS'' (''Table with name '' @ name @ '' already exists!'')"

text \<open>
  The lines \<open>CreateStagingTable\<close> and \<open>CreateTable\<close> share, which tolerate a 409 to read its body.
\<close>

definition conflict_check :: "json option \<Rightarrow> string \<Rightarrow> http_response \<Rightarrow> string \<Rightarrow> string \<Rightarrow> unit res" where
  "conflict_check root url response table failed =
     bind_res (check_error root) (\<lambda>error.
     if has_error error
     then if is_already_exists error then Inl (entry_already_exists table) else Inl (api_exn error failed)
     else if \<not> resp_success response then Inl (request_failed url response)
     else Inr ())"

definition request_or_conflict ::
  "env \<Rightarrow> string \<Rightarrow> string \<Rightarrow> string \<Rightarrow> string \<Rightarrow> string \<Rightarrow> ('x world_scheme, json option) io" where
  "request_or_conflict env url tok body table failed =
     bind (make_request_resp env url tok body False (Some 409)) (\<lambda>response.
     bind (lift_res (conflict_check (e_read env (resp_body response)) url response table failed)) (\<lambda>_.
     ret (e_read env (resp_body response))))"

section \<open>Settings and listings\<close>

definition api_get_default_schema :: "env \<Rightarrow> credentials \<Rightarrow> ('x world_scheme, string) io" where
  "api_get_default_schema env creds =
     bind (request_json env (endpoint creds @ ''/api/2.0/settings/types/default_namespace_ws/names/default'')
            (token creds) [] ''Failed to get default schema of the catalog'') (\<lambda>root.
     bind (lift_res (try_get_str root ''setting_name'' False)) (\<lambda>setting_name.
     if setting_name = []
     then throw (InvalidInputException
            ''Failed to get default schema of the catalog, API response is invalid!'')
     else ret setting_name))"

definition get_catalogs :: "('x world_scheme, string list) io" where
  "get_catalogs = throw (NotImplementedException ''UCAPI::GetCatalogs'')"

definition parse_column_definition :: "json \<Rightarrow> column_definition res" where
  "parse_column_definition column_def =
     (let d = Some column_def in
     bind_res (try_get_str d ''name'' True) (\<lambda>name.
     bind_res (try_get_str d ''type_text'' True) (\<lambda>text.
     bind_res (try_get_str d ''type_json'' False) (\<lambda>tjson.
     bind_res (try_get_num d ''type_precision'' False) (\<lambda>precision.
     bind_res (try_get_num d ''type_scale'' False) (\<lambda>scale.
     bind_res (try_get_num d ''position'' True) (\<lambda>position.
     Inr \<lparr>col_name = name, type_text = text, type_json = tjson, col_precision = precision,
          col_scale = scale, col_position = position,
          is_partition_column = (case obj_get d ''partition_index'' of
             None \<Rightarrow> False | Some v \<Rightarrow> is_num v)\<rparr>)))))))"

text \<open>The properties of a listed table: string members only, the last of a name wins.\<close>

definition property_map :: "json option \<Rightarrow> string \<rightharpoonup> string" where
  "property_map obj = map_of (rev (read_json_string_map obj))"

definition parse_table :: "string \<Rightarrow> string \<Rightarrow> json \<Rightarrow> api_table res" where
  "parse_table db_path schema table =
     (let t = Some table in
     bind_res (try_get_str t ''name'' True) (\<lambda>name.
     bind_res (try_get_str t ''table_type'' True) (\<lambda>type.
     bind_res (try_get_str t ''data_source_format'' False) (\<lambda>fmt.
     bind_res (try_get_str t ''storage_location'' False) (\<lambda>loc.
     bind_res (try_get_str t ''table_id'' True) (\<lambda>tid.
     bind_res (map_res parse_column_definition (arr_items (obj_get t ''columns''))) (\<lambda>cols.
     Inr \<lparr>tb_table_id = tid, tb_name = name, tb_catalog_name = db_path, tb_schema_name = schema,
          tb_table_type = type, tb_data_source_format = fmt, tb_storage_location = loc,
          tb_columns = cols, tb_properties = property_map (obj_get t ''properties'')\<rparr>)))))))"

definition get_tables ::
  "env \<Rightarrow> string \<Rightarrow> string \<Rightarrow> credentials \<Rightarrow> ('x world_scheme, api_table list) io" where
  "get_tables env db_path schema creds =
     bind (make_request env (endpoint creds @ ''/api/2.1/unity-catalog/tables?catalog_name='' @ db_path
            @ ''&schema_name='' @ schema) (token creds) []) (\<lambda>api_result.
     lift_res (map_res (parse_table db_path schema)
       (arr_items (obj_get (e_read env api_result) ''tables''))))"

text \<open>A name that is there but not a string makes a \<open>std::string\<close> of a null pointer.\<close>

definition parse_schema :: "string \<Rightarrow> json \<Rightarrow> api_schema res" where
  "parse_schema db_path schema =
     (case obj_get (Some schema) ''name'' of
        None \<Rightarrow> Inr \<lparr>sc_schema_name = [], sc_catalog_name = db_path\<rparr>
      | Some v \<Rightarrow> (case get_str (Some v) of
          None \<Rightarrow> Inl (StdException ''basic_string: construction from null is not valid'')
        | Some s \<Rightarrow> Inr \<lparr>sc_schema_name = cstr s, sc_catalog_name = db_path\<rparr>))"

definition get_schemas :: "env \<Rightarrow> string \<Rightarrow> credentials \<Rightarrow> ('x world_scheme, api_schema list) io" where
  "get_schemas env db_path creds =
     bind (make_request env (endpoint creds @ ''/api/2.1/unity-catalog/schemas?catalog_name='' @ db_path)
            (token creds) []) (\<lambda>api_result.
     lift_res (map_res (parse_schema db_path)
       (arr_items (obj_get (e_read env api_result) ''schemas''))))"

definition table_exists ::
  "env \<Rightarrow> string \<Rightarrow> string \<Rightarrow> string \<Rightarrow> credentials \<Rightarrow> ('x world_scheme, bool) io" where
  "table_exists env c s t creds =
     bind (make_request_resp env (endpoint creds @ ''/api/2.1/unity-catalog/tables/'' @ dotted c s t)
            (token creds) [] False (Some 404)) (\<lambda>response.
     ret (resp_status response \<noteq> 404))"

section \<open>Credentials\<close>

definition read_storage_credentials :: "json option \<Rightarrow> table_credentials res" where
  "read_storage_credentials root =
     (case arr_items (obj_get root ''storage-credentials'') of
        [] \<Rightarrow> Inr empty_credentials
      | first # _ \<Rightarrow>
          (case obj_get (Some first) ''config'' of
             Some (JObj cfg) \<Rightarrow>
               bind_res (try_get_str (Some (JObj cfg)) ''s3.access-key-id'' False) (\<lambda>k.
               bind_res (try_get_str (Some (JObj cfg)) ''s3.secret-access-key'' False) (\<lambda>sec.
               bind_res (try_get_str (Some (JObj cfg)) ''s3.session-token'' False) (\<lambda>tok.
               Inr \<lparr>key_id = k, secret = sec, session_token = tok\<rparr>)))
           | _ \<Rightarrow> Inr empty_credentials))"

definition read_aws_credentials :: "json option \<Rightarrow> table_credentials res" where
  "read_aws_credentials root =
     (case obj_get root ''aws_temp_credentials'' of
        Some (JObj aws) \<Rightarrow>
          bind_res (try_get_str (Some (JObj aws)) ''access_key_id'' False) (\<lambda>k.
          bind_res (try_get_str (Some (JObj aws)) ''secret_access_key'' False) (\<lambda>sec.
          bind_res (try_get_str (Some (JObj aws)) ''session_token'' False) (\<lambda>tok.
          Inr \<lparr>key_id = k, secret = sec, session_token = tok\<rparr>)))
      | _ \<Rightarrow> Inr empty_credentials)"

definition operation_name :: "bool \<Rightarrow> string" where
  "operation_name write = (if write then ''READ_WRITE'' else ''READ'')"

text \<open>The URL and the body of a credentials request.\<close>

definition credentials_request ::
  "credentials \<Rightarrow> string \<Rightarrow> string \<Rightarrow> string \<Rightarrow> string \<Rightarrow> bool \<Rightarrow> bool \<Rightarrow> string \<times> string" where
  "credentials_request creds c s t table_id catalog_managed write =
     (if \<not> catalog_managed
      then (endpoint creds @ ''/api/2.1/unity-catalog/temporary-table-credentials'',
            ''{\"table_id\": \"'' @ table_id @ ''\", \"operation\": \"'' @ operation_name write @ ''\"}'')
      else (delta_table_url creds c s t @ ''/credentials?operation='' @ operation_name write, []))"

definition get_table_credentials ::
  "env \<Rightarrow> string \<Rightarrow> string \<Rightarrow> string \<Rightarrow> string \<Rightarrow> bool \<Rightarrow> bool \<Rightarrow> credentials
    \<Rightarrow> ('x world_scheme, table_credentials) io" where
  "get_table_credentials env c s t table_id catalog_managed write creds =
     (let (url, body) = credentials_request creds c s t table_id catalog_managed write in
     bind (request_json env url (token creds) body
            (''Failed to get table credentials for '' @ dotted c s t)) (\<lambda>root.
     lift_res (if catalog_managed then read_storage_credentials root else read_aws_credentials root)))"

definition get_staging_table_credentials ::
  "env \<Rightarrow> string \<Rightarrow> credentials \<Rightarrow> ('x world_scheme, table_credentials) io" where
  "get_staging_table_credentials env table_id creds =
     bind (request_json env (endpoint creds @ ''/api/2.1/unity-catalog/delta/v1/staging-tables/'' @ table_id
            @ ''/credentials'') (token creds) []
            (''Failed to get credentials for staging table '' @ table_id)) (\<lambda>root.
     lift_res (read_storage_credentials root))"

section \<open>Creating a table\<close>

definition parse_staging_table :: "env \<Rightarrow> json option \<Rightarrow> staging_table res" where
  "parse_staging_table env root =
     bind_res (try_get_str root ''table-id'' True) (\<lambda>tid.
     bind_res (try_get_str root ''location'' True) (\<lambda>loc.
     bind_res
       (case obj_get root ''required-protocol'' of
          Some (JObj protocol) \<Rightarrow>
            bind_res (try_get_num (Some (JObj protocol)) ''min-reader-version'' False) (\<lambda>mr.
            bind_res (try_get_num (Some (JObj protocol)) ''min-writer-version'' False) (\<lambda>mw.
            Inr (mr, mw, read_string_array (obj_get (Some (JObj protocol)) ''reader-features''),
                 read_string_array (obj_get (Some (JObj protocol)) ''writer-features''))))
        | _ \<Rightarrow> Inr (0, 0, [], [])) (\<lambda>(mr, mw, rf, wf).
     bind_res (read_string_map (e_write env) (obj_get root ''required-properties'')) (\<lambda>req.
     bind_res (read_string_map (e_write env) (obj_get root ''suggested-properties'')) (\<lambda>sug.
     Inr \<lparr>sg_table_id = tid, sg_location = loc, sg_min_reader_version = mr, sg_min_writer_version = mw,
          sg_reader_features = rf, sg_writer_features = wf,
          sg_required_properties = req, sg_suggested_properties = sug\<rparr>)))))"

definition create_staging_table ::
  "env \<Rightarrow> string \<Rightarrow> string \<Rightarrow> string \<Rightarrow> credentials \<Rightarrow> ('x world_scheme, staging_table) io" where
  "create_staging_table env c s t creds =
     bind (lift_res (yyjson_encode_string (e_enc env) t)) (\<lambda>name.
     bind (request_or_conflict env (delta_schema_url creds c s @ ''/staging-tables'') (token creds)
            (''{\"name\": '' @ name @ ''}'') t (''Failed to stage table '' @ dotted c s t)) (\<lambda>root.
     lift_res (parse_staging_table env root)))"

definition create_table_body :: "env \<Rightarrow> put_fun \<Rightarrow> committed_table \<Rightarrow> string \<Rightarrow> string res" where
  "create_table_body env put table table_type =
     bind_res (yyjson_encode_string (e_enc env) (ct_name table)) (\<lambda>name.
     bind_res (yyjson_encode_string (e_enc env) (ct_location table)) (\<lambda>loc.
     bind_res (yyjson_encode_string (e_enc env) table_type) (\<lambda>type.
     bind_res (wire_schema env put (ct_schema_json table)) (\<lambda>schema.
     bind_res (json_string_array (e_enc env) (ct_partition_columns table)) (\<lambda>parts.
     bind_res (json_string_array (e_enc env) (ct_reader_features table)) (\<lambda>rf.
     bind_res (json_string_array (e_enc env) (ct_writer_features table)) (\<lambda>wf.
     bind_res (json_string_map (e_enc env) (ct_properties table)) (\<lambda>props.
     Inr (''{\"name\": '' @ name @ '', \"location\": '' @ loc @ '', \"table-type\": '' @ type
          @ '', \"columns\": '' @ schema @ '', \"partition-columns\": '' @ parts
          @ '', \"protocol\": {\"min-reader-version\": '' @ show_int (sint (ct_min_reader_version table))
          @ '', \"min-writer-version\": '' @ show_int (sint (ct_min_writer_version table))
          @ '', \"reader-features\": '' @ rf @ '', \"writer-features\": '' @ wf
          @ ''}, \"properties\": '' @ props @ '', \"last-commit-timestamp-ms\": ''
          @ show_int (sint (ct_last_commit_timestamp_ms table)) @ ''}'')))))))))"

definition api_create_table ::
  "env \<Rightarrow> put_fun \<Rightarrow> string \<Rightarrow> string \<Rightarrow> committed_table \<Rightarrow> string \<Rightarrow> credentials
    \<Rightarrow> ('x world_scheme, unit) io" where
  "api_create_table env put c s table table_type creds =
     bind (lift_res (create_table_body env put table table_type)) (\<lambda>body.
     bind (request_or_conflict env (delta_schema_url creds c s @ ''/tables'') (token creds) body
            (ct_name table) (''Failed to create table '' @ dotted c s (ct_name table))) (\<lambda>_.
     ret ()))"

section \<open>Commits\<close>

definition parse_commit :: "json \<Rightarrow> api_commit res" where
  "parse_commit commit =
     (let c = Some commit in
     bind_res (try_get_num c ''version'' True) (\<lambda>version.
     bind_res (try_get_num c ''timestamp'' True) (\<lambda>timestamp.
     bind_res (try_get_str c ''file-name'' True) (\<lambda>file_name.
     bind_res (try_get_num c ''file-size'' True) (\<lambda>file_size.
     bind_res (try_get_num c ''file-modification-timestamp'' True) (\<lambda>mtime.
     Inr \<lparr>cm_version = version, cm_timestamp = timestamp, cm_file_name = file_name,
          cm_file_size = file_size, cm_file_modification_timestamp = mtime\<rparr>))))))"

definition max_commit_version :: "api_commit list \<Rightarrow> u64" where
  "max_commit_version cs = foldl (\<lambda>m c. if m < cm_version c then cm_version c else m) 0 cs"

definition parse_metadata :: "json option \<Rightarrow> (string \<times> string \<times> string) res" where
  "parse_metadata root =
     (case obj_get root ''metadata'' of
        Some (JObj metadata) \<Rightarrow>
          bind_res (try_get_str (Some (JObj metadata)) ''etag'' False) (\<lambda>etag.
          bind_res (try_get_str (Some (JObj metadata)) ''table-uuid'' False) (\<lambda>uuid.
          bind_res (try_get_str (Some (JObj metadata)) ''location'' False) (\<lambda>loc.
          Inr (etag, uuid, loc))))
      | _ \<Rightarrow> Inr ([], [], []))"

definition parse_load_table :: "json option \<Rightarrow> (commits_result \<times> bool) res" where
  "parse_load_table root =
     bind_res (parse_metadata root) (\<lambda>(etag, uuid, loc).
     let ltv = obj_get root ''latest-table-version'';
         ltv_present = (ltv \<noteq> None \<and> ltv \<noteq> Some JNull) in
     bind_res (try_get_num root ''latest-table-version'' False) (\<lambda>server_ltv.
     bind_res (map_res parse_commit (arr_items (obj_get root ''commits''))) (\<lambda>cs.
     let max_commit = max_commit_version cs in
     Inr (\<lparr>cr_commits = cs, cr_table_uuid = uuid, cr_location = loc,
           cr_ratified_version = (if max_commit < server_ltv then server_ltv else max_commit),
           cr_etag = etag\<rparr>,
          \<not> ltv_present \<and> cs \<noteq> []))))"

definition load_table ::
  "env \<Rightarrow> string \<Rightarrow> string \<Rightarrow> string \<Rightarrow> credentials \<Rightarrow> ('x world_scheme, commits_result) io" where
  "load_table env c s t creds =
     bind (request_json env (delta_table_url creds c s t) (token creds) []
            (''Failed to load table '' @ dotted c s t)) (\<lambda>root.
     bind (lift_res (parse_load_table root)) (\<lambda>(result, incoherent).
     bind (if incoherent then log_warning ''api.LoadTable'' else ret ()) (\<lambda>_.
     ret result)))"

definition update_table_body ::
  "env \<Rightarrow> string \<Rightarrow> string \<Rightarrow> u64 \<Rightarrow> u64 \<Rightarrow> string \<Rightarrow> u64 \<Rightarrow> u64 \<Rightarrow> u64 option \<Rightarrow> string res" where
  "update_table_body env table_id etag version timestamp file_name file_size mtime backfill_version =
     (let num = (\<lambda>w :: u64. show_int (sint w));
          uuid_req = ''{\"type\": \"assert-table-uuid\", \"uuid\": \"'' @ table_id @ ''\"}'' in
     bind_res (if etag = [] then Inr []
               else bind_res (yyjson_encode_string (e_enc env) etag)
                 (\<lambda>et. Inr ('', {\"type\": \"assert-etag\", \"etag\": '' @ et @ ''}''))) (\<lambda>etag_req.
     let backfill_update = (case backfill_version of None \<Rightarrow> []
           | Some v \<Rightarrow> '', {\"action\": \"set-latest-backfilled-version\", \"latest-published-version\": ''
                @ num v @ ''}'') in
     Inr (''{\"requirements\": ['' @ uuid_req @ etag_req
       @ ''], \"updates\": [{\"action\": \"add-commit\", \"commit\": {\"version\": '' @ num version
       @ '', \"timestamp\": '' @ num timestamp @ '', \"file-name\": \"'' @ file_name
       @ ''\", \"file-size\": '' @ num file_size @ '', \"file-modification-timestamp\": '' @ num mtime
       @ ''}}'' @ backfill_update @ '']}'')))"

definition read_new_etag :: "json option \<Rightarrow> string res" where
  "read_new_etag root =
     (case obj_get root ''metadata'' of
        Some (JObj metadata) \<Rightarrow> try_get_str (Some (JObj metadata)) ''etag'' False
      | _ \<Rightarrow> Inr [])"

definition update_table ::
  "env \<Rightarrow> string \<Rightarrow> string \<Rightarrow> string \<Rightarrow> string \<Rightarrow> string \<Rightarrow> credentials \<Rightarrow> u64 \<Rightarrow> u64 \<Rightarrow> string \<Rightarrow> u64 \<Rightarrow> u64
    \<Rightarrow> u64 option \<Rightarrow> ('x world_scheme, string) io" where
  "update_table env c s t table_id etag creds version timestamp file_name file_size mtime backfill_version =
     bind (lift_res (update_table_body env table_id etag version timestamp file_name file_size mtime
            backfill_version)) (\<lambda>body.
     bind (request_json env (delta_table_url creds c s t) (token creds) body
            (''Failed to commit to '' @ dotted c s t)) (\<lambda>root.
     lift_res (read_new_etag root)))"

section \<open>Lemmas\<close>

text \<open>\<open>clean env root\<close>: a body of a successful response, which reports no error.\<close>

definition clean :: "env \<Rightarrow> json option \<Rightarrow> bool" where
  "clean env root \<longleftrightarrow>
     (\<exists>h resp e. e_http env h = Inr resp \<and> resp_success resp \<and> root = e_read env (resp_body resp) \<and>
        check_error root = Inr e \<and> \<not> has_error e)"

lemma make_request_resp_from:
  "make_request_resp env url tok body sg tol s = (Inr resp, t) \<Longrightarrow> \<exists>h. e_http env h = Inr resp"
  by (auto simp: make_request_resp_def bind_eq_Inr split: if_splits)

lemma request_json_clean:
  assumes "request_json env url tok body failed s = (Inr root, t)"
  shows "clean env root"
proof -
  obtain resp s1 where resp: "make_request_resp env url tok body False None s = (Inr resp, s1)"
    and e: "throw_on_error (e_read env (resp_body resp)) failed = Inr ()" "root = e_read env (resp_body resp)"
    using assms by (auto simp: request_json_def make_request_def bind_eq_Inr)
  have "resp_success resp" using make_request_resp_ok[OF resp] by simp
  moreover obtain h where "e_http env h = Inr resp" using make_request_resp_from[OF resp] by blast
  ultimately show ?thesis using e
    by (auto simp: clean_def throw_on_error_def bind_res_eq_Inr split: if_splits)
qed

lemma request_or_conflict_clean:
  assumes "request_or_conflict env url tok body table failed s = (Inr root, t)"
  shows "clean env root"
proof -
  obtain resp where resp: "make_request_resp env url tok body False (Some 409) s = (Inr resp, t)"
    and e: "conflict_check root url resp table failed = Inr ()" "root = e_read env (resp_body resp)"
    using assms by (auto simp: request_or_conflict_def bind_eq_Inr)
  moreover obtain h where "e_http env h = Inr resp" using make_request_resp_from[OF resp] by blast
  ultimately show ?thesis
    by (auto simp: clean_def conflict_check_def bind_res_eq_Inr split: if_splits)
qed

lemma max_commit_version_upper:
  "m \<le> foldl (\<lambda>m c. if m < cm_version c then cm_version c else m) m cs \<and>
   (\<forall>c \<in> set cs. cm_version c \<le> foldl (\<lambda>m c. if m < cm_version c then cm_version c else m) m cs)"
proof (induction cs arbitrary: m)
  case (Cons c cs)
  from Cons[of "if m < cm_version c then cm_version c else m"] show ?case by (auto split: if_splits)
qed simp

lemma max_commit_version_attained:
  "max_commit_version cs \<in> insert 0 (cm_version ` set cs)"
proof -
  have "foldl (\<lambda>m c. if m < cm_version c then cm_version c else m) m cs \<in> insert m (cm_version ` set cs)" for m
  proof (induction cs arbitrary: m)
    case (Cons c cs)
    from Cons[of "if m < cm_version c then cm_version c else m"] show ?case by (auto split: if_splits)
  qed simp
  then show ?thesis by (simp add: max_commit_version_def)
qed

lemma parse_load_table_version:
  assumes "parse_load_table root = Inr (r, w)"
  shows "\<forall>c \<in> set (cr_commits r). cm_version c \<le> cr_ratified_version r"
    and "get_int (obj_get root ''latest-table-version'') \<le> cr_ratified_version r"
    and "cr_ratified_version r \<in> insert (get_int (obj_get root ''latest-table-version''))
           (insert 0 (cm_version ` set (cr_commits r)))"
proof -
  obtain m where m: "parse_metadata root = Inr m"
    using assms by (auto simp: parse_load_table_def bind_res_eq_Inr)
  obtain ltv where num: "try_get_num root ''latest-table-version'' False = Inr ltv"
    using assms m by (auto simp: parse_load_table_def bind_res_eq_Inr Let_def split: prod.splits)
  obtain cs where cs: "map_res parse_commit (arr_items (obj_get root ''commits'')) = Inr cs"
    using assms m num by (auto simp: parse_load_table_def bind_res_eq_Inr Let_def split: prod.splits)
  have r: "cr_commits r = cs"
      "cr_ratified_version r = (if max_commit_version cs < ltv then ltv else max_commit_version cs)"
    using assms m num cs by (auto simp: parse_load_table_def Let_def case_prod_beta)
  have ltv: "ltv = get_int (obj_get root ''latest-table-version'')"
    using num by (auto simp: try_get_num_Inr)
  have up: "\<forall>c \<in> set cs. cm_version c \<le> max_commit_version cs"
    using max_commit_version_upper[of 0 cs] by (simp add: max_commit_version_def)
  show "\<forall>c \<in> set (cr_commits r). cm_version c \<le> cr_ratified_version r"
    using up r by (auto intro: order.trans order.strict_implies_order)
  show "get_int (obj_get root ''latest-table-version'') \<le> cr_ratified_version r"
    using r ltv by auto
  show "cr_ratified_version r \<in> insert (get_int (obj_get root ''latest-table-version''))
           (insert 0 (cm_version ` set (cr_commits r)))"
    using r ltv max_commit_version_attained[of cs] by auto
qed

lemma load_table_result:
  assumes "load_table env c sch t creds s = (Inr r, s')"
  shows "\<exists>root w. clean env root \<and> parse_load_table root = Inr (r, w)"
proof -
  obtain root s1 where "request_json env (delta_table_url creds c sch t) (token creds) []
      (''Failed to load table '' @ dotted c sch t) s = (Inr root, s1)"
    and "\<exists>w. parse_load_table root = Inr (r, w)"
    using assms unfolding load_table_def by (force simp: bind_eq_Inr split: prod.splits)
  then show ?thesis using request_json_clean by blast
qed

lemma update_table_result:
  assumes "update_table env c sch t tid etag creds v ts fname fsize mtime bf s = (Inr et, s')"
  shows "\<exists>root. clean env root \<and> read_new_etag root = Inr et"
  using assms unfolding update_table_def bind_eq_Inr run_simps by (metis request_json_clean prod.inject)

lemma get_table_credentials_result:
  assumes "get_table_credentials env c sch t tid managed wr creds s = (Inr r, s')"
  shows "\<exists>root. clean env root \<and>
    (if managed then read_storage_credentials root else read_aws_credentials root) = Inr r"
proof -
  obtain root s1 where "request_json env (fst (credentials_request creds c sch t tid managed wr)) (token creds)
      (snd (credentials_request creds c sch t tid managed wr))
      (''Failed to get table credentials for '' @ dotted c sch t) s = (Inr root, s1)"
    and "(if managed then read_storage_credentials root else read_aws_credentials root) = Inr r"
    using assms unfolding get_table_credentials_def bind_eq_Inr run_simps Let_def case_prod_beta by blast
  then show ?thesis using request_json_clean by blast
qed

lemma get_staging_credentials_result:
  assumes "get_staging_table_credentials env tid creds s = (Inr r, s')"
  shows "\<exists>root. clean env root \<and> read_storage_credentials root = Inr r"
  using assms unfolding get_staging_table_credentials_def bind_eq_Inr run_simps
  by (metis request_json_clean prod.inject)

lemma create_staging_table_result:
  assumes "create_staging_table env c sch t creds s = (Inr r, s')"
  shows "\<exists>root. clean env root \<and> parse_staging_table env root = Inr r"
  using assms unfolding create_staging_table_def bind_eq_Inr run_simps
  by (metis request_or_conflict_clean prod.inject)

section \<open>Properties\<close>

text \<open>
  No error passes for a result: whatever \<open>LoadTable\<close>, \<open>UpdateTable\<close>, the two credentials calls and
  \<open>CreateStagingTable\<close> return was read from the body of a successful response that reports no error.
\<close>

theorem results_come_from_clean_bodies:
  "(case load_table env c sch t creds s of (Inl e, _) \<Rightarrow> True
    | (Inr r, _) \<Rightarrow> \<exists>root w. clean env root \<and> parse_load_table root = Inr (r, w)) \<and>
   (case update_table env c sch t tid etag creds v ts fname fsize mtime bf s of (Inl e, _) \<Rightarrow> True
    | (Inr et, _) \<Rightarrow> \<exists>root. clean env root \<and> read_new_etag root = Inr et) \<and>
   (case get_table_credentials env c sch t tid managed wr creds s of (Inl e, _) \<Rightarrow> True
    | (Inr r, _) \<Rightarrow> \<exists>root. clean env root \<and>
        (if managed then read_storage_credentials root else read_aws_credentials root) = Inr r) \<and>
   (case get_staging_table_credentials env tid creds s of (Inl e, _) \<Rightarrow> True
    | (Inr r, _) \<Rightarrow> \<exists>root. clean env root \<and> read_storage_credentials root = Inr r) \<and>
   (case create_staging_table env c sch t creds s of (Inl e, _) \<Rightarrow> True
    | (Inr r, _) \<Rightarrow> \<exists>root. clean env root \<and> parse_staging_table env root = Inr r)"
proof (intro conjI)
  show "case load_table env c sch t creds s of (Inl e, _) \<Rightarrow> True
    | (Inr r, _) \<Rightarrow> \<exists>root w. clean env root \<and> parse_load_table root = Inr (r, w)"
    using load_table_result[of env c sch t creds s] by (auto split: prod.split sum.split)
  show "case update_table env c sch t tid etag creds v ts fname fsize mtime bf s of (Inl e, _) \<Rightarrow> True
    | (Inr et, _) \<Rightarrow> \<exists>root. clean env root \<and> read_new_etag root = Inr et"
    using update_table_result[of env c sch t tid etag creds v ts fname fsize mtime bf s]
    by (auto split: prod.split sum.split)
  show "case get_table_credentials env c sch t tid managed wr creds s of (Inl e, _) \<Rightarrow> True
    | (Inr r, _) \<Rightarrow> \<exists>root. clean env root \<and>
        (if managed then read_storage_credentials root else read_aws_credentials root) = Inr r"
    using get_table_credentials_result[of env c sch t tid managed wr creds s]
    by (auto split: prod.split sum.split split del: if_split)
  show "case get_staging_table_credentials env tid creds s of (Inl e, _) \<Rightarrow> True
    | (Inr r, _) \<Rightarrow> \<exists>root. clean env root \<and> read_storage_credentials root = Inr r"
    using get_staging_credentials_result[of env tid creds s] by (auto split: prod.split sum.split)
  show "case create_staging_table env c sch t creds s of (Inl e, _) \<Rightarrow> True
    | (Inr r, _) \<Rightarrow> \<exists>root. clean env root \<and> parse_staging_table env root = Inr r"
    using create_staging_table_result[of env c sch t creds s] by (auto split: prod.split sum.split)
qed

text \<open>
  The version \<open>LoadTable\<close> reports hides no commit: it is at least every listed commit's version and
  the server's \<open>latest-table-version\<close>, and it is one of those (or 0 for a table without either).
\<close>

theorem ratified_version_covers_commits:
  "case load_table env c sch t creds s of
     (Inl e, _) \<Rightarrow> True
   | (Inr r, _) \<Rightarrow> \<exists>root. clean env root \<and>
       (let reported = insert (get_int (obj_get root ''latest-table-version''))
                         (insert 0 (cm_version ` set (cr_commits r)))
        in cr_ratified_version r = Max reported)"
proof (cases rule: run_cases[of "load_table env c sch t creds s"])
  case (Inr r t')
  then obtain root w where c: "clean env root" and p: "parse_load_table root = Inr (r, w)"
    using load_table_result by blast
  let ?v = "insert (get_int (obj_get root ''latest-table-version''))
      (insert 0 (cm_version ` set (cr_commits r)))"
  note v = parse_load_table_version[OF p]
  have "Max ?v = cr_ratified_version r"
    by (rule Max_eqI) (use v in auto)
  then show ?thesis using Inr c by (auto simp: Let_def)
qed simp

text \<open>
  A taken name is always the catalog's own exception: when the response to a create, 409 or not,
  says the table exists, \<open>CreateStagingTable\<close> and \<open>CreateTable\<close> throw \<open>EntryAlreadyExists\<close> for it.
\<close>

theorem taken_name_is_catalog_error:
  assumes "make_request_resp env url (token creds) body False (Some 409) s = (Inr resp, t)"
    and "check_error (e_read env (resp_body resp)) = Inr e" and "has_error e" and "is_already_exists e"
  shows "(url = delta_schema_url creds c sch @ ''/staging-tables'' \<longrightarrow>
      yyjson_encode_string (e_enc env) name = Inr enc \<longrightarrow> body = ''{\"name\": '' @ enc @ ''}'' \<longrightarrow>
      create_staging_table env c sch name creds s = (Inl (entry_already_exists name), t)) \<and>
    (url = delta_schema_url creds c sch @ ''/tables'' \<longrightarrow>
      create_table_body env put table table_type = Inr body \<longrightarrow>
      api_create_table env put c sch table table_type creds s = (Inl (entry_already_exists (ct_name table)), t))"
  using assms
  by (auto simp: create_staging_table_def api_create_table_def request_or_conflict_def conflict_check_def bind_run)

definition env_conflict :: env where
  "env_conflict = env_witness\<lparr>
     e_http := (\<lambda>_. Inr \<lparr>resp_success = False, resp_status = 409, resp_headers = [], resp_body = ''r'', resp_error = []\<rparr>),
     e_read := (\<lambda>_. Some (JObj [(''error_code'', JStr ''ALREADY_EXISTS'')]))\<rparr>"

lemma taken_name_is_catalog_error_witness:
  "\<exists>creds t. create_staging_table env_conflict ''c'' ''s'' ''t'' creds \<lparr>hist = []\<rparr>
     = (Inl (entry_already_exists ''t''), t)"
proof -
  define creds where "creds = \<lparr>endpoint = ''e'', token = ''k'', aws_region = [],
     use_irc_scan_plan = False, irc_endpoint_override = []\<rparr>"
  let ?url = "delta_schema_url creds ''c'' ''s'' @ ''/staging-tables''"
  let ?resp = "\<lparr>resp_success = False, resp_status = 409, resp_headers = [], resp_body = ''r'', resp_error = []\<rparr>"
  let ?h = "[AutoLoad ''httpfs'', Http POST ?url ''k'' ''{\"name\": t}'' False]"
  let ?e = "\<lparr>err_code = ''ALREADY_EXISTS'', err_message = ''-''\<rparr>"
  have req: "make_request_resp env_conflict ?url (token creds) ''{\"name\": t}'' False (Some 409) \<lparr>hist = []\<rparr>
      = (Inr ?resp, \<lparr>hist = ?h\<rparr>)"
    by (simp add: make_request_resp_def ensure_httpfs_extension_def bind_run env_conflict_def env_witness_def
        creds_def)
  have err: "check_error (e_read env_conflict (resp_body ?resp)) = Inr ?e"
    by (simp add: env_conflict_def check_error_def check_error_legacy_def try_get_str_def
        templated_try_get_def cstr_def)
  have "yyjson_encode_string (e_enc env_conflict) ''t'' = Inr ''t''"
    by (simp add: yyjson_encode_string_def env_conflict_def env_witness_def)
  then show ?thesis
    using taken_name_is_catalog_error[OF req err, of "''c''" "''s''" "''t''" "''t''" put_witness]
    by (simp add: has_error_def is_already_exists_def) blast
qed

text \<open>
  \<open>GetTableCredentials\<close> makes one request, to the endpoint of the kind of table it is asked for, and
  asks for write access only when the caller writes.
\<close>

theorem credentials_request_exact:
  "\<exists>cs \<in> request_calls (if managed then GET else POST)
      (fst (credentials_request creds c sch t tid managed wr)) (token creds)
      (snd (credentials_request creds c sch t tid managed wr)).
     made s (snd (get_table_credentials env c sch t tid managed wr creds s)) cs \<and>
     (if managed then suffix (''?operation='' @ operation_name wr) (fst (credentials_request creds c sch t tid managed wr))
      else suffix (''\"operation\": \"'' @ operation_name wr @ ''\"}'')
             (snd (credentials_request creds c sch t tid managed wr)))"
proof -
  let ?u = "fst (credentials_request creds c sch t tid managed wr)"
  let ?b = "snd (credentials_request creds c sch t tid managed wr)"
  obtain r1 s1 where req: "make_request_resp env ?u (token creds) ?b False None s = (r1, s1)"
    by (cases "make_request_resp env ?u (token creds) ?b False None s")
  have "snd (get_table_credentials env c sch t tid managed wr creds s) = s1"
    using req by (auto simp: get_table_credentials_def request_json_def make_request_def bind_run
        split: prod.splits sum.splits)
  moreover have "(?b = []) = managed" by (simp add: credentials_request_def)
  moreover have "if managed then suffix (''?operation='' @ operation_name wr) ?u
      else suffix (''\"operation\": \"'' @ operation_name wr @ ''\"}'') ?b"
    by (auto simp: credentials_request_def suffix_def intro: exI)
  ultimately show ?thesis using make_request_resp_calls[OF req] by auto
qed

end
