(* ===== verification/UC_Table_Info.thy ===== *)
theory UC_Table_Info
  imports UC_Rest "HOL-Library.Option_ord"
begin

text \<open>
  \<open>TableInformation\<close> (\<open>src/storage/uc_table_set.cpp\<close>) and the commit function delta calls back
  (\<open>src/functions/uc_delta_ccv2_commit.cpp\<close>): one table of the catalog with the Delta database
  attached for it, its etag and its backfill watermark.

  The mutable members are an extension of the world record; what does not change after the table was
  loaded (\<open>table_data\<close>, the catalog's settings) are arguments. \<open>InternalAttach\<close> runs under
  \<open>attach_lock\<close>, so each operation is one step. The theory ends with the table as a state machine over its
  operations; the properties about it say that the watermark never goes back, that a
  version is only counted as backfilled after its copy was tried and found done, that a read-only catalog
  writes nothing, and that after a commit the next attach loads the table again.
\<close>

section \<open>State\<close>

text \<open>The settings of the attached catalog: its name, its Unity Catalog name and its access mode.\<close>

record catalog_settings =
  cat_name :: string
  cat_db_path :: string
  cat_read_only :: bool
  cat_credentials :: credentials

record table_state = world +
  ti_is_dirty :: bool
  ti_etag :: string
  ti_backfilled_version :: "u64 option"
  ti_attached :: "attach_info option"

text \<open>\<open>optional_idx\<close> of a version; the largest \<open>idx_t\<close> marks an invalid one.\<close>

definition optional_idx :: "u64 \<Rightarrow> u64 option res" where
  "optional_idx v = (if v = - 1
     then Inl (InternalException ''optional_idx cannot be initialized with an invalid index'')
     else Inr (Some v))"

section \<open>What the catalog says of a table\<close>

definition has_delta_feature :: "api_table \<Rightarrow> string \<Rightarrow> bool" where
  "has_delta_feature td feature = (tb_properties td (''delta.feature.'' @ feature) = Some ''supported'')"

definition is_catalog_managed :: "api_table \<Rightarrow> bool" where
  "is_catalog_managed td =
     (if has_delta_feature td ''catalogOwned-preview'' then True else has_delta_feature td ''catalogManaged'')"

definition scan_plan_can_read :: "api_table \<Rightarrow> bool" where
  "scan_plan_can_read td =
     (if tb_data_source_format td \<noteq> ''DELTA'' then True
      else if list_ex is_partition_column (tb_columns td) then False
      else (case tb_properties td ''delta.columnMapping.mode'' of
              None \<Rightarrow> True | Some mode \<Rightarrow> mode = ''none''))"

definition interval_units :: "string list" where
  "interval_units = [''year'', ''month'', ''day'', ''hour'', ''minute'', ''second'']"

text \<open>The loop over the occurrences of the word, each looked at by itself.\<close>

function has_interval_from :: "string \<Rightarrow> nat option \<Rightarrow> bool" where
  "has_interval_from s None = False"
| "has_interval_from s (Some pos) =
     (if length s < pos + 9 then False
      else if list_ex (\<lambda>u. prefix u (drop (pos + 9) s)) interval_units then True
      else has_interval_from s (find_from ''interval '' s (pos + 1)))"
  by pat_completeness auto
termination
proof (relation "measure (\<lambda>(s, p). case p of None \<Rightarrow> 0 | Some pos \<Rightarrow> Suc (length s) - pos)")
  fix s :: string and pos
  assume len: "\<not> length s < pos + 9"
  have "pos < p \<and> p \<le> length s" if "find_from ''interval '' s (pos + 1) = Some p" for p
    using find_from_SomeD(1,2)[OF that] by simp
  then show "((s, find_from ''interval '' s (pos + 1)), s, Some pos)
      \<in> measure (\<lambda>(s, p). case p of None \<Rightarrow> 0 | Some pos \<Rightarrow> Suc (length s) - pos)"
    using len by (auto split: option.split)
qed simp

definition type_text_has_interval :: "string \<Rightarrow> bool" where
  "type_text_has_interval text = has_interval_from (lower text) (find_sub ''interval '' (lower text))"

definition throw_if_interval_columns :: "api_table \<Rightarrow> unit res" where
  "throw_if_interval_columns td =
     (case find (\<lambda>c. type_text_has_interval (type_text c)) (tb_columns td) of
        None \<Rightarrow> Inr ()
      | Some c \<Rightarrow> Inl (NotImplementedException (''Table '' @ in_quotes (tb_name td) @ '' has interval column ''
          @ in_quotes (col_name c) @ '', which Unity Catalog reports as '' @ in_quotes (type_text c)
          @ ''; Delta interval semantics differ from DuckDB's INTERVAL'')))"

definition throw_if_unreadable_columns :: "api_table \<Rightarrow> (string \<times> string) list \<Rightarrow> unit res" where
  "throw_if_unreadable_columns td unreadable =
     (case unreadable of
        [] \<Rightarrow> Inr ()
      | (name, text) # _ \<Rightarrow> Inl (NotImplementedException (''Table '' @ in_quotes (tb_name td) @ '' has ''
          @ show_nat (length unreadable)
          @ '' column(s) with a type this build cannot read; the first is '' @ in_quotes name
          @ '', which Unity Catalog reports as '' @ in_quotes text)))"

definition no_delta_table :: "api_table \<Rightarrow> uc_exn" where
  "no_delta_table td = CatalogException [] (''Table '' @ in_quotes (tb_name td) @ '' is registered in Unity Catalog at ''
     @ in_quotes (tb_storage_location td) @ '', but no Delta table was found there'')"

section \<open>Credentials and the attached database\<close>

text \<open>The temporary secret for one location; staging a table makes the same one.\<close>

definition storage_secret :: "credentials \<Rightarrow> string \<Rightarrow> string \<Rightarrow> table_credentials \<Rightarrow> secret_input" where
  "storage_secret creds table_id location tc =
     \<lparr>sec_name = ''__internal_uc_'' @ table_id,
      sec_options = [(''key_id'', key_id tc), (''secret'', secret tc), (''session_token'', session_token tc),
        (''region'', aws_region creds)],
      sec_scope = location\<rparr>"

definition refresh_credentials :: "env \<Rightarrow> catalog_settings \<Rightarrow> api_table \<Rightarrow> ('x world_scheme, unit) io" where
  "refresh_credentials env cat td =
     (if prefix ''file://'' (tb_storage_location td) then ret ()
      else bind (get_table_credentials env (tb_catalog_name td) (tb_schema_name td) (tb_name td) (tb_table_id td)
                  (is_catalog_managed td) (\<not> cat_read_only cat) (cat_credentials cat)) (\<lambda>tc.
           call (e_done env) (CreateSecret (storage_secret (cat_credentials cat) (tb_table_id td)
             (tb_storage_location td) tc))))"

definition attached_catalog_name :: "catalog_settings \<Rightarrow> api_table \<Rightarrow> string" where
  "attached_catalog_name cat td =
     ''__unity_catalog_internal_'' @ cat_name cat @ ''_'' @ tb_schema_name td @ ''_'' @ tb_name td"

definition internal_detach ::
  "env \<Rightarrow> catalog_settings \<Rightarrow> api_table \<Rightarrow> ('x table_state_scheme, unit) io" where
  "internal_detach env cat td =
     bind (get_state ti_attached) (\<lambda>db.
     if db = None then ret ()
     else bind (call (e_done env) (DetachDatabase (attached_catalog_name cat td))) (\<lambda>_.
          modify (ti_attached_update (\<lambda>_. None))))"

section \<open>Backfilling\<close>

fun copy_chunks :: "env \<Rightarrow> string \<Rightarrow> string \<Rightarrow> bytes res list \<Rightarrow> ('x world_scheme, unit) io" where
  "copy_chunks env src dst [] = call (\<lambda>_. Inr ()) (ReadChunk src)"
| "copy_chunks env src dst (Inl e # rs) = call (\<lambda>_. Inl e) (ReadChunk src)"
| "copy_chunks env src dst (Inr buf # rs) =
     bind (call (\<lambda>_. Inr ()) (ReadChunk src)) (\<lambda>_.
     if buf = [] then ret ()
     else bind (call (e_done env) (WriteChunk dst buf)) (\<lambda>_. copy_chunks env src dst rs))"

definition copy_staged_commit ::
  "env \<Rightarrow> string \<Rightarrow> string \<Rightarrow> ('x world_scheme, bool) io" where
  "copy_staged_commit env src dst =
     bind (call (\<lambda>h. case e_done env h of Inl e \<Rightarrow> Inl e | Inr _ \<Rightarrow> Inr (e_chunks env h)) (OpenRead src)) (\<lambda>reads.
     bind (call (e_open env) (OpenExclusive dst)) (\<lambda>created.
     if created
     then bind (copy_chunks env src dst reads) (\<lambda>_.
          bind (call (e_done env) (CloseFile dst)) (\<lambda>_. ret True))
     else ret False))"

definition staged_commit_path :: "string \<Rightarrow> api_commit \<Rightarrow> string" where
  "staged_commit_path location c = location @ ''/_delta_log/_staged_commits/'' @ cm_file_name c"

definition delta_commit_path :: "string \<Rightarrow> u64 \<Rightarrow> string" where
  "delta_commit_path location v = location @ ''/_delta_log/'' @ pad0 20 (show_nat (unat v)) @ ''.json''"

text \<open>One commit of the loop: the new watermark, or the exception that stops the loop.\<close>

definition backfill_one :: "env \<Rightarrow> string \<Rightarrow> api_commit \<Rightarrow> ('x world_scheme, u64 option) io" where
  "backfill_one env location c =
     bind (copy_staged_commit env (staged_commit_path location c) (delta_commit_path location (cm_version c))) (\<lambda>_.
     lift_res (optional_idx (cm_version c)))"

fun backfill_loop :: "env \<Rightarrow> string \<Rightarrow> api_commit list \<Rightarrow> u64 option \<Rightarrow> ('x world_scheme, u64 option) io" where
  "backfill_loop env location [] wm = ret wm"
| "backfill_loop env location (c # cs) wm =
     (if (case wm of Some w \<Rightarrow> cm_version c \<le> w | None \<Rightarrow> False) then backfill_loop env location cs wm
      else bind (attempt (backfill_one env location c)) (\<lambda>r.
        case r of
          Inl e \<Rightarrow> bind (log_warning ''api.BackfillCommits'') (\<lambda>_. ret wm)
        | Inr wm' \<Rightarrow> backfill_loop env location cs wm'))"

definition backfill_commits ::
  "env \<Rightarrow> string \<Rightarrow> api_commit list \<Rightarrow> u64 option \<Rightarrow> ('x world_scheme, u64 option) io" where
  "backfill_commits env location cs wm = backfill_loop env location (sort_key cm_version cs) wm"

section \<open>Attaching\<close>

definition log_tail_of :: "commits_result \<Rightarrow> string \<Rightarrow> log_tail_entry list" where
  "log_tail_of r location =
     map (\<lambda>c. \<lparr>lt_version = cm_version c, lt_timestamp = cm_timestamp c,
               lt_file_name = staged_commit_path location c, lt_file_size = cm_file_size c,
               lt_file_modification_timestamp = cm_file_modification_timestamp c\<rparr>) (cr_commits r)"

definition base_attach_info :: "catalog_settings \<Rightarrow> api_table \<Rightarrow> attach_info" where
  "base_attach_info cat td =
     \<lparr>att_name = attached_catalog_name cat td, att_path = tb_storage_location td,
      att_options = [(''type'', AStr ''Delta''), (''child_catalog_mode'', ABool True),
        (''internal_table_name'', AStr (tb_name td)), (''unity_table_id'', AStr (tb_table_id td))]\<rparr>"

definition managed_attach_info ::
  "catalog_settings \<Rightarrow> string \<Rightarrow> api_table \<Rightarrow> commits_result \<Rightarrow> attach_info" where
  "managed_attach_info cat schema td r =
     (base_attach_info cat td)\<lparr>att_options := att_options (base_attach_info cat td)
       @ [(''parent_catalog'', AStr (cat_name cat)), (''parent_catalog_schema'', AStr schema),
          (''parent_commit'', ABool True), (''max_catalog_version'', ABigint (cr_ratified_version r))]
       @ (if cr_commits r = [] then [] else [(''log_tail'', ALogTail (log_tail_of r (tb_storage_location td)))])\<rparr>"

text \<open>The part of \<open>InternalAttach\<close> for a catalog-managed table.\<close>

definition load_and_backfill ::
  "env \<Rightarrow> catalog_settings \<Rightarrow> string \<Rightarrow> api_table \<Rightarrow> ('x table_state_scheme, attach_info) io" where
  "load_and_backfill env cat schema td =
     bind (load_table env (tb_catalog_name td) (tb_schema_name td) (tb_name td) (cat_credentials cat)) (\<lambda>r.
     bind (get_state ti_backfilled_version) (\<lambda>start_wm.
     bind (if cat_read_only cat then ret start_wm
           else backfill_commits env (tb_storage_location td) (cr_commits r) start_wm) (\<lambda>new_wm.
     bind (modify (\<lambda>s. s\<lparr>ti_etag := cr_etag r, ti_backfilled_version := new_wm\<rparr>)) (\<lambda>_.
     ret (managed_attach_info cat schema td r)))))"

text \<open>The head of \<open>InternalAttach\<close>: a stale database is dropped unless this transaction reads it.\<close>

definition detach_if_stale ::
  "env \<Rightarrow> catalog_settings \<Rightarrow> api_table \<Rightarrow> ('x table_state_scheme, unit) io" where
  "detach_if_stale env cat td =
     bind (get_state ti_attached) (\<lambda>db.
     bind (if db = None then ret False
           else call (e_open env) (HasTransaction (attached_catalog_name cat td))) (\<lambda>read_by_this_transaction.
     bind (get_state ti_is_dirty) (\<lambda>dirty.
     if dirty \<and> \<not> read_by_this_transaction
     then bind (internal_detach env cat td) (\<lambda>_. modify (ti_is_dirty_update (\<lambda>_. False)))
     else ret ())))"

definition internal_attach ::
  "env \<Rightarrow> catalog_settings \<Rightarrow> string \<Rightarrow> api_table \<Rightarrow> ('x table_state_scheme, unit) io" where
  "internal_attach env cat schema td =
     bind (detach_if_stale env cat td) (\<lambda>_.
     bind (get_state ti_attached) (\<lambda>db.
     if db \<noteq> None then ret ()
     else bind (if is_catalog_managed td then load_and_backfill env cat schema td
                else ret (base_attach_info cat td)) (\<lambda>info.
          bind (call (e_done env) (AttachDatabase info)) (\<lambda>_.
          modify (ti_attached_update (\<lambda>_. Some info))))))"

section \<open>The operations on a table\<close>

record table_entry =
  en_name :: string
  en_columns :: "(string \<times> logical_type) list"

definition entry_from_delta_log ::
  "env \<Rightarrow> catalog_settings \<Rightarrow> string \<Rightarrow> api_table \<Rightarrow> string \<Rightarrow> ('x table_state_scheme, table_entry option) io" where
  "entry_from_delta_log env cat schema td at =
     bind (refresh_credentials env cat td) (\<lambda>_.
     bind (internal_attach env cat schema td) (\<lambda>_.
     bind (call (e_lookup env) (DeltaLookup (attached_catalog_name cat td) at)) (\<lambda>cols.
     ret (map_option (\<lambda>cs. \<lparr>en_name = tb_name td, en_columns = cs\<rparr>) cols))))"

definition internal_checkpoint ::
  "env \<Rightarrow> catalog_settings \<Rightarrow> string \<Rightarrow> api_table \<Rightarrow> bool \<Rightarrow> ('x table_state_scheme, unit) io" where
  "internal_checkpoint env cat schema td force =
     bind (refresh_credentials env cat td) (\<lambda>_.
     bind (internal_attach env cat schema td) (\<lambda>_.
     call (e_done env) (DeltaCheckpoint (attached_catalog_name cat td) force)))"

text \<open>
  \<open>UnityCatalog::PlanInsert\<close> and \<open>BuildDeltaScan\<close> on the table: the attached database makes the plan, or is
  asked for the table and then for its scan.
\<close>

definition table_plan_insert ::
  "env \<Rightarrow> catalog_settings \<Rightarrow> string \<Rightarrow> api_table \<Rightarrow> ('x table_state_scheme, unit) io" where
  "table_plan_insert env cat schema td =
     bind (refresh_credentials env cat td) (\<lambda>_.
     bind (internal_attach env cat schema td) (\<lambda>_.
     call (e_done env) (DeltaPlanInsert (attached_catalog_name cat td))))"

definition build_delta_scan ::
  "env \<Rightarrow> catalog_settings \<Rightarrow> string \<Rightarrow> api_table \<Rightarrow> string \<Rightarrow> ('x table_state_scheme, unit) io" where
  "build_delta_scan env cat schema td at =
     bind (refresh_credentials env cat td) (\<lambda>_.
     bind (internal_attach env cat schema td) (\<lambda>_.
     bind (call (e_lookup env) (DeltaLookup (attached_catalog_name cat td) at)) (\<lambda>table_entry.
     if table_entry = None then throw (no_delta_table td)
     else call (e_done env) (DeltaBindScan (attached_catalog_name cat td) at))))"

definition mark_dirty :: "('x table_state_scheme, unit) io" where
  "mark_dirty = modify (ti_is_dirty_update (\<lambda>_. True))"

text \<open>The file name of a staged commit: what follows the last slash or backslash of its path.\<close>

definition commit_file_name :: "string \<Rightarrow> string" where
  "commit_file_name path = rev (takeWhile (\<lambda>c. c \<noteq> CHR ''/'' \<and> c \<noteq> CHR 0x5C) (rev path))"

record staged_commit =
  st_file_path :: string
  st_file_size :: u64
  st_timestamp :: u64
  st_version :: u64
  st_file_modification_timestamp :: u64

definition ccv2_commit_execute ::
  "env \<Rightarrow> catalog_settings \<Rightarrow> api_table \<Rightarrow> staged_commit \<Rightarrow> ('x table_state_scheme, unit) io" where
  "ccv2_commit_execute env cat td c =
     bind (get_state (\<lambda>s. (ti_etag s, ti_backfilled_version s))) (\<lambda>(etag, wm).
     bind (update_table env (tb_catalog_name td) (tb_schema_name td) (tb_name td) (tb_table_id td) etag
            (cat_credentials cat) (st_version c) (st_timestamp c) (commit_file_name (st_file_path c))
            (st_file_size c) (st_file_modification_timestamp c) wm) (\<lambda>new_etag.
     bind mark_dirty (\<lambda>_. modify (ti_etag_update (\<lambda>_. new_etag)))))"

definition ccv2_commit_bind :: "unit res" where
  "ccv2_commit_bind = Inl (InternalException
     ''__internal_delta_ccv2_commit_staged is only for internal use and should not be called directly'')"

section \<open>What the operations leave alone\<close>

lemmas [keeps_intro] = wr.keeps_pure wr.keeps_bind wr.keeps_attempt call_keeps

lemma keeps_make_request_resp [keeps_intro]: "keeps wrote (make_request_resp env url tok body sg tol)"
  unfolding make_request_resp_def ensure_httpfs_extension_def by (auto intro!: keeps_intro)

lemma keeps_request_json [keeps_intro]: "keeps wrote (request_json env url tok body failed)"
  unfolding request_json_def make_request_def by (auto intro!: keeps_intro)

lemma keeps_load_table [keeps_intro]: "keeps wrote (load_table env c s t creds)"
  unfolding load_table_def log_warning_def by (auto intro!: keeps_intro split: prod.splits)

lemma keeps_update_table [keeps_intro]:
  "keeps wrote (update_table env c s t tid etag creds v ts fname fsize mtime bf)"
  unfolding update_table_def by (auto intro!: keeps_intro)

lemma keeps_refresh_credentials [keeps_intro]: "keeps wrote (refresh_credentials env cat td)"
  unfolding refresh_credentials_def get_table_credentials_def
  by (auto intro!: keeps_intro split: prod.splits)

lemma keeps_copy_chunks [keeps_intro]: "keeps wrote (copy_chunks env src dst rs)"
  by (induction env src dst rs rule: copy_chunks.induct) (auto intro!: keeps_intro simp del: call_run)

lemma keeps_backfill_one [keeps_intro]: "keeps wrote (backfill_one env location c)"
  unfolding backfill_one_def copy_staged_commit_def by (auto intro!: keeps_intro)

lemma keeps_backfill_loop: "keeps wrote (backfill_loop env location cs wm)"
  by (induction cs arbitrary: wm)
     (auto intro!: keeps_intro simp: log_warning_def split: sum.splits option.splits)

lemma keeps_backfill_commits [keeps_intro]: "keeps wrote (backfill_commits env location cs wm)"
  unfolding backfill_commits_def by (rule keeps_backfill_loop)

lemma wrote_table:
  assumes "wrote s t"
  shows "ti_is_dirty t = ti_is_dirty s" "ti_etag t = ti_etag s"
    "ti_backfilled_version t = ti_backfilled_version s" "ti_attached t = ti_attached s"
proof -
  have "t = s\<lparr>hist := hist t\<rparr>" using assms by (simp add: wrote_def)
  then show "ti_is_dirty t = ti_is_dirty s" "ti_etag t = ti_etag s"
    "ti_backfilled_version t = ti_backfilled_version s" "ti_attached t = ti_attached s"
    by (metis table_state.select_convs world.update_convs(1) table_state.surjective)+
qed

text \<open>A computation that only makes calls leaves the table's members as they were.\<close>

lemmas same_table = wrote_table[OF wr.keepsD]

section \<open>Copying and backfilling\<close>

text \<open>The bytes that the reads of a file return up to its end, and those written to a file.\<close>

fun contents :: "bytes res list \<Rightarrow> bytes" where
  "contents (Inr (b # bs) # rs) = (b # bs) @ contents rs"
| "contents _ = []"

fun written_to :: "string \<Rightarrow> uc_call list \<Rightarrow> bytes" where
  "written_to path (WriteChunk p b # cs) = (if p = path then b else []) @ written_to path cs"
| "written_to path (_ # cs) = written_to path cs"
| "written_to path [] = []"

lemma copy_chunks_written:
  "copy_chunks env src dst rs s = (Inr u, t) \<Longrightarrow> \<exists>cs. made s t cs \<and> written_to dst cs = contents rs"
proof (induction env src dst rs arbitrary: s rule: copy_chunks.induct)
  case (1 env src dst)
  then have "made s t [ReadChunk src]" by (auto simp: made_def)
  then show ?case by (intro exI[of _ "[ReadChunk src]"]) simp
next
  case (3 env src dst buf rs)
  show ?case
  proof (cases buf)
    case Nil
    then have "made s t [ReadChunk src]" using 3 by (auto simp: made_def bind_run)
    then show ?thesis using Nil by (intro exI[of _ "[ReadChunk src]"]) simp
  next
    case (Cons b bs)
    let ?s = "s\<lparr>hist := hist s @ [ReadChunk src, WriteChunk dst buf]\<rparr>"
    have "copy_chunks env src dst rs ?s = (Inr u, t)"
      using 3(2) Cons by (auto simp: bind_run split: sum.splits)
    from 3(1)[OF _ this] Cons obtain cs where "made ?s t cs" "written_to dst cs = contents rs" by auto
    then have "made s t (ReadChunk src # WriteChunk dst buf # cs)"
      "written_to dst (ReadChunk src # WriteChunk dst buf # cs) = contents (Inr buf # rs)"
      using Cons by (auto simp: made_def)
    then show ?thesis by blast
  qed
qed simp

lemma copy_staged_commit_result:
  assumes "copy_staged_commit env src dst s = (Inr created, t)"
  shows "if created
    then \<exists>cs. made s t (OpenRead src # OpenExclusive dst # cs @ [CloseFile dst]) \<and>
           written_to dst cs = contents (e_chunks env (hist s @ [OpenRead src]))
    else made s t [OpenRead src, OpenExclusive dst]"
proof -
  let ?s = "s\<lparr>hist := hist s @ [OpenRead src, OpenExclusive dst]\<rparr>"
  have opened: "e_done env (hist s @ [OpenRead src]) = Inr ()"
    "e_open env (hist s @ [OpenRead src, OpenExclusive dst]) = Inr created"
    using assms by (auto simp: copy_staged_commit_def bind_eq_Inr split: sum.splits if_splits)
  show ?thesis
  proof (cases created)
    case False
    then show ?thesis using assms opened
      by (auto simp: copy_staged_commit_def bind_run made_def)
  next
    case True
    then obtain u s1 where c: "copy_chunks env src dst (e_chunks env (hist s @ [OpenRead src])) ?s = (Inr u, s1)"
      and t: "t = s1\<lparr>hist := hist s1 @ [CloseFile dst]\<rparr>"
      using assms opened by (auto simp: copy_staged_commit_def bind_run split: prod.splits sum.splits)
    from copy_chunks_written[OF c] obtain cs where "made ?s s1 cs"
      "written_to dst cs = contents (e_chunks env (hist s @ [OpenRead src]))" by blast
    then show ?thesis using t True by (auto simp: made_def intro!: exI[of _ cs])
  qed
qed

text \<open>
  \<open>filled env location cs s t v\<close>: between \<open>s\<close> and \<open>t\<close> a commit of \<open>cs\<close> with version \<open>v\<close> was copied to its
  place in the log, or found there.
\<close>

definition filled :: "env \<Rightarrow> string \<Rightarrow> api_commit list \<Rightarrow> 'x world_scheme \<Rightarrow> 'x world_scheme \<Rightarrow> u64 \<Rightarrow> bool" where
  "filled env location cs s t v \<longleftrightarrow>
     (\<exists>c \<in> set cs. cm_version c = v \<and>
        (\<exists>s1 created s2. wrote s s1 \<and> wrote s2 t \<and>
           copy_staged_commit env (staged_commit_path location c) (delta_commit_path location v) s1
             = (Inr created, s2)))"

lemma filled_mono: "filled env location cs s t v \<Longrightarrow> set cs \<subseteq> set ds \<Longrightarrow> wrote s' s \<Longrightarrow> filled env location ds s' t v"
  unfolding filled_def by (meson subsetD wr.R_trans)

lemma backfill_one_Inr:
  assumes "backfill_one env location c s = (Inr wm, t)"
  shows "wm = Some (cm_version c) \<and> filled env location [c] s t (cm_version c)"
proof -
  obtain b where b: "copy_staged_commit env (staged_commit_path location c) (delta_commit_path location (cm_version c)) s
      = (Inr b, t)" and wm: "wm = Some (cm_version c)"
    using assms by (auto simp: backfill_one_def bind_eq_Inr optional_idx_def split: if_splits)
  have "filled env location [c] s t (cm_version c)"
    using b wr.R_refl unfolding filled_def by (metis list.set_intros(1))
  then show ?thesis using wm by simp
qed

lemma backfill_loop_result:
  assumes "sorted (map cm_version cs)"
  shows "\<exists>wm' t. backfill_loop env location cs wm s = (Inr wm', t) \<and> wm \<le> wm' \<and>
    (\<forall>c \<in> set cs. wm < Some (cm_version c) \<longrightarrow> Some (cm_version c) \<le> wm' \<longrightarrow>
       filled env location cs s t (cm_version c))"
  using assms
proof (induction cs arbitrary: wm s)
  case (Cons c cs)
  have sorted: "sorted (map cm_version cs)" and least: "\<forall>d \<in> set cs. cm_version c \<le> cm_version d"
    using Cons.prems by auto
  show ?case
  proof (cases "\<exists>w. wm = Some w \<and> cm_version c \<le> w")
    case True
    then have run: "backfill_loop env location (c # cs) wm s = backfill_loop env location cs wm s" by auto
    have "\<not> wm < Some (cm_version c)" using True by (auto simp: less_option_def)
    moreover from Cons.IH[OF sorted, of wm s] obtain wm' t where
      "backfill_loop env location cs wm s = (Inr wm', t)" "wm \<le> wm'"
      and f: "\<forall>d \<in> set cs. wm < Some (cm_version d) \<longrightarrow> Some (cm_version d) \<le> wm' \<longrightarrow>
        filled env location cs s t (cm_version d)" by blast
    moreover have "filled env location (c # cs) s t v" if "filled env location cs s t v" for v
      by (rule filled_mono[OF that _ wr.R_refl]) auto
    ultimately show ?thesis using run by (simp del: backfill_loop.simps)
  next
    case False
    obtain r s1 where one: "backfill_one env location c s = (r, s1)" by (cases "backfill_one env location c s")
    have w: "wrote s s1" by (rule wr.keepsD[OF keeps_backfill_one one])
    show ?thesis
    proof (cases r)
      case (Inl e)
      then have "backfill_loop env location (c # cs) wm s = (Inr wm, s1\<lparr>hist := hist s1 @ [LogWarning ''api.BackfillCommits'']\<rparr>)"
        using False one by (auto simp: bind_run attempt_run log_warning_def split: option.split)
      then show ?thesis by auto
    next
      case (Inr wm1)
      then have wm1: "wm1 = Some (cm_version c)" and fc: "filled env location [c] s s1 (cm_version c)"
        using backfill_one_Inr[of env location c s wm1 s1] one by auto
      have run: "backfill_loop env location (c # cs) wm s = backfill_loop env location cs wm1 s1"
        using False one Inr by (auto simp: bind_run attempt_run split: option.split)
      from Cons.IH[OF sorted, of wm1 s1] obtain wm' t where rest: "backfill_loop env location cs wm1 s1 = (Inr wm', t)"
        "wm1 \<le> wm'" and f: "\<forall>d \<in> set cs. wm1 < Some (cm_version d) \<longrightarrow> Some (cm_version d) \<le> wm' \<longrightarrow>
          filled env location cs s1 t (cm_version d)" by blast
      have wt: "wrote s1 t" by (rule wr.keepsD[OF keeps_backfill_loop rest(1)])
      have first: "filled env location (c # cs) s t (cm_version c)"
        using fc wt unfolding filled_def by (simp, meson wr.R_trans)
      have later: "filled env location (c # cs) s t (cm_version d)" if "d \<in> set cs" "Some (cm_version d) \<le> wm'" for d
      proof (cases "cm_version d = cm_version c")
        case True
        then show ?thesis using first by simp
      next
        case False
        then have "cm_version c < cm_version d" using least that(1) by (simp add: order_le_neq_trans)
        then have "wm1 < Some (cm_version d)" by (simp add: wm1 less_option_def)
        then show ?thesis using f that w filled_mono[of env location cs s1 t _ "c # cs" s] by auto
      qed
      have "wm \<le> wm1" using False by (cases wm) (auto simp: wm1 not_le)
      then have "wm \<le> wm'" using rest(2) by (rule order.trans)
      then show ?thesis using run rest(1) first later by auto
    qed
  qed
qed simp

lemma backfill_commits_result:
  "\<exists>wm' t. backfill_commits env location cs wm s = (Inr wm', t) \<and> wm \<le> wm' \<and>
    (\<forall>c \<in> set cs. wm < Some (cm_version c) \<longrightarrow> Some (cm_version c) \<le> wm' \<longrightarrow>
       filled env location cs s t (cm_version c))"
proof -
  have f: "filled env location cs s t v" if "filled env location (sort_key cm_version cs) s t v" for t v
    by (rule filled_mono[OF that _ wr.R_refl]) simp
  from backfill_loop_result[of "sort_key cm_version cs" env location wm s] obtain wm' t where
    "backfill_commits env location cs wm s = (Inr wm', t)" "wm \<le> wm'"
    "\<forall>c \<in> set cs. wm < Some (cm_version c) \<longrightarrow> Some (cm_version c) \<le> wm' \<longrightarrow>
       filled env location (sort_key cm_version cs) s t (cm_version c)"
    by (auto simp: backfill_commits_def)
  then show ?thesis using f by blast
qed

section \<open>Attaching\<close>

text \<open>\<open>keeps_database env cat td s\<close>: the database attached in \<open>s\<close> is the one to go on with.\<close>

definition keeps_database :: "env \<Rightarrow> catalog_settings \<Rightarrow> api_table \<Rightarrow> 'x table_state_scheme \<Rightarrow> bool" where
  "keeps_database env cat td s \<longleftrightarrow> ti_attached s \<noteq> None \<and>
     (\<not> ti_is_dirty s \<or> e_open env (hist s @ [HasTransaction (attached_catalog_name cat td)]) = Inr True)"

lemma detach_if_stale_result:
  assumes "detach_if_stale env cat td s = (Inr u, t)"
  shows "ti_etag t = ti_etag s \<and> ti_backfilled_version t = ti_backfilled_version s \<and> prefix (hist s) (hist t) \<and>
    (if keeps_database env cat td s then ti_attached t = ti_attached s \<and> ti_is_dirty t = ti_is_dirty s
     else ti_attached t = None \<and> \<not> ti_is_dirty t)"
proof (cases "ti_attached s")
  case None
  then show ?thesis using assms
    by (cases "ti_is_dirty s") (auto simp: detach_if_stale_def bind_run internal_detach_def keeps_database_def)
next
  case (Some db)
  let ?h = "hist s @ [HasTransaction (attached_catalog_name cat td)]"
  obtain b where b: "e_open env ?h = Inr b"
    using assms Some by (cases "e_open env ?h") (auto simp: detach_if_stale_def bind_run)
  show ?thesis
  proof (cases "ti_is_dirty s \<and> \<not> b")
    case True
    then show ?thesis using assms Some b
      by (auto simp: detach_if_stale_def bind_run internal_detach_def keeps_database_def split: sum.splits)
  next
    case False
    then have "t = s\<lparr>hist := ?h\<rparr>" using assms Some b by (auto simp: detach_if_stale_def bind_run)
    then show ?thesis using False Some b by (auto simp: keeps_database_def)
  qed
qed

text \<open>\<open>loaded_after env cat td s r\<close>: \<open>r\<close> is what \<open>LoadTable\<close> said of the table at or after \<open>s\<close>.\<close>

definition loaded_after ::
  "env \<Rightarrow> catalog_settings \<Rightarrow> api_table \<Rightarrow> 'x table_state_scheme \<Rightarrow> commits_result \<Rightarrow> bool" where
  "loaded_after env cat td s r \<longleftrightarrow> (\<exists>(s1 :: 'x table_state_scheme) s2. prefix (hist s) (hist s1) \<and>
     load_table env (tb_catalog_name td) (tb_schema_name td) (tb_name td) (cat_credentials cat) s1 = (Inr r, s2))"

lemma loaded_after_mono:
  fixes s s1 :: "'x table_state_scheme"
  shows "loaded_after env cat td s1 r \<Longrightarrow> prefix (hist s) (hist s1) \<Longrightarrow> loaded_after env cat td s r"
  unfolding loaded_after_def by (meson prefix_order.trans)

lemma load_and_backfill_result:
  assumes "load_and_backfill env cat schema td s = (Inr info, t)"
  shows "\<exists>r. loaded_after env cat td s r \<and> info = managed_attach_info cat schema td r \<and> ti_etag t = cr_etag r \<and>
    ti_backfilled_version s \<le> ti_backfilled_version t \<and> prefix (hist s) (hist t) \<and>
    ti_is_dirty t = ti_is_dirty s \<and> ti_attached t = ti_attached s"
proof -
  obtain r s1 where load: "load_table env (tb_catalog_name td) (tb_schema_name td) (tb_name td) (cat_credentials cat) s
      = (Inr r, s1)"
    using assms by (auto simp: load_and_backfill_def bind_eq_Inr)
  let ?m = "if cat_read_only cat then ret (ti_backfilled_version s)
    else backfill_commits env (tb_storage_location td) (cr_commits r) (ti_backfilled_version s)"
  note l = wr.keepsD[OF keeps_load_table load] same_table[OF keeps_load_table load]
  have "bind ?m (\<lambda>new_wm. bind (modify (\<lambda>s. s\<lparr>ti_etag := cr_etag r, ti_backfilled_version := new_wm\<rparr>)) (\<lambda>_.
      ret (managed_attach_info cat schema td r))) s1 = (Inr info, t)"
    using assms load l by (simp add: load_and_backfill_def bind_Inr cong: if_cong)
  then obtain wm s2 where wm: "?m s1 = (Inr wm, s2)" and t: "t = s2\<lparr>ti_etag := cr_etag r, ti_backfilled_version := wm\<rparr>"
    and info: "info = managed_attach_info cat schema td r"
    by (auto simp: bind_eq_Inr split del: if_split)
  have k: "keeps wrote ?m" by (auto intro!: keeps_intro)
  note m = wr.keepsD[OF k wm] same_table[OF k wm]
  have "ti_backfilled_version s \<le> wm"
    using wm backfill_commits_result[of env "tb_storage_location td" "cr_commits r" "ti_backfilled_version s" s1]
    by (auto split: if_splits)
  moreover have "prefix (hist s) (hist t)" using l(1) m(1) t
    by (simp add: wrote_def) (meson prefix_order.trans)
  moreover have "loaded_after env cat td s r" unfolding loaded_after_def using load by blast
  ultimately show ?thesis using info t l m by auto
qed

lemma internal_attach_result:
  assumes "internal_attach env cat schema td s = (Inr u, t)"
  shows "prefix (hist s) (hist t) \<and>
    (if keeps_database env cat td s
     then ti_attached t = ti_attached s \<and> ti_is_dirty t = ti_is_dirty s \<and> ti_etag t = ti_etag s \<and>
       ti_backfilled_version t = ti_backfilled_version s
     else \<not> ti_is_dirty t \<and> ti_backfilled_version s \<le> ti_backfilled_version t \<and>
       (if is_catalog_managed td
        then \<exists>r. loaded_after env cat td s r \<and>
          ti_attached t = Some (managed_attach_info cat schema td r) \<and> ti_etag t = cr_etag r
        else ti_attached t = Some (base_attach_info cat td) \<and> ti_etag t = ti_etag s))"
proof -
  obtain v s1 where d: "detach_if_stale env cat td s = (Inr v, s1)"
    using assms by (auto simp: internal_attach_def bind_eq_Inr)
  note d1 = detach_if_stale_result[OF d]
  show ?thesis
  proof (cases "keeps_database env cat td s")
    case True
    then have "ti_attached s1 \<noteq> None" using d1 by (simp add: keeps_database_def)
    then have "t = s1" using assms d by (simp add: internal_attach_def bind_run)
    then show ?thesis using True d1 by simp
  next
    case False
    then have none: "ti_attached s1 = None" using d1 by simp
    let ?m = "if is_catalog_managed td then load_and_backfill env cat schema td else ret (base_attach_info cat td)"
    obtain info s2 where m: "?m s1 = (Inr info, s2)"
      and t: "t = s2\<lparr>hist := hist s2 @ [AttachDatabase info], ti_attached := Some info\<rparr>"
      using assms d none by (auto simp: internal_attach_def bind_eq_Inr)
    show ?thesis
    proof (cases "is_catalog_managed td")
      case False
      then show ?thesis using m t d1 \<open>\<not> keeps_database env cat td s\<close> by (auto intro: prefix_order.trans)
    next
      case True
      with m have "load_and_backfill env cat schema td s1 = (Inr info, s2)" by simp
      from load_and_backfill_result[OF this] obtain r where r: "loaded_after env cat td s1 r"
        "info = managed_attach_info cat schema td r" "ti_etag s2 = cr_etag r"
        "ti_backfilled_version s1 \<le> ti_backfilled_version s2" "prefix (hist s1) (hist s2)"
        "ti_is_dirty s2 = ti_is_dirty s1" by blast
      have "loaded_after env cat td s r" using d1 r(1) loaded_after_mono by blast
      moreover have "prefix (hist s) (hist t)" using d1 r(5) t by (auto intro: prefix_order.trans)
      ultimately show ?thesis using False True d1 r t by auto
    qed
  qed
qed

section \<open>The table as a state machine\<close>

text \<open>
  One step is one operation run to its end or to the exception that leaves it. A table starts out
  neither attached nor dirty, as \<open>LoadEntries\<close> constructs it.
\<close>

inductive table_step :: "env \<Rightarrow> catalog_settings \<Rightarrow> string \<Rightarrow> api_table \<Rightarrow> table_state \<Rightarrow> table_state \<Rightarrow> bool"
  for env cat schema td where
  attach: "internal_attach env cat schema td s = (r, t) \<Longrightarrow> table_step env cat schema td s t"
| detach: "internal_detach env cat td s = (r, t) \<Longrightarrow> table_step env cat schema td s t"
| lookup: "entry_from_delta_log env cat schema td at s = (e, t) \<Longrightarrow> table_step env cat schema td s t"
| checkpoint: "internal_checkpoint env cat schema td force s = (r, t) \<Longrightarrow> table_step env cat schema td s t"
| insert_plan: "table_plan_insert env cat schema td s = (r, t) \<Longrightarrow> table_step env cat schema td s t"
| scan: "build_delta_scan env cat schema td at s = (r, t) \<Longrightarrow> table_step env cat schema td s t"
| commit: "ccv2_commit_execute env cat td c s = (r, t) \<Longrightarrow> table_step env cat schema td s t"

definition new_table :: "table_state \<Rightarrow> bool" where
  "new_table s \<longleftrightarrow> \<not> ti_is_dirty s \<and> ti_attached s = None \<and> ti_backfilled_version s = None"

inductive reachable :: "env \<Rightarrow> catalog_settings \<Rightarrow> string \<Rightarrow> api_table \<Rightarrow> table_state \<Rightarrow> bool"
  for env cat schema td where
  init: "new_table s \<Longrightarrow> reachable env cat schema td s"
| step: "reachable env cat schema td s \<Longrightarrow> table_step env cat schema td s t \<Longrightarrow> reachable env cat schema td t"

text \<open>
  The database attached is the table's own, with the options of the kind of table it is; while it
  is not stale, the etag kept is the one of the very response it was attached with.
\<close>

definition good_database :: "catalog_settings \<Rightarrow> string \<Rightarrow> api_table \<Rightarrow> 'x table_state_scheme \<Rightarrow> bool" where
  "good_database cat schema td s \<longleftrightarrow>
     (case ti_attached s of
        None \<Rightarrow> True
      | Some info \<Rightarrow> if is_catalog_managed td
          then \<exists>r. info = managed_attach_info cat schema td r \<and> (ti_is_dirty s \<or> ti_etag s = cr_etag r)
          else info = base_attach_info cat td)"

definition progress :: "catalog_settings \<Rightarrow> string \<Rightarrow> api_table \<Rightarrow> 'x table_state_scheme \<Rightarrow> 'x table_state_scheme \<Rightarrow> bool" where
  "progress cat schema td s t \<longleftrightarrow> prefix (hist s) (hist t) \<and>
     ti_backfilled_version s \<le> ti_backfilled_version t \<and>
     (good_database cat schema td s \<longrightarrow> good_database cat schema td t)"

interpretation pg: effect_order "progress cat schema td" for cat schema td
  by unfold_locales (auto simp: progress_def intro: prefix_order.trans)

lemma wrote_progress:
  assumes "wrote s t"
  shows "progress cat schema td s t"
  unfolding progress_def good_database_def wrote_table[OF assms] using assms by (simp add: wrote_def)

lemma keeps_progress: "keeps wrote m \<Longrightarrow> keeps (progress cat schema td) m"
  by (simp add: keeps_def wrote_progress)

lemma unattached_good: "ti_attached t = None \<Longrightarrow> good_database cat schema td t"
  by (simp add: good_database_def)

lemma progress_detach: "keeps (progress cat schema td) (internal_detach env cat td)"
proof -
  have m: "keeps (progress cat schema td) (modify (ti_attached_update (\<lambda>_. None)))"
    by (simp add: keeps_def progress_def unattached_good)
  show ?thesis unfolding internal_detach_def
    by (rule pg.keeps_bind, rule pg.keeps_pure, split if_split)
       (intro conjI impI pg.keeps_pure pg.keeps_bind keeps_progress[OF call_keeps] m)
qed

lemma detach_if_stale_fails:
  assumes "detach_if_stale env cat td s = (Inl e, t)"
  shows "wrote s t"
  using assms
  by (auto simp: detach_if_stale_def bind_eq_Inl internal_detach_def wrote_def bind_run split: if_splits sum.splits)

lemma load_and_backfill_fails:
  assumes "load_and_backfill env cat schema td s = (Inl e, t)"
  shows "wrote s t"
proof -
  let ?load = "load_table env (tb_catalog_name td) (tb_schema_name td) (tb_name td) (cat_credentials cat)"
  have "?load s = (Inl e, t)"
  proof (rule ccontr)
    assume n: "?load s \<noteq> (Inl e, t)"
    then obtain r s1 where l: "?load s = (Inr r, s1)"
      using assms by (auto simp: load_and_backfill_def bind_eq_Inl)
    obtain wm s2 where "(if cat_read_only cat then ret (ti_backfilled_version s1)
        else backfill_commits env (tb_storage_location td) (cr_commits r) (ti_backfilled_version s1)) s1 = (Inr wm, s2)"
      using backfill_commits_result[of env "tb_storage_location td" "cr_commits r" "ti_backfilled_version s1" s1]
      by (cases "cat_read_only cat") auto
    then show False using assms l by (simp add: load_and_backfill_def bind_Inr)
  qed
  then show ?thesis by (rule wr.keepsD[OF keeps_load_table])
qed

lemma progress_attach: "keeps (progress cat schema td) (internal_attach env cat schema td)"
  unfolding keeps_def
proof
  fix s :: "'x table_state_scheme"
  obtain r t where run: "internal_attach env cat schema td s = (r, t)" by (cases "internal_attach env cat schema td s")
  have "progress cat schema td s t"
  proof (cases r)
    case (Inr u)
    from internal_attach_result[of env cat schema td s u t] run Inr show ?thesis
      by (auto simp: progress_def good_database_def split: if_splits option.splits)
  next
    case (Inl e)
    obtain r1 s1 where d: "detach_if_stale env cat td s = (r1, s1)" by (cases "detach_if_stale env cat td s")
    show ?thesis
    proof (cases r1)
      case (Inl e1)
      then have "t = s1" using run d by (simp add: internal_attach_def bind_Inl)
      then show ?thesis using detach_if_stale_fails[of env cat td s e1 s1] d Inl wrote_progress by blast
    next
      case (Inr u)
      note d1 = detach_if_stale_result[of env cat td s u s1]
      have none: "ti_attached s1 = None"
      proof (rule ccontr)
        assume "ti_attached s1 \<noteq> None"
        then have "r = Inr ()" using run d Inr by (simp add: internal_attach_def bind_run)
        then show False using \<open>r = Inl e\<close> by simp
      qed
      let ?m = "if is_catalog_managed td then load_and_backfill env cat schema td else ret (base_attach_info cat td)"
      obtain r2 s2 where m: "?m s1 = (r2, s2)" by (cases "?m s1")
      have s2: "progress cat schema td s1 s2 \<and> ti_attached s2 = None"
      proof (cases "is_catalog_managed td")
        case False
        then show ?thesis using m none pg.R_refl by auto
      next
        case True
        then have m': "load_and_backfill env cat schema td s1 = (r2, s2)" using m by simp
        show ?thesis
        proof (cases r2)
          case (Inl e2)
          then show ?thesis using load_and_backfill_fails[of env cat schema td s1 e2 s2] m' none
              wrote_progress wrote_table(4) by metis
        next
          case (Inr info)
          then show ?thesis using load_and_backfill_result[of env cat schema td s1 info s2] m' none
            by (auto simp: progress_def unattached_good)
        qed
      qed
      have "\<exists>cs. t = s2\<lparr>hist := hist s2 @ cs\<rparr>"
        using run d Inr m none \<open>r = Inl e\<close>
        by (cases r2) (auto simp: internal_attach_def bind_run split: sum.splits intro: exI[of _ "[]"])
      then have "wrote s2 t" by (auto simp: wrote_def)
      then have "progress cat schema td s1 t" using s2 wrote_progress pg.R_trans by blast
      moreover have "progress cat schema td s s1" using d1 d Inr none
        by (auto simp: progress_def unattached_good)
      ultimately show ?thesis using pg.R_trans by blast
    qed
  qed
  then show "progress cat schema td s (snd (internal_attach env cat schema td s))" using run by simp
qed

lemma commit_cases:
  assumes "ccv2_commit_execute env cat td c s = (x, t)"
  obtains (failed) e where "x = Inl e" "wrote s t"
  | (committed) new_etag s1 where "x = Inr ()" "wrote s s1"
      "update_table env (tb_catalog_name td) (tb_schema_name td) (tb_name td) (tb_table_id td) (ti_etag s)
         (cat_credentials cat) (st_version c) (st_timestamp c) (commit_file_name (st_file_path c))
         (st_file_size c) (st_file_modification_timestamp c) (ti_backfilled_version s) s = (Inr new_etag, s1)"
      "t = s1\<lparr>ti_is_dirty := True, ti_etag := new_etag\<rparr>"
proof -
  let ?u = "update_table env (tb_catalog_name td) (tb_schema_name td) (tb_name td) (tb_table_id td) (ti_etag s)
         (cat_credentials cat) (st_version c) (st_timestamp c) (commit_file_name (st_file_path c))
         (st_file_size c) (st_file_modification_timestamp c) (ti_backfilled_version s)"
  obtain r s1 where u: "?u s = (r, s1)" by (cases "?u s")
  have w: "wrote s s1" by (rule wr.keepsD[OF keeps_update_table u])
  show thesis
  proof (cases r)
    case (Inl e)
    then show ?thesis using assms u w failed[of e] by (auto simp: ccv2_commit_execute_def bind_run)
  next
    case (Inr new)
    then show ?thesis using assms u w committed[of s1 new] by (auto simp: ccv2_commit_execute_def bind_run mark_dirty_def)
  qed
qed

lemma progress_commit:
  assumes "ccv2_commit_execute env cat td c s = (x, t)"
  shows "progress cat schema td s t"
  using assms
proof (cases rule: commit_cases)
  case (failed e)
  then show ?thesis by (simp add: wrote_progress)
next
  case (committed new s1)
  have "good_database cat schema td s1 \<Longrightarrow> good_database cat schema td t"
    using committed(4) by (auto simp: good_database_def split: option.splits if_splits)
  then show ?thesis using wrote_progress[OF committed(2), of cat schema td] committed(4)
    by (auto simp: progress_def)
qed

lemmas progress_rules = pg.keeps_bind pg.keeps_pure progress_attach keeps_progress[OF keeps_refresh_credentials]
  keeps_progress[OF call_keeps]

lemma progress_entry: "keeps (progress cat schema td) (entry_from_delta_log env cat schema td at)"
  unfolding entry_from_delta_log_def by (intro progress_rules)

lemma progress_checkpoint: "keeps (progress cat schema td) (internal_checkpoint env cat schema td force)"
  unfolding internal_checkpoint_def by (intro progress_rules)

lemma progress_plan_insert: "keeps (progress cat schema td) (table_plan_insert env cat schema td)"
  unfolding table_plan_insert_def by (intro progress_rules)

lemma progress_scan: "keeps (progress cat schema td) (build_delta_scan env cat schema td at)"
  unfolding build_delta_scan_def by (auto intro!: progress_rules)

lemma step_progress: "table_step env cat schema td s t \<Longrightarrow> progress cat schema td s t"
  by (induction rule: table_step.induct)
     (auto intro: pg.keepsD[OF progress_attach] pg.keepsD[OF progress_detach] pg.keepsD[OF progress_entry]
       pg.keepsD[OF progress_checkpoint] pg.keepsD[OF progress_plan_insert] pg.keepsD[OF progress_scan] progress_commit)

lemma steps_progress: "(table_step env cat schema td)\<^sup>*\<^sup>* s t \<Longrightarrow> progress cat schema td s t"
  by (induction rule: rtranclp_induct) (auto intro: pg.R_refl step_progress pg.R_trans)

section \<open>Where an attach writes\<close>

definition logged :: "(uc_call \<Rightarrow> bool) \<Rightarrow> 'x world_scheme \<Rightarrow> 'x world_scheme \<Rightarrow> bool" where
  "logged P s t \<longleftrightarrow> (\<exists>cs. hist t = hist s @ cs \<and> list_all P cs)"

interpretation lg: effect_order "logged P" for P
proof
  fix s t u :: "'x world_scheme"
  show "logged P s s" by (simp add: logged_def)
  assume "logged P s t" "logged P t u"
  then show "logged P s u" by (fastforce simp: logged_def)
qed

lemma logged_call: "P c \<Longrightarrow> keeps (logged P) (call answer c)"
  by (simp add: keeps_def logged_def)

lemma logged_modify: "(\<And>s. hist (f s) = hist s) \<Longrightarrow> keeps (logged P) (modify f)"
  by (simp add: keeps_def logged_def)

text \<open>The calls that change a file system; a checkpoint, too, but no attach makes one.\<close>

fun write_scope :: "string \<Rightarrow> bool \<Rightarrow> uc_call \<Rightarrow> bool" where
  "write_scope location read_only (OpenExclusive p) = (\<not> read_only \<and> prefix (location @ ''/_delta_log/'') p)"
| "write_scope location read_only (WriteChunk p b) = (\<not> read_only \<and> prefix (location @ ''/_delta_log/'') p)"
| "write_scope location read_only (CloseFile p) = (\<not> read_only \<and> prefix (location @ ''/_delta_log/'') p)"
| "write_scope location read_only (RemoveFile p) = False"
| "write_scope location read_only (DeltaCheckpoint n f) = False"
| "write_scope location read_only (DeltaCreateTable n p opts) = False"
| "write_scope location read_only (DeltaPlanInsert n) = False"
| "write_scope location read_only c = True"

lemmas logged_rules = lg.keeps_pure lg.keeps_bind lg.keeps_attempt logged_call

lemma delta_commit_path_scope: "prefix (location @ ''/_delta_log/'') (delta_commit_path location v)"
  by (simp add: delta_commit_path_def)

lemma scope_request: "keeps (logged (write_scope loc ro)) (make_request_resp env url tok body sg tol)"
  unfolding make_request_resp_def ensure_httpfs_extension_def by (auto intro!: logged_rules)

lemma scope_request_json: "keeps (logged (write_scope loc ro)) (request_json env url tok body failed)"
  unfolding request_json_def make_request_def by (auto intro!: logged_rules scope_request)

lemma scope_copy_chunks:
  "prefix (loc @ ''/_delta_log/'') dst \<Longrightarrow> keeps (logged (write_scope loc False)) (copy_chunks env src dst rs)"
  by (induction env src dst rs rule: copy_chunks.induct) (auto intro!: logged_rules simp del: call_run)

lemma scope_backfill_one: "keeps (logged (write_scope loc False)) (backfill_one env loc c)"
  unfolding backfill_one_def copy_staged_commit_def
  by (auto intro!: logged_rules scope_copy_chunks simp: delta_commit_path_scope)

lemma scope_backfill_loop: "keeps (logged (write_scope loc False)) (backfill_loop env loc cs wm)"
  by (induction cs arbitrary: wm)
     (auto intro!: logged_rules scope_backfill_one simp: log_warning_def split: sum.splits option.splits)

lemma scope_load_and_backfill:
  "keeps (logged (write_scope (tb_storage_location td) (cat_read_only cat))) (load_and_backfill env cat schema td)"
proof -
  have "keeps (logged (write_scope loc False)) (backfill_commits env loc cs wm)" for loc cs wm
    unfolding backfill_commits_def by (rule scope_backfill_loop)
  then have b: "keeps (logged (write_scope loc ro)) (if ro then ret wm else backfill_commits env loc cs wm)" for loc ro cs wm
    by (cases ro) (auto intro: lg.keeps_pure)
  show ?thesis
    unfolding load_and_backfill_def load_table_def log_warning_def
    by (auto intro!: logged_rules scope_request_json b logged_modify split: prod.splits)
qed

lemma scope_attach:
  "keeps (logged (write_scope (tb_storage_location td) (cat_read_only cat))) (internal_attach env cat schema td)"
  unfolding internal_attach_def detach_if_stale_def internal_detach_def
  by (auto intro!: logged_rules scope_load_and_backfill logged_modify)

lemma scope_entry:
  "keeps (logged (write_scope (tb_storage_location td) (cat_read_only cat))) (entry_from_delta_log env cat schema td at)"
  unfolding entry_from_delta_log_def refresh_credentials_def get_table_credentials_def
  by (auto intro!: logged_rules scope_attach scope_request_json split: prod.splits)

lemma scope_scan:
  "keeps (logged (write_scope (tb_storage_location td) (cat_read_only cat))) (build_delta_scan env cat schema td at)"
  unfolding build_delta_scan_def refresh_credentials_def get_table_credentials_def
  by (auto intro!: logged_rules scope_attach scope_request_json split: prod.splits)

section \<open>Properties\<close>


definition settings_witness :: catalog_settings where
  "settings_witness = \<lparr>cat_name = ''uc'', cat_db_path = ''uc'', cat_read_only = False,
     cat_credentials = \<lparr>endpoint = ''e'', token = ''k'', aws_region = ''r'', use_irc_scan_plan = False,
       irc_endpoint_override = []\<rparr>\<rparr>"

definition table_witness :: api_table where
  "table_witness = \<lparr>tb_table_id = ''id'', tb_name = ''t'', tb_catalog_name = ''uc'', tb_schema_name = ''s'',
     tb_table_type = ''MANAGED'', tb_data_source_format = ''DELTA'', tb_storage_location = ''file://l'',
     tb_columns = [], tb_properties = [''delta.feature.catalogManaged'' \<mapsto> ''supported'']\<rparr>"

definition state_witness :: table_state where
  "state_witness = \<lparr>hist = [], ti_is_dirty = False, ti_etag = [], ti_backfilled_version = None, ti_attached = None\<rparr>"


text \<open>
  The backfill watermark never goes back, whatever operations run on the table and however they end.
\<close>

theorem watermark_never_goes_back:
  assumes "(table_step env cat schema td)\<^sup>*\<^sup>* s t"
  shows "ti_backfilled_version s \<le> ti_backfilled_version t"
  using steps_progress[OF assms] by (simp add: progress_def)

lemma watermark_never_goes_back_witness:
  "(None :: u64 option) \<le> Some 3 \<and> ti_backfilled_version (state_witness\<lparr>ti_backfilled_version := Some 3\<rparr>)
     \<le> ti_backfilled_version (snd (internal_detach env_witness settings_witness table_witness
          (state_witness\<lparr>ti_backfilled_version := Some 3, ti_attached := Some (base_attach_info settings_witness table_witness)\<rparr>)))"
proof -
  let ?s = "state_witness\<lparr>ti_backfilled_version := Some 3,
      ti_attached := Some (base_attach_info settings_witness table_witness)\<rparr>"
  obtain r t where d: "internal_detach env_witness settings_witness table_witness ?s = (r, t)"
    by (cases "internal_detach env_witness settings_witness table_witness ?s")
  have "(table_step env_witness settings_witness ''s'' table_witness)\<^sup>*\<^sup>* ?s t"
    using table_step.detach[OF d, of "''s''"] by (rule r_into_rtranclp)
  from watermark_never_goes_back[OF this] d show ?thesis by simp
qed

text \<open>
  C7: Backfilling leaves no gap. \<open>BackfillCommits\<close> never throws, never lowers the watermark, and every
  listed version above the old watermark and up to the new one was copied into the log in this call, or
  found there, before the watermark passed it.
\<close>

theorem backfill_leaves_no_gap:
  "case backfill_commits env location cs wm s of
     (Inl e, t) \<Rightarrow> False
   | (Inr wm', t) \<Rightarrow> wm \<le> wm' \<and>
       {v \<in> cm_version ` set cs. wm < Some v \<and> Some v \<le> wm'} \<subseteq> Collect (filled env location cs s t)"
  using backfill_commits_result[of env location cs wm s] by auto

text \<open>
  A staged commit counts as copied only as a whole: when the copy returns true, the bytes written to
  the log, between creating the file exclusively and closing it, are the bytes read up to the end of the
  staged file; when it returns false nothing was written.
\<close>

theorem staged_commit_copied_whole:
  "case copy_staged_commit env src dst s of
     (Inl e, t) \<Rightarrow> True
   | (Inr True, t) \<Rightarrow> \<exists>cs. made s t (OpenRead src # OpenExclusive dst # cs @ [CloseFile dst]) \<and>
       written_to dst cs = contents (e_chunks env (hist s @ [OpenRead src]))
   | (Inr False, t) \<Rightarrow> made s t [OpenRead src, OpenExclusive dst]"
  using copy_staged_commit_result[of env src dst s] by (auto split: prod.split sum.split bool.split)

text \<open>
  C28: Resolving a table writes nowhere but into its own Delta log, and nothing at all when the catalog was
  attached read-only: every call that creates, writes or closes a file is below the table's
  \<open>_delta_log\<close>, and no file is removed, no table created and no checkpoint made.
\<close>

theorem attach_writes_only_its_log:
  "\<exists>cs. hist (snd (entry_from_delta_log env cat schema td at s)) = hist s @ cs \<and>
     list_all (write_scope (tb_storage_location td) (cat_read_only cat)) cs"
  unfolding logged_def[symmetric] by (rule lg.keepsD[OF scope_entry]) (rule surjective_pairing)

text \<open>
  C38: A commit that fails leaves the table as it was; one that succeeds was sent with the etag and the
  watermark of one state of the table, and marks the database stale and keeps the server's new etag.
\<close>

theorem commit_is_atomic:
  "case ccv2_commit_execute env cat td c s of
     (Inl e, t) \<Rightarrow> wrote s t
   | (Inr _, t) \<Rightarrow> (\<exists>s1. update_table env (tb_catalog_name td) (tb_schema_name td) (tb_name td) (tb_table_id td)
         (ti_etag s) (cat_credentials cat) (st_version c) (st_timestamp c) (commit_file_name (st_file_path c))
         (st_file_size c) (st_file_modification_timestamp c) (ti_backfilled_version s) s = (Inr (ti_etag t), s1)) \<and>
       ti_is_dirty t \<and> ti_backfilled_version t = ti_backfilled_version s \<and> ti_attached t = ti_attached s"
proof -
  obtain x t where run: "ccv2_commit_execute env cat td c s = (x, t)" by (cases "ccv2_commit_execute env cat td c s")
  then show ?thesis
  proof (cases rule: commit_cases)
    case (failed e)
    then show ?thesis using run by simp
  next
    case (committed new s1)
    then show ?thesis using run wrote_table[OF committed(2)] by auto
  qed
qed

text \<open>
  After a commit the next attach, by a transaction that has not read the table, loads it again: the
  database it attaches carries what \<open>LoadTable\<close> said after the commit.
\<close>

theorem attach_after_commit_reloads:
  assumes "ccv2_commit_execute env cat td c s = (Inr (), s1)"
    and "internal_attach env cat schema td s1 = (Inr (), t)"
    and "is_catalog_managed td"
    and "e_open env (hist s1 @ [HasTransaction (attached_catalog_name cat td)]) = Inr False"
  shows "\<exists>r. loaded_after env cat td s1 r \<and> ti_attached t = Some (managed_attach_info cat schema td r) \<and>
    ti_etag t = cr_etag r \<and> \<not> ti_is_dirty t"
proof -
  have "ti_is_dirty s1" using assms(1) by (cases rule: commit_cases) auto
  then have "\<not> keeps_database env cat td s1" using assms(4) by (simp add: keeps_database_def)
  then show ?thesis using internal_attach_result[OF assms(2)] assms(3) by auto
qed

definition env_fresh :: env where
  "env_fresh = env_witness\<lparr>e_open := (\<lambda>_. Inr False)\<rparr>"

lemma request_json_fresh:
  "\<exists>t. request_json env_fresh url tok body failed s
     = (Inr (Some (JObj [(''status'', JStr ''submitted''), (''plan-id'', JStr ''p1'')])), t)"
  by (simp add: request_json_def make_request_def make_request_resp_def ensure_httpfs_extension_def bind_run
      env_fresh_def env_witness_def throw_on_error_def check_error_none has_error_def no_error_def)

lemma attach_after_commit_reloads_witness:
  "\<exists>s1 (t :: table_state) r. ccv2_commit_execute env_fresh settings_witness table_witness
      \<lparr>st_file_path = ''d/c.json'', st_file_size = 1, st_timestamp = 2, st_version = 3, st_file_modification_timestamp = 4\<rparr>
      state_witness = (Inr (), s1) \<and>
    loaded_after env_fresh settings_witness table_witness s1 r \<and>
    ti_attached t = Some (managed_attach_info settings_witness ''s'' table_witness r) \<and> \<not> ti_is_dirty t"
proof -
  let ?c = "\<lparr>st_file_path = ''d/c.json'', st_file_size = 1, st_timestamp = 2, st_version = 3,
      st_file_modification_timestamp = 4\<rparr>"
  have managed: "is_catalog_managed table_witness"
    by (simp add: is_catalog_managed_def has_delta_feature_def table_witness_def)
  have upd: "\<exists>t. update_table env_fresh c sc n i [] cr v ts fname fsize mtime None state_witness = (Inr [], t)"
    for c sc n i cr v ts fname fsize mtime
  proof -
    let ?b = "update_table_body env_fresh i [] v ts fname fsize mtime None"
    obtain body where "?b = Inr body" by (simp add: update_table_body_def Let_def)
    moreover obtain t where "request_json env_fresh (delta_table_url cr c sc n) (token cr) body
        (''Failed to commit to '' @ dotted c sc n) state_witness
        = (Inr (Some (JObj [(''status'', JStr ''submitted''), (''plan-id'', JStr ''p1'')])), t)"
      using request_json_fresh by blast
    ultimately show ?thesis unfolding update_table_def by (simp add: bind_Inr read_new_etag_def)
  qed
  have "\<exists>s1. ccv2_commit_execute env_fresh settings_witness table_witness ?c state_witness = (Inr (), s1) \<and>
      ti_attached s1 = None \<and> ti_is_dirty s1"
  proof -
    obtain s0 where u: "update_table env_fresh (tb_catalog_name table_witness) (tb_schema_name table_witness)
        (tb_name table_witness) (tb_table_id table_witness) [] (cat_credentials settings_witness) 3 2
        (commit_file_name ''d/c.json'') 1 4 None state_witness = (Inr [], s0)"
      using upd by blast
    then have "ti_attached s0 = None" using same_table(4)[OF keeps_update_table u] by (simp add: state_witness_def)
    moreover have "ti_etag state_witness = []" "ti_backfilled_version state_witness = None"
      by (simp_all add: state_witness_def)
    ultimately show ?thesis using u by (simp add: ccv2_commit_execute_def bind_run mark_dirty_def)
  qed
  then obtain s1 where commit: "ccv2_commit_execute env_fresh settings_witness table_witness ?c state_witness = (Inr (), s1)"
    and s1: "ti_attached s1 = None" "ti_is_dirty s1" by blast
  let ?s2 = "s1\<lparr>ti_is_dirty := False\<rparr>"
  have det: "detach_if_stale env_fresh settings_witness table_witness s1 = (Inr (), ?s2)"
    using s1 by (simp add: detach_if_stale_def bind_run internal_detach_def)
  have "\<exists>r s3. load_table env_fresh c sc n cr ?s2 = (Inr r, s3) \<and> cr_commits r = []" for c sc n cr
  proof -
    obtain s3 where "request_json env_fresh (delta_table_url cr c sc n) (token cr) []
        (''Failed to load table '' @ dotted c sc n) ?s2
        = (Inr (Some (JObj [(''status'', JStr ''submitted''), (''plan-id'', JStr ''p1'')])), s3)"
      using request_json_fresh by blast
    then show ?thesis unfolding load_table_def
      by (simp add: bind_Inr parse_load_table_def parse_metadata_def try_get_num_def templated_try_get_def Let_def
          max_commit_version_def bind_run)
  qed
  then obtain r s3 where load: "load_table env_fresh (tb_catalog_name table_witness) (tb_schema_name table_witness)
      (tb_name table_witness) (cat_credentials settings_witness) ?s2 = (Inr r, s3)" and r: "cr_commits r = []" by blast
  have "\<exists>t. internal_attach env_fresh settings_witness ''s'' table_witness s1 = (Inr (), t)"
    using det load r managed s1
    by (simp add: internal_attach_def load_and_backfill_def bind_run backfill_commits_def settings_witness_def
        env_fresh_def env_witness_def)
  then obtain t where "internal_attach env_fresh settings_witness ''s'' table_witness s1 = (Inr (), t)" by blast
  from attach_after_commit_reloads[OF commit this managed] show ?thesis
    using commit by (auto simp: env_fresh_def)
qed

text \<open>
  What the copy does with a file that is already there: it counts as backfilled, whatever it holds. A
  copy that broke off halfway left such a file, and the next backfill passes over it.
\<close>

lemma existing_file_counts_as_backfilled:
  assumes "e_done env (hist s @ [OpenRead (staged_commit_path location c)]) = Inr ()"
    and "e_open env (hist s @ [OpenRead (staged_commit_path location c),
           OpenExclusive (delta_commit_path location (cm_version c))]) = Inr False"
    and "cm_version c \<noteq> - 1"
  shows "backfill_commits env location [c] None s = (Inr (Some (cm_version c)),
     s\<lparr>hist := hist s @ [OpenRead (staged_commit_path location c), OpenExclusive (delta_commit_path location (cm_version c))]\<rparr>)"
  using assms
  by (simp add: backfill_commits_def bind_run attempt_def backfill_one_def copy_staged_commit_def optional_idx_def)

lemma broken_copy_leaves_the_file:
  assumes "e_done env (hist s @ [OpenRead src]) = Inr ()"
    and "e_chunks env (hist s @ [OpenRead src]) = [Inr [b], Inl e]"
    and "e_open env (hist s @ [OpenRead src, OpenExclusive dst]) = Inr True"
    and "e_done env (hist s @ [OpenRead src, OpenExclusive dst, ReadChunk src, WriteChunk dst [b]]) = Inr ()"
  shows "copy_staged_commit env src dst s = (Inl e, s\<lparr>hist := hist s
     @ [OpenRead src, OpenExclusive dst, ReadChunk src, WriteChunk dst [b], ReadChunk src]\<rparr>)"
  using assms by (simp add: copy_staged_commit_def bind_run)

end
