(* ===== verification/UC_Catalog.thy ===== *)
theory UC_Catalog
  imports UC_Table_Info
begin

text \<open>
  The catalog object and its transactions: the gate in front of server-side scan planning
  (\<open>ShouldTryScanPlan\<close>, \<open>MarkScanPlanAvailable\<close>, \<open>MarkScanPlanUnavailable\<close> of
  \<open>src/storage/unity_catalog.cpp\<close>), what a CREATE TABLE may say, and the table entries a transaction binds
  against (\<open>src/storage/uc_transaction.cpp\<close>, \<open>uc_transaction_manager.cpp\<close>).

  Two contracts are stated as locales. \<open>write_once\<close>: a cache whose first entry under a key stays; a
  transaction keeps reading the entry it first bound. \<open>load_once\<close>: a listing fetched at most once,
  and again after a failure; the table sets and the schema set provide it.
\<close>

section \<open>State\<close>

datatype availability = UNKNOWN_PLAN | AVAILABLE | UNAVAILABLE

datatype transaction_state = NOT_YET_STARTED | STARTED | FINISHED

record catalog_state = world +
  sp_availability :: availability
  sp_unavailable_since :: int
  tx_state :: transaction_state
  tx_entries :: "(string \<times> table_entry) list"

section \<open>The scan-plan gate\<close>

text \<open>Fifteen minutes, in milliseconds of the steady clock.\<close>

definition scan_plan_re_probe :: int where
  "scan_plan_re_probe = 15 * 60 * 1000"

definition get_irc_endpoint :: "credentials \<Rightarrow> string" where
  "get_irc_endpoint creds =
     (if irc_endpoint_override creds \<noteq> [] then irc_endpoint_override creds
      else rtrim ''/'' (endpoint creds) @ ''/api/2.1/unity-catalog/iceberg-rest'')"

definition should_try_scan_plan :: "env \<Rightarrow> credentials \<Rightarrow> ('x catalog_state_scheme, bool) io" where
  "should_try_scan_plan env creds =
     (if \<not> use_irc_scan_plan creds then ret False
      else bind (get_state sp_availability) (\<lambda>state.
        if state = UNAVAILABLE
        then bind (now env) (\<lambda>t.
             bind (get_state sp_unavailable_since) (\<lambda>since.
             if t - since < scan_plan_re_probe then ret False
             else bind (modify (sp_availability_update (\<lambda>_. UNKNOWN_PLAN))) (\<lambda>_. ret True)))
        else ret True))"

definition mark_scan_plan_available :: "('x catalog_state_scheme, unit) io" where
  "mark_scan_plan_available = modify (sp_availability_update (\<lambda>_. AVAILABLE))"

definition mark_scan_plan_unavailable :: "env \<Rightarrow> ('x catalog_state_scheme, unit) io" where
  "mark_scan_plan_unavailable env =
     bind (modify (sp_availability_update (\<lambda>_. UNAVAILABLE))) (\<lambda>_.
     bind (now env) (\<lambda>t. modify (sp_unavailable_since_update (\<lambda>_. t))))"

section \<open>CREATE TABLE options\<close>

text \<open>Nothing, or the error. The options are an unordered map; which of several is named is left open there.\<close>

fun check_options :: "(string \<times> 'e) list \<Rightarrow> uc_exn option" where
  "check_options [] = None"
| "check_options ((key, v) # options) =
     (if key = ''location'' then check_options options
      else Some (CatalogException [] (''Unrecognized option '' @ in_double_quotes key @ '' for a table in a unity_catalog catalog; ''
             @ ''CREATE TABLE takes '' @ in_double_quotes ''location'' @ '', which asks for an external table'')))"

definition supports_create_table :: "'k list \<Rightarrow> (string \<times> 'e) list \<Rightarrow> uc_exn option" where
  "supports_create_table sort_keys options =
     (if sort_keys \<noteq> []
      then Some (CatalogException [] ''SORTED BY is not supported for tables in a unity_catalog catalog'')
      else check_options options)"

section \<open>Transactions\<close>

definition tx_start :: "('x catalog_state_scheme, unit) io" where
  "tx_start = modify (tx_state_update (\<lambda>_. NOT_YET_STARTED))"

definition tx_commit :: "('x catalog_state_scheme, unit) io" where
  "tx_commit = modify (\<lambda>s. if tx_state s = STARTED then s\<lparr>tx_state := FINISHED\<rparr> else s)"

definition tx_rollback :: "('x catalog_state_scheme, unit) io" where
  "tx_rollback = modify (\<lambda>s. if tx_state s = STARTED then s\<lparr>tx_state := FINISHED\<rparr> else s)"

definition get_table_entry :: "string \<Rightarrow> ('x catalog_state_scheme, table_entry option) io" where
  "get_table_entry key = get_state (\<lambda>s. map_of (tx_entries s) key)"

definition store_entry :: "string \<Rightarrow> table_entry \<Rightarrow> 'x catalog_state_scheme \<Rightarrow> 'x catalog_state_scheme" where
  "store_entry key e s =
     (case map_of (tx_entries s) key of None \<Rightarrow> s\<lparr>tx_entries := (key, e) # tx_entries s\<rparr> | Some _ \<Rightarrow> s)"

definition set_table_entry :: "string \<Rightarrow> table_entry \<Rightarrow> ('x catalog_state_scheme, table_entry) io" where
  "set_table_entry key e =
     bind (modify (store_entry key e)) (\<lambda>_. get_state (\<lambda>s. the (map_of (tx_entries s) key)))"

text \<open>\<open>StartTransaction\<close>, \<open>CommitTransaction\<close> and \<open>RollbackTransaction\<close>, for the transaction in hand: a new
  one has no entries, and they go with the transaction that ends.\<close>

definition start_transaction :: "('x catalog_state_scheme, unit) io" where
  "start_transaction = bind (modify (tx_entries_update (\<lambda>_. []))) (\<lambda>_. tx_start)"

definition commit_transaction :: "('x catalog_state_scheme, unit) io" where
  "commit_transaction = bind tx_commit (\<lambda>_. modify (tx_entries_update (\<lambda>_. [])))"

definition rollback_transaction :: "('x catalog_state_scheme, unit) io" where
  "rollback_transaction = bind tx_rollback (\<lambda>_. modify (tx_entries_update (\<lambda>_. [])))"

definition manager_checkpoint :: "('x catalog_state_scheme, unit) io" where
  "manager_checkpoint = throw (NotImplementedException (''Unsupported: CHECKPOINT <catalog> unsupported in unity_catalog; ''
     @ ''please use function unity_catalog_checkpoint_table() for per-table checkpoints.''))"

section \<open>A write-once cache\<close>

locale write_once =
  fixes find_entry :: "'s \<Rightarrow> 'k \<Rightarrow> 'v option"
    and store :: "'k \<Rightarrow> 'v \<Rightarrow> 's \<Rightarrow> 's"
  assumes store_new: "find_entry s k = None \<Longrightarrow> find_entry (store k v s) k = Some v"
    and store_taken: "find_entry s k = Some w \<Longrightarrow> store k v s = s"
    and store_other: "j \<noteq> k \<Longrightarrow> find_entry (store k v s) j = find_entry s j"
begin

lemma store_find: "find_entry (store k v s) k = Some (case find_entry s k of None \<Rightarrow> v | Some w \<Rightarrow> w)"
  by (cases "find_entry s k") (simp_all add: store_new store_taken)

lemma store_keeps: "find_entry s j = Some w \<Longrightarrow> find_entry (store k v s) j = Some w"
  by (cases "j = k") (simp_all add: store_taken store_other)

text \<open>However many entries are stored afterwards, the first under a key is the one that is found.\<close>

lemma first_wins:
  "find_entry s j = Some w \<Longrightarrow> find_entry (fold (\<lambda>(k, v). store k v) kvs s) j = Some w"
  by (induction kvs arbitrary: s) (auto simp: store_keeps split: prod.splits)

lemma stored_stays:
  "find_entry (fold (\<lambda>(k, v). store k v) kvs (store k v s)) k = find_entry (store k v s) k"
  using first_wins[of "store k v s" k _ kvs] by (simp add: store_find)

end

interpretation tc: write_once "\<lambda>s :: 'x catalog_state_scheme. map_of (tx_entries s)" store_entry
  by unfold_locales (auto simp: store_entry_def split: option.splits)

lemma set_table_entry_run:
  "set_table_entry key e s =
     (Inr (case map_of (tx_entries s) key of None \<Rightarrow> e | Some w \<Rightarrow> w), store_entry key e s)"
  by (simp add: set_table_entry_def bind_run tc.store_find)

section \<open>Loading once\<close>

definition load_if_needed :: "('s \<Rightarrow> bool) \<Rightarrow> ('s \<Rightarrow> 's) \<Rightarrow> ('s, unit) io \<Rightarrow> ('s, unit) io" where
  "load_if_needed loaded set_loaded load =
     bind (get_state loaded) (\<lambda>l. if l then ret () else bind load (\<lambda>_. modify set_loaded))"

locale load_once =
  fixes loaded :: "'s \<Rightarrow> bool"
    and set_loaded :: "'s \<Rightarrow> 's"
    and clear :: "'s \<Rightarrow> 's"
    and load :: "('s, unit) io"
  assumes loaded_set: "loaded (set_loaded s)"
    and loaded_clear: "\<not> loaded (clear s)"
    and load_flag: "loaded (snd (load s)) = loaded s"
begin

definition ensure :: "('s, unit) io" where
  "ensure = load_if_needed loaded set_loaded load"

lemma ensure_loaded: "loaded s \<Longrightarrow> ensure s = (Inr (), s)"
  by (simp add: ensure_def load_if_needed_def bind_run)

lemma ensure_Inr: "ensure s = (Inr u, t) \<Longrightarrow> loaded t"
  by (auto simp: ensure_def load_if_needed_def bind_eq_Inr loaded_set split: if_splits)

lemma ensure_twice: "ensure s = (Inr u, t) \<Longrightarrow> ensure t = (Inr (), t)"
  by (rule ensure_loaded[OF ensure_Inr])

text \<open>A load that throws is not remembered: the next attempt loads again.\<close>

lemma ensure_Inl:
  assumes "ensure s = (Inl e, t)"
  shows "\<not> loaded t \<and> load s = (Inl e, t)"
proof -
  have "\<not> loaded s" using assms ensure_loaded[of s] by auto
  then have "load s = (Inl e, t)" using assms
    by (auto simp: ensure_def load_if_needed_def bind_eq_Inl)
  then show ?thesis using load_flag[of s] \<open>\<not> loaded s\<close> by simp
qed

lemma ensure_after_clear: "ensure (clear s) = bind load (\<lambda>_. modify set_loaded) (clear s)"
  using loaded_clear by (simp add: ensure_def load_if_needed_def bind_run)

end

section \<open>Properties\<close>

text \<open>
  After a failed plan request the gate stays shut for exactly the re-probe window: the next scan tries
  planning again if and only if fifteen minutes of the steady clock have passed since, and until then
  the catalog stays marked; without the opt-in nothing is asked.
\<close>

theorem gate_shut_for_the_window:
  "case bind (mark_scan_plan_unavailable env) (\<lambda>_. should_try_scan_plan env creds) s of
     (Inl e, t) \<Rightarrow> False
   | (Inr again, t) \<Rightarrow>
       again = (use_irc_scan_plan creds \<and>
         15 * 60 * 1000 \<le> e_now env (hist s @ [Now, Now]) - e_now env (hist s @ [Now])) \<and>
       sp_availability t = (if again then UNKNOWN_PLAN else UNAVAILABLE)"
  by (simp add: mark_scan_plan_unavailable_def should_try_scan_plan_def now_def bind_run scan_plan_re_probe_def)

text \<open>
  A transaction keeps the entry it first bound a table to: whatever is stored afterwards, under this
  key or another, a later lookup returns what the first \<open>SetTableEntry\<close> returned.
\<close>

theorem transaction_reads_one_version:
  "fst (get_table_entry key (fold (\<lambda>(k, e). store_entry k e) later (snd (set_table_entry key e s))))
     = Inr (Some (case map_of (tx_entries s) key of None \<Rightarrow> e | Some w \<Rightarrow> w)) \<and>
   fst (set_table_entry key e s) = Inr (case map_of (tx_entries s) key of None \<Rightarrow> e | Some w \<Rightarrow> w)"
  by (simp add: get_table_entry_def set_table_entry_run tc.stored_stays tc.store_find)

text \<open>
  CREATE TABLE is accepted exactly without SORTED BY and with no option but \<open>location\<close>.
\<close>

theorem create_table_options:
  "(supports_create_table sort_keys options = None) = (sort_keys = [] \<and> fst ` set options \<subseteq> {''location''})"
proof -
  have "(check_options options = None) = (fst ` set options \<subseteq> {''location''})"
    by (induction options rule: check_options.induct) auto
  then show ?thesis by (simp add: supports_create_table_def)
qed

datatype tx_op = StartTx | CommitTx | RollbackTx

fun run_tx :: "tx_op \<Rightarrow> 'x catalog_state_scheme \<Rightarrow> 'x catalog_state_scheme" where
  "run_tx StartTx s = snd (start_transaction s)"
| "run_tx CommitTx s = snd (commit_transaction s)"
| "run_tx RollbackTx s = snd (rollback_transaction s)"

lemma run_tx_state: "tx_state s = NOT_YET_STARTED \<Longrightarrow> tx_state (run_tx op s) = NOT_YET_STARTED"
  by (cases op) (simp_all add: start_transaction_def commit_transaction_def rollback_transaction_def
      tx_start_def tx_commit_def tx_rollback_def bind_run)

lemma run_txs_state: "tx_state s = NOT_YET_STARTED \<Longrightarrow> tx_state (fold run_tx ops s) = NOT_YET_STARTED"
  by (induction ops arbitrary: s) (auto simp: run_tx_state)

text \<open>
  A transaction never counts as started: over any sequence of starts, commits and rollbacks its state
  stays the initial one, so the state changes of commit and rollback are never taken.
\<close>

theorem transaction_never_starts:
  "tx_state (fold run_tx ops (snd (start_transaction s))) = NOT_YET_STARTED"
  by (rule run_txs_state) (simp add: start_transaction_def tx_start_def bind_run)

end
