(* ===== verification/UC_Table_Set.thy ===== *)
theory UC_Table_Set
  imports UC_Catalog "HOL-Library.AList"
begin

text \<open>
  \<open>UCTableSet\<close> and the lookup of a table (\<open>src/storage/uc_table_set.cpp\<close>): the tables of one schema, listed
  once and kept over reloads, and \<open>GetVersion\<close>, which decides what a query binds against: the
  catalog's report, the entry this transaction already bound, or the Delta log.

  The map of tables is case-insensitive, so its keys are lower-cased names; the order in which the code
  walks it is left open there and is the order of insertion here. \<open>on_table\<close> runs an operation of
  \<open>UC_Table_Info\<close> on one table of the set. The table set is an instance of the locale \<open>load_once\<close>.
\<close>

section \<open>State\<close>

record table_info =
  tf_data :: api_table
  tf_is_dirty :: bool
  tf_etag :: string
  tf_backfilled_version :: "u64 option"
  tf_attached :: "attach_info option"
  tf_reported :: "table_entry option"
  tf_unreadable :: "(string \<times> string) list"

record set_state = catalog_state +
  us_tables :: "(string \<times> table_info) list"
  us_is_loaded :: bool

definition enter_table :: "table_info \<Rightarrow> uc_call list \<Rightarrow> table_state" where
  "enter_table ti h = \<lparr>hist = h, ti_is_dirty = tf_is_dirty ti, ti_etag = tf_etag ti,
     ti_backfilled_version = tf_backfilled_version ti, ti_attached = tf_attached ti\<rparr>"

definition leave_table :: "table_info \<Rightarrow> table_state \<Rightarrow> table_info" where
  "leave_table ti t = ti\<lparr>tf_is_dirty := ti_is_dirty t, tf_etag := ti_etag t,
     tf_backfilled_version := ti_backfilled_version t, tf_attached := ti_attached t\<rparr>"

definition on_table :: "string \<Rightarrow> (table_state, 'a) io \<Rightarrow> ('x set_state_scheme, 'a) io" where
  "on_table k m = (\<lambda>s. case map_of (us_tables s) k of
     None \<Rightarrow> (Inl (InternalException ''no such table''), s)
   | Some ti \<Rightarrow> (case m (enter_table ti (hist s)) of
       (r, t) \<Rightarrow> (r, s\<lparr>hist := hist t, us_tables := AList.update k (leave_table ti t) (us_tables s)\<rparr>)))"

section \<open>Listing the tables\<close>

text \<open>A column of the report: its type, or UNKNOWN and what the catalog called it.\<close>

definition create_column_definition ::
  "env \<Rightarrow> column_definition \<Rightarrow> ('x world_scheme, (string \<times> logical_type) \<times> (string \<times> string) list) io" where
  "create_column_definition env coldef =
     (case column_type_from_definition (e_read env) (e_cast_u8 env) coldef of
        Inr t \<Rightarrow> ret ((col_name coldef, t), [])
      | Inl e \<Rightarrow> bind (log_warning ''schema.Describe'') (\<lambda>_.
          ret ((col_name coldef, OtherType ''UNKNOWN''), [(col_name coldef, type_text coldef)])))"

text \<open>\<open>ColumnList::AddColumn\<close> refuses a name it has, in any case of letters.\<close>

fun add_columns :: "(string \<times> 'a) list \<Rightarrow> (string \<times> 'a) list \<Rightarrow> (string \<times> 'a) list res" where
  "add_columns done_cols [] = Inr done_cols"
| "add_columns done_cols (c # cs) =
     (if lower (fst c) \<in> (\<lambda>d. lower (fst d)) ` set done_cols
      then Inl (CatalogException [] (''Column with name '' @ fst c @ '' already exists!''))
      else add_columns (done_cols @ [c]) cs)"

definition sort_columns :: "api_table \<Rightarrow> api_table" where
  "sort_columns table = table\<lparr>tb_columns := sort_key col_position (tb_columns table)\<rparr>"

fun create_columns ::
  "env \<Rightarrow> column_definition list \<Rightarrow> (string \<times> logical_type) list \<Rightarrow> (string \<times> string) list
    \<Rightarrow> ('x world_scheme, (string \<times> logical_type) list \<times> (string \<times> string) list) io" where
  "create_columns env [] cols unreadable = ret (cols, unreadable)"
| "create_columns env (c # cs) cols unreadable =
     bind (create_column_definition env c) (\<lambda>(col, bad).
     bind (lift_res (add_columns cols [col])) (\<lambda>cols'.
     create_columns env cs cols' (unreadable @ bad)))"

definition new_table_info :: "api_table \<Rightarrow> (string \<times> logical_type) list \<Rightarrow> (string \<times> string) list \<Rightarrow> table_info" where
  "new_table_info table cols unreadable =
     \<lparr>tf_data = table, tf_is_dirty = False, tf_etag = [], tf_backfilled_version = None, tf_attached = None,
      tf_reported = Some \<lparr>en_name = tb_name table, en_columns = cols\<rparr>, tf_unreadable = unreadable\<rparr>"

definition load_entry :: "env \<Rightarrow> api_table \<Rightarrow> ('x set_state_scheme, unit) io" where
  "load_entry env table0 =
     (let table = sort_columns table0 in
     bind (create_columns env (tb_columns table) [] []) (\<lambda>(cols, unreadable).
     if tb_name table = [] then throw (InternalException ''UCTableSet::CreateEntry called with empty name'')
     else bind (get_state us_tables) (\<lambda>ts.
       if map_of ts (lower (tb_name table)) \<noteq> None then ret ()
       else modify (\<lambda>s. s\<lparr>us_tables := us_tables s
              @ [(lower (tb_name table), new_table_info table cols unreadable)]\<rparr>))))"

fun load_entry_list :: "env \<Rightarrow> api_table list \<Rightarrow> ('x set_state_scheme, unit) io" where
  "load_entry_list env [] = ret ()"
| "load_entry_list env (t # ts) = bind (load_entry env t) (\<lambda>_. load_entry_list env ts)"

definition load_entries :: "env \<Rightarrow> catalog_settings \<Rightarrow> string \<Rightarrow> ('x set_state_scheme, unit) io" where
  "load_entries env cat schema =
     bind (get_tables env (cat_db_path cat) schema (cat_credentials cat)) (load_entry_list env)"

definition ensure_tables_loaded :: "env \<Rightarrow> catalog_settings \<Rightarrow> string \<Rightarrow> ('x set_state_scheme, unit) io" where
  "ensure_tables_loaded env cat schema =
     load_if_needed us_is_loaded (us_is_loaded_update (\<lambda>_. True)) (load_entries env cat schema)"

definition mark_needs_reload :: "('x set_state_scheme, unit) io" where
  "mark_needs_reload = modify (us_is_loaded_update (\<lambda>_. False))"

definition clear_table_entries :: "('x set_state_scheme, unit) io" where
  "clear_table_entries = modify (\<lambda>s. s\<lparr>us_tables := [], us_is_loaded := False\<rparr>)"

section \<open>Time travel\<close>

text \<open>An AT clause: its unit and its value, as the casts the code makes of it read it.\<close>

record at_clause =
  at_unit :: string
  at_as_version :: "u64 res"
  at_as_epoch_ms :: "i64 res"

definition at_clause_key_suffix :: "at_clause \<Rightarrow> string res" where
  "at_clause_key_suffix at =
     (if at_unit at = ''version'' then bind_res (at_as_version at) (\<lambda>v. Inr (''@'' @ show_nat (unat v)))
      else if at_unit at = ''timestamp''
      then bind_res (at_as_epoch_ms at) (\<lambda>ms. Inr (''@ts:'' @ show_int (sint ms)))
      else Inl (InvalidConfigurationException
             (''Delta tables only support at_clause with unit ''
             @ in_quotes ''version'' @ '' or '' @ in_quotes ''timestamp'')))"

definition entry_key :: "string \<Rightarrow> api_table \<Rightarrow> at_clause option \<Rightarrow> string res" where
  "entry_key schema td at =
     (let key = schema @ ''.'' @ tb_name td
      in case at of None \<Rightarrow> Inr key | Some a \<Rightarrow> bind_res (at_clause_key_suffix a) (\<lambda>s. Inr (key @ s)))"

section \<open>What a query binds against\<close>

fun same_column_list :: "(string \<times> logical_type) list \<Rightarrow> (string \<times> logical_type) list \<Rightarrow> bool" where
  "same_column_list [] [] = True"
| "same_column_list (l # ls) (r # rs) =
     (if fst l \<noteq> fst r \<or> snd l \<noteq> snd r then False else same_column_list ls rs)"
| "same_column_list _ _ = True"

definition same_columns :: "table_entry \<Rightarrow> table_entry \<Rightarrow> bool" where
  "same_columns left right =
     (if length (en_columns left) \<noteq> length (en_columns right) then False
      else same_column_list (en_columns left) (en_columns right))"

definition warn_on_schema_divergence :: "table_entry \<Rightarrow> table_entry \<Rightarrow> ('x world_scheme, unit) io" where
  "warn_on_schema_divergence reported resolved =
     (if same_columns reported resolved then ret () else log_warning ''schema.Resolve'')"

text \<open>Whether the report is bound against: a planned scan, or no Delta log to read.\<close>

definition reads_report :: "env \<Rightarrow> catalog_settings \<Rightarrow> table_info \<Rightarrow> ('x catalog_state_scheme, bool) io" where
  "reads_report env cat ti =
     (if tf_reported ti = None then ret False
      else bind (if scan_plan_can_read (tf_data ti) then should_try_scan_plan env (cat_credentials cat) else ret False)
        (\<lambda>planned. ret (planned \<or> tb_data_source_format (tf_data ti) \<noteq> ''DELTA'')))"

text \<open>What \<open>GetVersion\<close> makes of the Delta log's answer: the report when the log has no schema yet.\<close>

definition bind_resolved ::
  "table_info \<Rightarrow> string \<Rightarrow> table_entry option \<Rightarrow> ('x set_state_scheme, table_entry option) io" where
  "bind_resolved ti key entry =
     (case entry of
         None \<Rightarrow> (case tf_reported ti of
             None \<Rightarrow> throw (no_delta_table (tf_data ti))
           | Some reported \<Rightarrow>
               bind (lift_res (throw_if_unreadable_columns (tf_data ti) (tf_unreadable ti))) (\<lambda>_.
               bind (log_warning ''schema.Resolve'') (\<lambda>_. ret (Some reported))))
       | Some e \<Rightarrow>
           bind (case tf_reported ti of None \<Rightarrow> ret () | Some reported \<Rightarrow> warn_on_schema_divergence reported e) (\<lambda>_.
           bind (set_table_entry key e) (\<lambda>stored. ret (Some stored))))"

definition get_latest ::
  "env \<Rightarrow> catalog_settings \<Rightarrow> string \<Rightarrow> string \<Rightarrow> table_info \<Rightarrow> ('x set_state_scheme, table_entry option) io" where
  "get_latest env cat schema k ti =
     bind (reads_report env cat ti) (\<lambda>report.
     if report
     then bind (lift_res (throw_if_unreadable_columns (tf_data ti) (tf_unreadable ti))) (\<lambda>_. ret (tf_reported ti))
     else bind (lift_res (entry_key schema (tf_data ti) None)) (\<lambda>key.
       bind (get_table_entry key) (\<lambda>bound.
       if bound \<noteq> None then ret bound
       else bind (on_table k (entry_from_delta_log env cat schema (tf_data ti) [])) (bind_resolved ti key))))"

definition get_at ::
  "env \<Rightarrow> catalog_settings \<Rightarrow> string \<Rightarrow> string \<Rightarrow> table_info \<Rightarrow> at_clause \<Rightarrow> ('x set_state_scheme, table_entry option) io" where
  "get_at env cat schema k ti at =
     bind (lift_res (entry_key schema (tf_data ti) (Some at))) (\<lambda>key.
     bind (get_table_entry key) (\<lambda>bound.
     if bound \<noteq> None then ret bound
     else bind (lift_res (at_clause_key_suffix at)) (\<lambda>sfx.
       bind (on_table k (entry_from_delta_log env cat schema (tf_data ti) sfx)) (\<lambda>entry.
       case entry of
         None \<Rightarrow> throw (no_delta_table (tf_data ti))
       | Some e \<Rightarrow> bind (set_table_entry key e) (\<lambda>stored. ret (Some stored))))))"

definition get_version ::
  "env \<Rightarrow> catalog_settings \<Rightarrow> string \<Rightarrow> string \<Rightarrow> table_info \<Rightarrow> at_clause option
    \<Rightarrow> ('x set_state_scheme, table_entry option) io" where
  "get_version env cat schema k ti at =
     bind (lift_res (throw_if_interval_columns (tf_data ti))) (\<lambda>_.
     case at of None \<Rightarrow> get_latest env cat schema k ti | Some a \<Rightarrow> get_at env cat schema k ti a)"

definition get_entry ::
  "env \<Rightarrow> catalog_settings \<Rightarrow> string \<Rightarrow> string \<Rightarrow> at_clause option \<Rightarrow> ('x set_state_scheme, table_entry option) io" where
  "get_entry env cat schema name at =
     bind (ensure_tables_loaded env cat schema) (\<lambda>_.
     bind (get_state us_tables) (\<lambda>ts.
     case map_of ts (lower name) of
       None \<Rightarrow> ret None
     | Some ti \<Rightarrow> get_version env cat schema (lower name) ti at))"

section \<open>The other operations of the set\<close>

definition scan_tables :: "env \<Rightarrow> catalog_settings \<Rightarrow> string \<Rightarrow> ('x set_state_scheme, table_entry option list) io" where
  "scan_tables env cat schema =
     bind (ensure_tables_loaded env cat schema) (\<lambda>_.
     get_state (\<lambda>s. map (\<lambda>(k, ti). tf_reported ti) (us_tables s)))"

definition checkpoint_table ::
  "env \<Rightarrow> catalog_settings \<Rightarrow> string \<Rightarrow> string \<Rightarrow> bool \<Rightarrow> ('x set_state_scheme, unit) io" where
  "checkpoint_table env cat schema name force =
     bind (ensure_tables_loaded env cat schema) (\<lambda>_.
     bind (get_state us_tables) (\<lambda>ts.
     case map_of ts (lower name) of
       None \<Rightarrow> throw (InvalidInputException (''Table '' @ in_quotes name @ '' not found''))
     | Some ti \<Rightarrow> on_table (lower name) (internal_checkpoint env cat schema (tf_data ti) force)))"

fun detach_tables :: "env \<Rightarrow> catalog_settings \<Rightarrow> (string \<times> table_info) list \<Rightarrow> ('x set_state_scheme, unit) io" where
  "detach_tables env cat [] = ret ()"
| "detach_tables env cat ((k, ti) # ts) =
     bind (on_table k (internal_detach env cat (tf_data ti))) (\<lambda>_. detach_tables env cat ts)"

definition tables_on_detach :: "env \<Rightarrow> catalog_settings \<Rightarrow> ('x set_state_scheme, unit) io" where
  "tables_on_detach env cat = bind (get_state us_tables) (detach_tables env cat)"

definition drop_table_entry :: "('x set_state_scheme, unit) io" where
  "drop_table_entry = throw (NotImplementedException ''UCTableSet::DropEntry'')"

definition alter_table :: "('x set_state_scheme, unit) io" where
  "alter_table = throw (NotImplementedException ''UCTableSet::AlterTable'')"

section \<open>What loading leaves alone\<close>

text \<open>
  \<open>extends_set s t\<close>: the tables of \<open>s\<close> are in \<open>t\<close> as they were, and of the rest only the calls differ.
\<close>

definition extends_set :: "'x set_state_scheme \<Rightarrow> 'x set_state_scheme \<Rightarrow> bool" where
  "extends_set s t \<longleftrightarrow> us_is_loaded t = us_is_loaded s \<and> tx_entries t = tx_entries s \<and>
     sp_availability t = sp_availability s \<and> prefix (hist s) (hist t) \<and>
     (\<exists>new. us_tables t = us_tables s @ new)"

interpretation ex: effect_order extends_set
  by unfold_locales (auto simp: extends_set_def intro: prefix_order.trans)

lemma wrote_extends:
  assumes "wrote s t"
  shows "extends_set s t"
proof -
  obtain h where "t = s\<lparr>hist := h\<rparr>" "prefix (hist s) h" using assms by (auto simp: wrote_def)
  then show ?thesis by (simp add: extends_set_def)
qed

lemma keeps_extends: "keeps wrote m \<Longrightarrow> keeps extends_set m"
  by (simp add: keeps_def wrote_extends)

lemma keeps_create_column [keeps_intro]: "keeps wrote (create_column_definition env c)"
  unfolding create_column_definition_def log_warning_def by (auto intro!: keeps_intro split: sum.split)

lemma keeps_create_columns [keeps_intro]: "keeps wrote (create_columns env cs cols bad)"
  by (induction cs arbitrary: cols bad) (auto intro!: keeps_intro split: prod.split)

lemma extends_load_entry: "keeps extends_set (load_entry env table)"
proof -
  have m: "keeps extends_set (modify (\<lambda>s. s\<lparr>us_tables := us_tables s @ [e]\<rparr>))" for e
    by (simp add: keeps_def extends_set_def)
  show ?thesis unfolding load_entry_def Let_def
    by (intro ex.keeps_bind keeps_extends[OF keeps_create_columns])
       (auto intro!: ex.keeps_pure ex.keeps_bind m split: prod.split)
qed

lemma extends_load_entry_list: "keeps extends_set (load_entry_list env ts)"
  by (induction ts) (auto intro!: ex.keeps_pure ex.keeps_bind extends_load_entry simp del: run_simps)

lemma extends_load_entries: "keeps extends_set (load_entries env cat schema)"
  unfolding load_entries_def get_tables_def make_request_def
  by (intro ex.keeps_bind ex.keeps_pure keeps_extends[OF keeps_make_request_resp] extends_load_entry_list)

interpretation tl: load_once us_is_loaded "us_is_loaded_update (\<lambda>_. True)"
    "\<lambda>s. s\<lparr>us_tables := [], us_is_loaded := False\<rparr>" "load_entries env cat schema" for env cat schema
  by unfold_locales (use extends_load_entries in \<open>auto simp: keeps_def extends_set_def\<close>)

lemma ensure_tables_loaded_eq: "ensure_tables_loaded env cat schema = tl.ensure env cat schema"
  by (simp add: ensure_tables_loaded_def tl.ensure_def)

section \<open>One table of the set\<close>

lemma on_table_run:
  assumes "on_table k m s = (r, t)" and "map_of (us_tables s) k = Some ti"
  shows "\<exists>u. m (enter_table ti (hist s)) = (r, u) \<and> hist t = hist u \<and> tx_entries t = tx_entries s \<and>
    us_is_loaded t = us_is_loaded s \<and> map_of (us_tables t) k = Some (leave_table ti u) \<and>
    (\<forall>j. j \<noteq> k \<longrightarrow> map_of (us_tables t) j = map_of (us_tables s) j)"
  using assms by (auto simp: on_table_def update_conv split: prod.splits)

lemma same_column_list_eq:
  "length ls = length rs \<Longrightarrow> same_column_list ls rs = (ls = rs)"
  by (induction ls rs rule: same_column_list.induct) (auto simp: prod_eq_iff)

lemma same_columns_eq: "same_columns l r = (en_columns l = en_columns r)"
  by (auto simp: same_columns_def same_column_list_eq)

section \<open>Intervals\<close>

definition interval_at :: "string \<Rightarrow> nat \<Rightarrow> bool" where
  "interval_at s i \<longleftrightarrow> (\<exists>u \<in> set interval_units. prefix (''interval '' @ u) (drop i s))"

lemma prefix_append_drop:
  assumes "prefix xs (drop i s)"
  shows "prefix (xs @ ys) (drop i s) = prefix ys (drop (i + length xs) s)"
proof -
  obtain zs where zs: "drop i s = xs @ zs" using assms by (auto simp: prefix_def)
  have "drop (i + length xs) s = drop (length xs) (drop i s)" by (simp add: add.commute)
  then have "drop (i + length xs) s = zs" using zs by simp
  then show ?thesis using zs by simp
qed

lemma interval_at_prefix: "interval_at s i \<Longrightarrow> prefix ''interval '' (drop i s)"
  unfolding interval_at_def by (elim bexE) (rule append_prefixD)

lemma map_option_add_0: "map_option ((+) (0 :: nat)) x = x"
  by (cases x) simp_all

lemma has_interval_from_iff:
  assumes "pos = find_from ''interval '' s start"
  shows "has_interval_from s pos = (\<exists>i \<ge> start. interval_at s i)"
  using assms
proof (induction s pos arbitrary: start rule: has_interval_from.induct)
  case (1 s)
  have "\<not> interval_at s i" if "start \<le> i" for i
  proof
    assume "interval_at s i"
    then have p: "prefix ''interval '' (drop i s)" by (rule interval_at_prefix)
    then have "i \<le> length s" by (cases "i \<le> length s") auto
    then show False using find_from_NoneD[OF 1[symmetric] that] p by blast
  qed
  then show ?case by auto
next
  case (2 s pos)
  note f = find_from_SomeD[OF 2(2)[symmetric]]
  have len: "\<not> length s < pos + 9" using prefix_length_le[OF f(3)] f(2) by simp
  have here: "list_ex (\<lambda>u. prefix u (drop (pos + 9) s)) interval_units = interval_at s pos"
    unfolding interval_at_def list_ex_iff using prefix_append_drop[OF f(3)]
    by (simp add: numeral_eq_Suc)
  have skip: "\<not> interval_at s i" if "start \<le> i" "i < pos" for i
    using f(4)[OF that] interval_at_prefix by blast
  show ?case
  proof (cases "interval_at s pos")
    case True
    then show ?thesis using len here f(1) by auto
  next
    case False
    have "has_interval_from s (Some pos) = has_interval_from s (find_from ''interval '' s (pos + 1))"
      using len here False by simp
    also have "\<dots> = (\<exists>i \<ge> pos + 1. interval_at s i)" using 2(1)[OF len] here False by simp
    also have "\<dots> = (\<exists>i \<ge> start. interval_at s i)"
      using False skip f(1) by (metis Suc_eq_plus1 Suc_le_eq leI le_neq_implies_less order.trans less_imp_le)
    finally show ?thesis .
  qed
qed

lemma type_text_has_interval_iff:
  "type_text_has_interval text = (\<exists>i. interval_at (lower text) i)"
  using has_interval_from_iff[of "find_sub ''interval '' (lower text)" "lower text" 0]
  by (simp add: type_text_has_interval_def find_from_def map_option_add_0)

section \<open>The report of a table\<close>

definition readable :: "env \<Rightarrow> column_definition \<Rightarrow> bool" where
  "readable env c = (\<not> isl (column_type_from_definition (e_read env) (e_cast_u8 env) c))"

definition reported_type :: "env \<Rightarrow> column_definition \<Rightarrow> logical_type" where
  "reported_type env c = (case column_type_from_definition (e_read env) (e_cast_u8 env) c of
     Inr t \<Rightarrow> t | Inl _ \<Rightarrow> OtherType ''UNKNOWN'')"

lemma create_column_result:
  "create_column_definition env c s = (Inr r, t) \<Longrightarrow>
     r = ((col_name c, reported_type env c), if readable env c then [] else [(col_name c, type_text c)])"
  by (auto simp: create_column_definition_def reported_type_def readable_def bind_run log_warning_def
      split: sum.splits)

lemma add_one_column: "add_columns cols [c] = Inr cols' \<Longrightarrow> cols' = cols @ [c]"
  by (auto split: if_splits)

lemma create_columns_result:
  "create_columns env cs cols bad s = (Inr r, t) \<Longrightarrow>
     r = (cols @ map (\<lambda>c. (col_name c, reported_type env c)) cs,
          bad @ map (\<lambda>c. (col_name c, type_text c)) (filter (\<lambda>c. \<not> readable env c) cs))"
proof (induction cs arbitrary: cols bad s)
  case (Cons c cs)
  then obtain col b s1 cols' where one: "create_column_definition env c s = (Inr (col, b), s1)"
    and add: "add_columns cols [col] = Inr cols'"
    and rest: "create_columns env cs cols' (bad @ b) s1 = (Inr r, t)"
    by (auto simp: bind_eq_Inr simp del: add_columns.simps split: prod.splits)
  from create_column_result[OF one] add_one_column[OF add] Cons.IH[OF rest] show ?case by auto
qed simp

section \<open>Bindings\<close>

lemma on_table_Inr:
  "on_table k m s = (Inr x, t) \<Longrightarrow>
     \<exists>ti u. m (enter_table ti (hist s)) = (Inr x, u) \<and> tx_entries t = tx_entries s"
  by (auto simp: on_table_def split: option.splits prod.splits)

lemma reads_report_tx:
  "reads_report env cat ti s = (Inr b, t) \<Longrightarrow> tx_entries t = tx_entries (s :: 'x set_state_scheme)"
  by (auto simp: reads_report_def should_try_scan_plan_def now_def bind_eq_Inr split: if_splits)

lemma set_entry_result:
  "set_table_entry key e s = (Inr stored, t) \<Longrightarrow> map_of (tx_entries t) key = Some stored \<and>
     (map_of (tx_entries s) key = None \<longrightarrow> stored = e)"
  by (auto simp: set_table_entry_run tc.store_find)

text \<open>\<open>from_log env cat schema td e\<close>: \<open>e\<close> is what the table's Delta log said at some time.\<close>

definition from_log :: "env \<Rightarrow> catalog_settings \<Rightarrow> string \<Rightarrow> api_table \<Rightarrow> table_entry option \<Rightarrow> bool" where
  "from_log env cat schema td e \<longleftrightarrow>
     (\<exists>sfx (s1 :: table_state) s2. entry_from_delta_log env cat schema td sfx s1 = (Inr e, s2))"

lemma from_logI:
  "on_table k (entry_from_delta_log env cat schema td sfx) s = (Inr e, t) \<Longrightarrow> from_log env cat schema td e"
  unfolding from_log_def by (drule on_table_Inr) blast

definition bound_in_transaction ::
  "env \<Rightarrow> catalog_settings \<Rightarrow> string \<Rightarrow> api_table \<Rightarrow> at_clause option
    \<Rightarrow> (string \<times> table_entry) list \<Rightarrow> (string \<times> table_entry) list \<Rightarrow> table_entry option \<Rightarrow> bool" where
  "bound_in_transaction env cat schema td at before after bound \<longleftrightarrow>
     (\<exists>key. entry_key schema td at = Inr key \<and> bound \<noteq> None \<and> map_of after key = bound \<and>
        (map_of before key = bound \<or> from_log env cat schema td bound))"

lemma get_at_result:
  fixes s t :: "'x set_state_scheme"
  assumes "get_at env cat schema k ti a s = (Inr bound, t)"
  shows "bound_in_transaction env cat schema (tf_data ti) (Some a) (tx_entries s) (tx_entries t) bound"
proof -
  obtain key where key: "entry_key schema (tf_data ti) (Some a) = Inr key"
    using assms by (auto simp: get_at_def bind_eq_Inr)
  show ?thesis
  proof (cases "map_of (tx_entries s) key")
    case (Some e)
    then have "bound = Some e \<and> t = s" using assms key by (simp add: get_at_def get_table_entry_def bind_run)
    then show ?thesis using key Some by (simp add: bound_in_transaction_def)
  next
    case None
    then obtain sfx e s1 stored where log: "on_table k (entry_from_delta_log env cat schema (tf_data ti) sfx) s = (Inr (Some e), s1)"
      and st: "set_table_entry key e s1 = (Inr stored, t)" and b: "bound = Some stored"
      using assms key by (auto simp: get_at_def get_table_entry_def bind_eq_Inr split: option.splits)
    have "stored = e" using set_entry_result[OF st] on_table_Inr[OF log] None by auto
    then show ?thesis using key b set_entry_result[OF st] from_logI[OF log]
      by (auto simp: bound_in_transaction_def)
  qed
qed

lemma get_latest_result:
  fixes s t :: "'x set_state_scheme"
  assumes "get_latest env cat schema k ti s = (Inr bound, t)"
  shows "(bound = tf_reported ti \<and> tf_unreadable ti = []) \<or>
    bound_in_transaction env cat schema (tf_data ti) None (tx_entries s) (tx_entries t) bound"
proof -
  have readable: "tf_unreadable ti = []"
    if "throw_if_unreadable_columns (tf_data ti) (tf_unreadable ti) = Inr u" for u
    using that by (auto simp: throw_if_unreadable_columns_def split: list.splits)
  obtain report s1 where rep: "reads_report env cat ti s = (Inr report, s1)"
    using assms by (auto simp: get_latest_def bind_eq_Inr)
  note tx1 = reads_report_tx[OF rep]
  let ?key = "schema @ ''.'' @ tb_name (tf_data ti)"
  have key: "entry_key schema (tf_data ti) None = Inr ?key" by (simp add: entry_key_def Let_def)
  show ?thesis
  proof (cases report)
    case True
    then show ?thesis using assms rep readable by (auto simp: get_latest_def bind_Inr bind_eq_Inr)
  next
    case False
    show ?thesis
    proof (cases "map_of (tx_entries s) ?key")
      case (Some e)
      then have "bound = Some e \<and> t = s1"
        using assms rep False tx1 key by (simp add: get_latest_def bind_run get_table_entry_def)
      then show ?thesis using Some key tx1 by (auto simp: bound_in_transaction_def)
    next
      case None
      then obtain entry s2 where log: "on_table k (entry_from_delta_log env cat schema (tf_data ti) []) s1 = (Inr entry, s2)"
        and rest: "bind_resolved ti ?key entry s2 = (Inr bound, t)"
        using assms rep False tx1 key by (auto simp: get_latest_def bind_Inr get_table_entry_def bind_eq_Inr)
      show ?thesis
      proof (cases entry)
        case None
        then show ?thesis using rest readable by (auto simp: bind_resolved_def bind_eq_Inr split: option.splits)
      next
        case (Some e)
        then obtain s3 stored where w: "(case tf_reported ti of None \<Rightarrow> ret ()
              | Some reported \<Rightarrow> warn_on_schema_divergence reported e) s2 = (Inr (), s3)"
          and st: "set_table_entry ?key e s3 = (Inr stored, t)" and b: "bound = Some stored"
          using rest by (auto simp: bind_resolved_def bind_eq_Inr)
        have "tx_entries s3 = tx_entries s2" using w
          by (auto simp: warn_on_schema_divergence_def log_warning_def split: option.splits if_splits)
        then have "stored = e" using set_entry_result[OF st] on_table_Inr[OF log] tx1
            \<open>map_of (tx_entries s) ?key = None\<close> by auto
        then show ?thesis using key b set_entry_result[OF st] from_logI[OF log] Some
          by (auto simp: bound_in_transaction_def)
      qed
    qed
  qed
qed

lemma get_table_entry_bound:
  "map_of (tx_entries s) key = Some e \<Longrightarrow> get_table_entry key s = (Inr (Some e), s)"
  by (simp add: get_table_entry_def)

text \<open>A version that the transaction has bound is read without a call.\<close>

lemma get_version_bound:
  assumes "throw_if_interval_columns (tf_data ti) = Inr ()" and "entry_key schema (tf_data ti) (Some a) = Inr key"
    and "map_of (tx_entries s) key = Some e"
  shows "get_version env cat schema k ti (Some a) s = (Inr (Some e), s)"
  using assms by (simp add: get_version_def get_at_def bind_run get_table_entry_bound)

section \<open>Properties\<close>


text \<open>
  Reads repeat within a transaction: once a version named by an AT clause is bound, every later lookup
  of it returns that entry without a call, whatever else the transaction binds in between.
\<close>

theorem time_travel_reads_repeat:
  assumes "get_version env cat schema k ti (Some a) s = (Inr bound, t)"
  shows "get_version env cat schema k ti (Some a) (fold (\<lambda>(j, e). store_entry j e) later t)
    = (Inr bound, fold (\<lambda>(j, e). store_entry j e) later t)"
proof -
  let ?t = "fold (\<lambda>(j, e). store_entry j e) later t"
  have iv: "throw_if_interval_columns (tf_data ti) = Inr ()" and run: "get_at env cat schema k ti a s = (Inr bound, t)"
    using assms by (auto simp: get_version_def bind_eq_Inr)
  from get_at_result[OF run] obtain key e where key: "entry_key schema (tf_data ti) (Some a) = Inr key"
    and e: "bound = Some e" "map_of (tx_entries t) key = Some e" by (auto simp: bound_in_transaction_def)
  have "map_of (tx_entries ?t) key = Some e" by (rule tc.first_wins[OF e(2)])
  then show ?thesis unfolding e(1) by (rule get_version_bound[OF iv key])
qed

definition at_witness :: at_clause where
  "at_witness = \<lparr>at_unit = ''version'', at_as_version = Inr 5, at_as_epoch_ms = Inr 0\<rparr>"

definition plain_table :: api_table where
  "plain_table = table_witness\<lparr>tb_properties := (\<lambda>_. None)\<rparr>"

definition set_witness :: set_state where
  "set_witness = \<lparr>hist = [], sp_availability = UNKNOWN_PLAN, sp_unavailable_since = 0, tx_state = NOT_YET_STARTED,
     tx_entries = [], us_tables = [(''t'', new_table_info plain_table [] [])], us_is_loaded = True\<rparr>"

definition env_log :: env where
  "env_log = env_witness\<lparr>e_lookup := (\<lambda>_. Inr (Some [(''x'', INTEGER)]))\<rparr>"

lemma show_five: "show_nat 5 = ''5''"
  by code_simp

lemma version_five_run:
  "\<exists>t. get_version env_log settings_witness ''s'' ''t'' (new_table_info plain_table [] []) (Some at_witness) set_witness
     = (Inr (Some \<lparr>en_name = ''t'', en_columns = [(''x'', INTEGER)]\<rparr>), t)"
proof -
  let ?ti = "new_table_info plain_table [] []"
  have managed: "\<not> is_catalog_managed plain_table"
    by (simp add: is_catalog_managed_def has_delta_feature_def plain_table_def)
  have location: "prefix ''file://'' (tb_storage_location plain_table)"
    by (simp add: plain_table_def table_witness_def)
  have log: "\<exists>u. entry_from_delta_log env_log settings_witness ''s'' plain_table ''@5'' (enter_table ?ti [])
      = (Inr (Some \<lparr>en_name = ''t'', en_columns = [(''x'', INTEGER)]\<rparr>), u)"
    using managed location
    by (simp add: entry_from_delta_log_def refresh_credentials_def internal_attach_def detach_if_stale_def
        enter_table_def new_table_info_def bind_run env_log_def env_witness_def)
       (simp add: plain_table_def table_witness_def)
  have cols: "throw_if_interval_columns plain_table = Inr ()"
    by (simp add: throw_if_interval_columns_def plain_table_def table_witness_def)
  have key: "entry_key ''s'' plain_table (Some at_witness) = Inr ''s.t@5''" "at_clause_key_suffix at_witness = Inr ''@5''"
    by (simp_all add: entry_key_def at_clause_key_suffix_def at_witness_def plain_table_def table_witness_def show_five)
  show ?thesis using log cols key
    by (auto simp: get_version_def get_at_def bind_run get_table_entry_def on_table_def set_witness_def
        new_table_info_def set_table_entry_run)
qed

lemma time_travel_reads_repeat_witness:
  "\<exists>t. get_version env_log settings_witness ''s'' ''t'' (new_table_info plain_table [] []) (Some at_witness) set_witness
     = (Inr (Some \<lparr>en_name = ''t'', en_columns = [(''x'', INTEGER)]\<rparr>), t) \<and>
   get_version env_log settings_witness ''s'' ''t'' (new_table_info plain_table [] []) (Some at_witness)
     (fold (\<lambda>(j, e). store_entry j e) [(''s.t@5'', \<lparr>en_name = ''u'', en_columns = []\<rparr>)] t)
     = (Inr (Some \<lparr>en_name = ''t'', en_columns = [(''x'', INTEGER)]\<rparr>),
        fold (\<lambda>(j, e). store_entry j e) [(''s.t@5'', \<lparr>en_name = ''u'', en_columns = []\<rparr>)] t)"
proof -
  obtain t where run: "get_version env_log settings_witness ''s'' ''t'' (new_table_info plain_table [] []) (Some at_witness) set_witness
      = (Inr (Some \<lparr>en_name = ''t'', en_columns = [(''x'', INTEGER)]\<rparr>), t)" using version_five_run by blast
  from time_travel_reads_repeat[OF this] run show ?thesis by blast
qed

text \<open>The instant an AT clause names: none for the latest version, a version, or a time.\<close>

definition at_point :: "at_clause option \<Rightarrow> (u64 + i64) option res" where
  "at_point at = (case at of
     None \<Rightarrow> Inr None
   | Some a \<Rightarrow> if at_unit a = ''version'' then bind_res (at_as_version a) (\<lambda>v. Inr (Some (Inl v)))
       else if at_unit a = ''timestamp'' then bind_res (at_as_epoch_ms a) (\<lambda>ms. Inr (Some (Inr ms)))
       else Inl (InvalidConfigurationException (''Delta tables only support at_clause with unit ''
             @ in_quotes ''version'' @ '' or '' @ in_quotes ''timestamp'')))"

definition point_suffix :: "(u64 + i64) option \<Rightarrow> string" where
  "point_suffix p = (case p of None \<Rightarrow> [] | Some (Inl v) \<Rightarrow> ''@'' @ show_nat (unat v)
     | Some (Inr ms) \<Rightarrow> ''@ts:'' @ show_int (sint ms))"

lemma entry_key_point:
  "entry_key schema td at = bind_res (at_point at) (\<lambda>p. Inr (schema @ ''.'' @ tb_name td @ point_suffix p))"
  by (auto simp: entry_key_def at_point_def point_suffix_def at_clause_key_suffix_def bind_res_assoc
      split: option.split)

lemma point_suffix_inject: "point_suffix p = point_suffix q \<Longrightarrow> p = q"
proof -
  have t: "show_nat n \<noteq> ''ts:'' @ x" for n x
  proof
    assume "show_nat n = ''ts:'' @ x"
    then have "CHR ''t'' \<in> set (show_nat n)" by simp
    moreover have "\<not> is_digit (CHR ''t'')" by (simp add: is_digit_def)
    ultimately show False using not_digit_notin_show_nat by blast
  qed
  have t': "''ts:'' @ x \<noteq> show_nat n" for n x using t[of n x] by metis
  have eq_s: "sint v = sint w \<Longrightarrow> v = w" for v w :: "64 word" by (rule signed_word_eqI)
  have eq_u: "unat v = unat w \<Longrightarrow> v = w" for v w :: "64 word" by (simp only: word_unat_eq_iff)
  assume "point_suffix p = point_suffix q"
  then show "p = q" using t t' by (auto simp: point_suffix_def dest: eq_s eq_u split: option.splits sum.splits)
qed

text \<open>
  Versions of one table never share a key: two lookups of a table get the same key only if they name
  the same version, the same millisecond, or both the latest.
\<close>

theorem entry_key_tells_versions_apart:
  assumes "entry_key schema td a = Inr key" and "entry_key schema td b = Inr key"
  shows "at_point a = at_point b"
  using assms by (auto simp: entry_key_point bind_res_eq_Inr dest: point_suffix_inject)

lemma entry_key_tells_versions_apart_witness:
  "at_point (Some at_witness) = at_point (Some \<lparr>at_unit = ''version'', at_as_version = Inr 5, at_as_epoch_ms = Inr 9\<rparr>)"
  by (rule entry_key_tells_versions_apart[of "''s''" plain_table _ "''s.t@5''"])
     (simp_all add: entry_key_def at_clause_key_suffix_def at_witness_def plain_table_def table_witness_def show_five)

text \<open>Keys of different tables may collide: the latest version of a table named t@5 is version 5 of t.\<close>

lemma entry_keys_collide:
  "entry_key ''s'' (plain_table\<lparr>tb_name := ''t@5''\<rparr>) None = entry_key ''s'' plain_table (Some at_witness)"
  by (simp add: entry_key_def at_clause_key_suffix_def at_witness_def plain_table_def table_witness_def show_five)

text \<open>
  A table with an interval column, at any depth of its type and in any case of letters, is refused
  before anything else is done: no call, no binding.
\<close>

theorem interval_columns_refused:
  assumes "c \<in> set (tb_columns (tf_data ti))" and "interval_at (lower (type_text c)) i"
  shows "\<exists>m. get_version env cat schema k ti at s = (Inl (NotImplementedException m), s)"
proof -
  have "type_text_has_interval (type_text c)" using assms(2) type_text_has_interval_iff by blast
  then obtain d where "find (\<lambda>c. type_text_has_interval (type_text c)) (tb_columns (tf_data ti)) = Some d"
    using assms(1) by (cases "find (\<lambda>c. type_text_has_interval (type_text c)) (tb_columns (tf_data ti))")
      (auto simp: find_None_iff)
  then show ?thesis by (auto simp: get_version_def throw_if_interval_columns_def bind_run)
qed

definition gap_column :: column_definition where
  "gap_column = \<lparr>col_name = ''g'', type_text = ''struct<gap:INTERVAL day to second>'', type_json = [],
     col_precision = 0, col_scale = 0, col_position = 0, is_partition_column = False\<rparr>"

lemma interval_columns_refused_witness:
  "\<exists>m. get_version env_witness settings_witness ''s'' ''t''
     (new_table_info (plain_table\<lparr>tb_columns := [gap_column]\<rparr>) [] []) None set_witness
     = (Inl (NotImplementedException m), set_witness)"
proof (rule interval_columns_refused[of gap_column _ 11])
  have "prefix (''interval '' @ ''day'') (drop 11 (lower ''struct<gap:INTERVAL day to second>''))" by code_simp
  then show "interval_at (lower (type_text gap_column)) 11"
    by (simp add: interval_at_def interval_units_def gap_column_def)
qed (simp add: new_table_info_def)

text \<open>
  The listing is fetched once. After a load that succeeded a lookup loads nothing; after one that failed
  the set is still unloaded, and the next lookup loads again.
\<close>

theorem tables_loaded_once:
  "case ensure_tables_loaded env cat schema s of
     (Inl e, t) \<Rightarrow> \<not> us_is_loaded t \<and> load_entries env cat schema s = (Inl e, t)
   | (Inr u, t) \<Rightarrow> us_is_loaded t \<and> ensure_tables_loaded env cat schema t = (Inr (), t)"
proof (cases rule: run_cases[of "ensure_tables_loaded env cat schema s"])
  case (Inl e t)
  then show ?thesis using tl.ensure_Inl[of env cat schema s e t] by (simp add: ensure_tables_loaded_eq)
next
  case (Inr u t)
  then show ?thesis using tl.ensure_Inr[of env cat schema s u t] tl.ensure_twice[of env cat schema s u t]
    by (simp add: ensure_tables_loaded_eq)
qed

text \<open>
  A reload keeps every table: after \<open>MarkNeedsReload\<close> and the load of the next lookup, failed or not,
  the tables of before are still there as they were, attached databases included, followed by new ones.
\<close>

theorem reload_keeps_tables:
  "\<exists>new. us_tables (snd (ensure_tables_loaded env cat schema (snd (mark_needs_reload s)))) = us_tables s @ new"
proof -
  let ?s = "s\<lparr>us_is_loaded := False\<rparr>"
  obtain r t where run: "load_entries env cat schema ?s = (r, t)" by (cases "load_entries env cat schema ?s")
  have "extends_set ?s t" by (rule ex.keepsD[OF extends_load_entries run])
  then show ?thesis using run
    by (cases r) (auto simp: ensure_tables_loaded_def load_if_needed_def mark_needs_reload_def bind_run extends_set_def)
qed

text \<open>
  After a table is loaded the set has it: as it was if it was there, and otherwise with a report that
  lists its columns by their position, those of equal position as they came, each with its type or
  UNKNOWN, and that names exactly the columns whose type cannot be read.
\<close>

theorem report_lists_columns:
  "case load_entry env table s of
     (Inl e, t) \<Rightarrow> us_tables t = us_tables s
   | (Inr u, t) \<Rightarrow>
       (\<exists>ti. map_of (us_tables t) (lower (tb_name table)) = Some ti \<and>
         (case map_of (us_tables s) (lower (tb_name table)) of
            Some old \<Rightarrow> ti = old
          | None \<Rightarrow>
              let cols = sort_key col_position (tb_columns table)
              in tf_reported ti = Some \<lparr>en_name = tb_name table, en_columns = map (\<lambda>c. (col_name c, reported_type env c)) cols\<rparr> \<and>
                 tf_unreadable ti = map (\<lambda>c. (col_name c, type_text c)) (filter (\<lambda>c. \<not> readable env c) cols)))"
proof -
  obtain q s1 where run: "create_columns env (sort_key col_position (tb_columns table)) [] [] s = (q, s1)"
    by (cases "create_columns env (sort_key col_position (tb_columns table)) [] [] s")
  have "wrote s s1" by (rule wr.keepsD[OF keeps_create_columns run])
  then obtain h where s1: "s1 = s\<lparr>hist := h\<rparr>" by (auto simp: wrote_def)
  show ?thesis
  proof (cases q)
    case (Inl e)
    then show ?thesis using run s1 by (simp add: load_entry_def sort_columns_def Let_def bind_run)
  next
    case (Inr cs)
    then have cs: "cs = (map (\<lambda>c. (col_name c, reported_type env c)) (sort_key col_position (tb_columns table)),
        map (\<lambda>c. (col_name c, type_text c)) (filter (\<lambda>c. \<not> readable env c) (sort_key col_position (tb_columns table))))"
      using create_columns_result[of env "sort_key col_position (tb_columns table)" "[]" "[]" s cs s1] run by simp
    show ?thesis
      using run s1 Inr cs
      by (auto simp: load_entry_def sort_columns_def Let_def bind_run new_table_info_def map_add_def split: option.splits)
  qed
qed

end
