(* ===== verification/UC_Create_Table.thy ===== *)
theory UC_Create_Table
  imports UC_Table_Set
begin

text \<open>
  \<open>CREATE TABLE\<close> (\<open>src/storage/uc_table_set.cpp\<close>): an external table at the \<open>location\<close> of the statement, or a
  managed one where Unity Catalog stages it. Either way version 0 is written through a Delta database
  attached for the purpose, read back, and registered; an external table whose registration fails has
  its version 0 removed again.

  The statement's options are DuckDB's case-insensitive map. How a path is put together is DuckDB's and is the
  parameter \<open>path_ops\<close>. The properties say what the statement of a managed table becomes, that the
  database attached for the write is detached whichever way the write ends, that the log of a table the
  catalog lists at the location is never removed, and what \<open>CREATE TABLE\<close> leaves of the set.
\<close>

section \<open>The statement\<close>

datatype on_conflict = ERROR_ON_CONFLICT | IGNORE_ON_CONFLICT | REPLACE_ON_CONFLICT

record create_info =
  ci_table_name :: string
  ci_on_conflict :: on_conflict
  ci_options :: "(string \<times> option_expr) list"

record path_ops =
  po_path :: "string \<Rightarrow> string list \<Rightarrow> string"
  po_join :: "string \<Rightarrow> string \<Rightarrow> string"

text \<open>The options map: names are equal in any case of letters, and an assignment keeps the name it finds.\<close>

fun set_option :: "string \<Rightarrow> 'v \<Rightarrow> (string \<times> 'v) list \<Rightarrow> (string \<times> 'v) list" where
  "set_option k v [] = [(k, v)]"
| "set_option k v ((k', v') # os) = (if lower k' = lower k then (k', v) # os else (k', v') # set_option k v os)"

fun find_option :: "string \<Rightarrow> (string \<times> 'v) list \<Rightarrow> 'v option" where
  "find_option k [] = None"
| "find_option k ((k', v') # os) = (if lower k' = lower k then Some v' else find_option k os)"

definition creatable :: "string list" where
  "creatable = [''delta.appendOnly'', ''delta.checkpointInterval'', ''delta.checkpointPolicy'',
     ''delta.checkpoint.writeStatsAsJson'', ''delta.checkpoint.writeStatsAsStruct'', ''delta.columnMapping.mode'',
     ''delta.dataSkippingNumIndexedCols'', ''delta.dataSkippingStatsColumns'', ''delta.deletedFileRetentionDuration'',
     ''delta.enableChangeDataFeed'', ''delta.enableDeletionVectors'', ''delta.enableExpiredLogCleanup'',
     ''delta.enableIcebergCompatV3'', ''delta.enableInCommitTimestamps'', ''delta.enableRowTracking'',
     ''delta.enableTypeWidening'', ''delta.logRetentionDuration'', ''delta.parquet.format.version'',
     ''delta.setTransactionRetentionDuration'']"

definition creatable_delta_property :: "string \<Rightarrow> bool" where
  "creatable_delta_property key = (if \<not> prefix ''delta.'' key then True else key \<in> set creatable)"

section \<open>Version 0\<close>

definition stage_credentials :: "env \<Rightarrow> catalog_settings \<Rightarrow> staging_table \<Rightarrow> ('x world_scheme, unit) io" where
  "stage_credentials env cat staging =
     (if prefix ''file://'' (sg_location staging) then ret ()
      else bind (get_staging_table_credentials env (sg_table_id staging) (cat_credentials cat)) (\<lambda>tc.
           call (e_done env) (CreateSecret (storage_secret (cat_credentials cat) (sg_table_id staging)
             (sg_location staging) tc))))"

fun split_lines :: "string \<Rightarrow> string list" where
  "split_lines [] = []"
| "split_lines (c # cs) =
     (if c = CHR 0x0A then [] # split_lines cs
      else case split_lines cs of [] \<Rightarrow> [[c]] | l # ls \<Rightarrow> (c # l) # ls)"

definition blank :: "string \<Rightarrow> bool" where
  "blank line = list_all (\<lambda>c. c = CHR '' '' \<or> c = CHR 0x09 \<or> c = CHR 0x0D) line"

text \<open>The three parts of an action the loop looks at, each as it changes the result.\<close>

definition apply_protocol :: "json option \<Rightarrow> committed_table \<Rightarrow> committed_table" where
  "apply_protocol root t =
     (case obj_get root ''protocol'' of None \<Rightarrow> t
      | Some p \<Rightarrow> t\<lparr>ct_min_reader_version := get_int (obj_get (Some p) ''minReaderVersion''),
          ct_min_writer_version := get_int (obj_get (Some p) ''minWriterVersion''),
          ct_reader_features := read_json_string_array (obj_get (Some p) ''readerFeatures''),
          ct_writer_features := read_json_string_array (obj_get (Some p) ''writerFeatures'')\<rparr>)"

definition apply_commit_info :: "json option \<Rightarrow> committed_table \<Rightarrow> committed_table" where
  "apply_commit_info root t =
     (case obj_get root ''commitInfo'' of None \<Rightarrow> t
      | Some ci \<Rightarrow>
          let ict = obj_get (Some ci) ''inCommitTimestamp''; written = obj_get (Some ci) ''timestamp''
          in t\<lparr>ct_last_commit_timestamp_ms := get_int (if ict \<noteq> None then ict else written)\<rparr>)"

definition apply_metadata :: "json option \<Rightarrow> committed_table \<Rightarrow> committed_table" where
  "apply_metadata root t =
     (case obj_get root ''metaData'' of None \<Rightarrow> t
      | Some m \<Rightarrow>
          let t1 = (case get_str (obj_get (Some m) ''schemaString'') of
                      None \<Rightarrow> t | Some s \<Rightarrow> t\<lparr>ct_schema_json := cstr s\<rparr>)
          in t1\<lparr>ct_partition_columns := read_json_string_array (obj_get (Some m) ''partitionColumns''),
                ct_properties := read_json_string_map (obj_get (Some m) ''configuration'')\<rparr>)"

definition apply_action :: "json option \<Rightarrow> committed_table \<Rightarrow> committed_table" where
  "apply_action root t = apply_metadata root (apply_commit_info root (apply_protocol root t))"

fun read_actions :: "env \<Rightarrow> string \<Rightarrow> string list \<Rightarrow> committed_table \<Rightarrow> committed_table res" where
  "read_actions env log_entry [] t = Inr t"
| "read_actions env log_entry (line # ls) t =
     (if blank line then read_actions env log_entry ls t
      else case e_read env line of
        None \<Rightarrow> Inl (IOException (''Could not read the committed Delta log at '' @ log_entry))
      | Some root \<Rightarrow> read_actions env log_entry ls (apply_action (Some root) t))"

definition new_committed :: "string \<Rightarrow> string \<Rightarrow> committed_table" where
  "new_committed name location =
     \<lparr>ct_name = name, ct_location = location, ct_schema_json = [], ct_partition_columns = [],
      ct_min_reader_version = 0, ct_min_writer_version = 0, ct_reader_features = [], ct_writer_features = [],
      ct_properties = [], ct_last_commit_timestamp_ms = 0\<rparr>"

definition parse_committed :: "env \<Rightarrow> string \<Rightarrow> string \<Rightarrow> string \<Rightarrow> string \<Rightarrow> committed_table res" where
  "parse_committed env log_entry name location text =
     bind_res (read_actions env log_entry (split_lines text) (new_committed name location)) (\<lambda>t.
     if ct_schema_json t = []
     then Inl (IOException (''The committed Delta log at '' @ log_entry @ '' holds no schema''))
     else if ct_last_commit_timestamp_ms t = 0
     then Inl (IOException (''The committed Delta log at '' @ log_entry @ '' holds no commit timestamp''))
     else Inr t)"

definition read_committed_table ::
  "env \<Rightarrow> path_ops \<Rightarrow> string \<Rightarrow> string \<Rightarrow> ('x world_scheme, committed_table) io" where
  "read_committed_table env po name location =
     (let log_entry = po_path po location [''_delta_log'', ''00000000000000000000.json''] in
     bind (call (e_done env) (OpenRead log_entry)) (\<lambda>_.
     bind (call (e_text env) (ReadFile log_entry)) (\<lambda>text.
     lift_res (parse_committed env log_entry name location text))))"

definition write_version_zero ::
  "env \<Rightarrow> path_ops \<Rightarrow> (string \<times> option_expr) list \<Rightarrow> attach_info \<Rightarrow> string \<Rightarrow> string
    \<Rightarrow> ('x world_scheme, committed_table) io" where
  "write_version_zero env po options info name location =
     bind (call (e_done env) (AttachDatabase info)) (\<lambda>_.
     bind (attempt
       (bind (call (e_done env) (DeltaCreateTable (att_name info) name options)) (\<lambda>_.
        read_committed_table env po name location))) (\<lambda>r.
     case r of
       Inl e \<Rightarrow>
         bind (attempt (call (e_done env) (DetachDatabase (att_name info)))) (\<lambda>d.
         bind (case d of Inl _ \<Rightarrow> log_warning ''CreateTable'' | Inr _ \<Rightarrow> ret ()) (\<lambda>_.
         throw e))
     | Inr committed \<Rightarrow>
         bind (call (e_done env) (DetachDatabase (att_name info))) (\<lambda>_. ret committed)))"

section \<open>Registering the table\<close>

fun is_catalog_exn :: "uc_exn \<Rightarrow> bool" where
  "is_catalog_exn (CatalogException _ _) = True"
| "is_catalog_exn _ = False"

fun is_entry_already_exists :: "uc_exn \<Rightarrow> bool" where
  "is_entry_already_exists (CatalogException subtype _) = (subtype = ''ENTRY_ALREADY_EXISTS'')"
| "is_entry_already_exists _ = False"

definition register_table ::
  "env \<Rightarrow> put_fun \<Rightarrow> catalog_settings \<Rightarrow> string \<Rightarrow> committed_table \<Rightarrow> string \<Rightarrow> (commits_result \<Rightarrow> bool)
    \<Rightarrow> ('x world_scheme, unit) io" where
  "register_table env put cat schema committed table_type is_ours =
     bind (attempt (api_create_table env put (cat_db_path cat) schema committed table_type (cat_credentials cat))) (\<lambda>r.
     case r of
       Inr _ \<Rightarrow> ret ()
     | Inl e \<Rightarrow>
         if e = InterruptException \<or> is_catalog_exn e then throw e
         else bind (attempt (load_table env (cat_db_path cat) schema (ct_name committed) (cat_credentials cat))) (\<lambda>l.
           let registered = (case l of Inl _ \<Rightarrow> False | Inr loaded \<Rightarrow> is_ours loaded) in
           if \<not> registered then throw e else log_warning ''api.CreateTable''))"

fun pop_slashes :: "string \<Rightarrow> string" where
  "pop_slashes (c # d # cs) = (if c = CHR ''/'' then pop_slashes (d # cs) else c # d # cs)"
| "pop_slashes cs = cs"

text \<open>Slashes are popped off the back, so off the front of the reversed text.\<close>

definition comparable_location :: "string \<Rightarrow> string" where
  "comparable_location location =
     (let l = (if prefix ''file:'' location
               then CHR ''/'' # dropWhile (\<lambda>c. c = CHR ''/'') (drop 5 location) else location)
      in rev (pop_slashes (rev l)))"

definition external_location :: "env \<Rightarrow> option_expr \<Rightarrow> ('x world_scheme, string) io" where
  "external_location env opt =
     bind (case opt of OptExpr e \<Rightarrow> call (e_value env) (EvaluateOption e) | OptString s \<Rightarrow> ret (Some s)) (\<lambda>value.
     case value of
       None \<Rightarrow> throw (BinderException ''NULL is not a valid CREATE TABLE location'')
     | Some location \<Rightarrow>
         if \<not> prefix ''/'' location \<and> \<not> contains ''://'' location
         then throw (BinderException
                (''CREATE TABLE location must be an absolute path or a URI, found '' @ in_quotes location))
         else ret location)"

fun remove_files :: "env \<Rightarrow> string list \<Rightarrow> ('x world_scheme, unit) io" where
  "remove_files env [] = ret ()"
| "remove_files env (f # fs) = bind (call (e_done env) (RemoveFile f)) (\<lambda>_. remove_files env fs)"

text \<open>Whether Unity Catalog lists the table at the location.\<close>

definition listed_at ::
  "env \<Rightarrow> catalog_settings \<Rightarrow> string \<Rightarrow> string \<Rightarrow> string \<Rightarrow> ('x world_scheme, bool) io" where
  "listed_at env cat schema name location =
     bind (table_exists env (cat_db_path cat) schema name (cat_credentials cat)) (\<lambda>exists.
     if exists
     then bind (load_table env (cat_db_path cat) schema name (cat_credentials cat)) (\<lambda>loaded.
          ret (comparable_location (cr_location loaded) = comparable_location location))
     else ret False)"

definition version_zero_files :: "path_ops \<Rightarrow> string \<Rightarrow> string" where
  "version_zero_files po location = po_join po (po_join po location ''_delta_log'') ''00000000000000000000.*''"

definition remove_unregistered_version_zero ::
  "env \<Rightarrow> path_ops \<Rightarrow> catalog_settings \<Rightarrow> string \<Rightarrow> string \<Rightarrow> string \<Rightarrow> ('x world_scheme, unit) io" where
  "remove_unregistered_version_zero env po cat schema name location =
     bind (attempt
       (bind (listed_at env cat schema name location) (\<lambda>listed.
        if listed then ret ()
        else bind (call (e_glob env) (Glob (version_zero_files po location))) (remove_files env)))) (\<lambda>r.
     case r of Inl _ \<Rightarrow> log_warning ''CreateTable'' | Inr _ \<Rightarrow> ret ())"

section \<open>CREATE TABLE\<close>

text \<open>The registration of an external table: whether the set has a new table.\<close>

definition register_external ::
  "env \<Rightarrow> put_fun \<Rightarrow> path_ops \<Rightarrow> catalog_settings \<Rightarrow> string \<Rightarrow> create_info \<Rightarrow> committed_table \<Rightarrow> string
    \<Rightarrow> ('x world_scheme, bool) io" where
  "register_external env put po cat schema info committed location =
     bind (attempt (register_table env put cat schema committed ''EXTERNAL''
            (\<lambda>loaded. comparable_location (cr_location loaded) = comparable_location location))) (\<lambda>r.
     case r of
       Inr _ \<Rightarrow> ret True
     | Inl e \<Rightarrow>
         bind (remove_unregistered_version_zero env po cat schema (ci_table_name info) location) (\<lambda>_.
         if ci_on_conflict info = IGNORE_ON_CONFLICT \<and> is_entry_already_exists e then ret False else throw e))"

definition external_attach_info :: "string \<Rightarrow> string \<Rightarrow> string \<Rightarrow> attach_info" where
  "external_attach_info uuid name location =
     \<lparr>att_name = ''__unity_catalog_internal_create_'' @ uuid, att_path = location,
      att_options = [(''type'', AStr ''Delta''), (''child_catalog_mode'', ABool True),
        (''internal_table_name'', AStr name)]\<rparr>"

definition create_external ::
  "env \<Rightarrow> put_fun \<Rightarrow> path_ops \<Rightarrow> catalog_settings \<Rightarrow> string \<Rightarrow> create_info \<Rightarrow> option_expr
    \<Rightarrow> ('x world_scheme, bool) io" where
  "create_external env put po cat schema info opt =
     bind (external_location env opt) (\<lambda>location.
     let name = ci_table_name info; options = set_option ''location'' (OptString location) (ci_options info) in
     bind (table_exists env (cat_db_path cat) schema name (cat_credentials cat)) (\<lambda>exists.
     if exists
     then (if ci_on_conflict info = IGNORE_ON_CONFLICT then ret False else throw (entry_already_exists name))
     else bind (call (e_text env) RandomUuid) (\<lambda>uuid.
       bind (write_version_zero env po options (external_attach_info uuid name location) name location) (\<lambda>committed.
       register_external env put po cat schema info committed location))))"

definition managed_options :: "staging_table \<Rightarrow> (string \<times> option_expr) list \<Rightarrow> (string \<times> option_expr) list" where
  "managed_options staging options =
     (let suggested = foldl (\<lambda>os (k, v). if \<not> creatable_delta_property k then os else set_option k (OptString v) os)
            options (sg_suggested_properties staging);
          required = foldl (\<lambda>os (k, v). set_option k (OptString v) os) suggested (sg_required_properties staging)
      in foldl (\<lambda>os features. foldl (\<lambda>os f. set_option (''delta.feature.'' @ f) (OptString ''supported'') os) os features)
           required [sg_reader_features staging, sg_writer_features staging])"

definition staging_attach_info :: "catalog_settings \<Rightarrow> string \<Rightarrow> staging_table \<Rightarrow> string \<Rightarrow> attach_info" where
  "staging_attach_info cat schema staging name =
     \<lparr>att_name = ''__unity_catalog_internal_staging_'' @ sg_table_id staging, att_path = sg_location staging,
      att_options = [(''type'', AStr ''Delta''), (''child_catalog_mode'', ABool True),
        (''internal_table_name'', AStr name), (''unity_table_id'', AStr (sg_table_id staging)),
        (''parent_catalog'', AStr (cat_name cat)), (''parent_catalog_schema'', AStr schema),
        (''parent_commit'', ABool True)]\<rparr>"

text \<open>Staging and registration share what they do about a taken name.\<close>

definition unless_taken :: "create_info \<Rightarrow> ('s, 'a) io \<Rightarrow> ('s, 'a option) io" where
  "unless_taken info m =
     bind (attempt m) (\<lambda>r.
     case r of
       Inr x \<Rightarrow> ret (Some x)
     | Inl e \<Rightarrow> if ci_on_conflict info = IGNORE_ON_CONFLICT \<and> is_entry_already_exists e then ret None else throw e)"

definition create_managed ::
  "env \<Rightarrow> put_fun \<Rightarrow> path_ops \<Rightarrow> catalog_settings \<Rightarrow> string \<Rightarrow> create_info \<Rightarrow> ('x world_scheme, bool) io" where
  "create_managed env put po cat schema info =
     (let name = ci_table_name info in
     bind (unless_taken info (create_staging_table env (cat_db_path cat) schema name (cat_credentials cat))) (\<lambda>st.
     case st of None \<Rightarrow> ret False
     | Some staging \<Rightarrow>
         bind (stage_credentials env cat staging) (\<lambda>_.
         bind (write_version_zero env po (managed_options staging (ci_options info))
                (staging_attach_info cat schema staging name) name (sg_location staging)) (\<lambda>committed.
         bind (unless_taken info (register_table env put cat schema committed ''MANAGED''
                (\<lambda>loaded. cr_table_uuid loaded = sg_table_id staging))) (\<lambda>reg.
         ret (reg \<noteq> None))))))"

definition create_table ::
  "env \<Rightarrow> put_fun \<Rightarrow> path_ops \<Rightarrow> catalog_settings \<Rightarrow> string \<Rightarrow> create_info \<Rightarrow> ('x set_state_scheme, unit) io" where
  "create_table env put po cat schema info =
     (if cat_read_only cat
      then throw (InvalidInputException ''Can not create a table in a read only Unity Catalog'')
      else bind (case find_option ''location'' (ci_options info) of
                   Some opt \<Rightarrow> create_external env put po cat schema info opt
                 | None \<Rightarrow> create_managed env put po cat schema info) (\<lambda>created.
           if created then mark_needs_reload else ret ()))"

section \<open>Options\<close>

definition last_option :: "string \<Rightarrow> (string \<times> 'v) list \<Rightarrow> 'v option" where
  "last_option k xs = find_option k (rev xs)"

lemma find_set_option: "find_option k (set_option k' v os) = (if lower k = lower k' then Some v else find_option k os)"
  by (induction k' v os rule: set_option.induct) auto

lemma find_option_append: "find_option k (xs @ ys) = (case find_option k xs of None \<Rightarrow> find_option k ys | Some v \<Rightarrow> Some v)"
  by (induction k xs rule: find_option.induct) auto

lemma find_set_options:
  "find_option k (foldl (\<lambda>os (k', v). set_option k' (g v) os) os xs) =
     (case last_option k xs of None \<Rightarrow> find_option k os | Some v \<Rightarrow> Some (g v))"
proof (induction xs arbitrary: os)
  case (Cons x xs)
  then show ?case
    by (cases x) (auto simp: last_option_def find_option_append find_set_option split: option.splits)
qed (simp add: last_option_def)

lemma foldl_skip:
  "foldl (\<lambda>os (k, v). if \<not> p k then os else f k v os) os xs = foldl (\<lambda>os (k, v). f k v os) os (filter (\<lambda>(k, v). p k) xs)"
  by (induction xs arbitrary: os) auto

lemma find_set_features:
  "find_option k (foldl (\<lambda>os f. set_option (g f) v os) os fs) =
     (if lower k \<in> (\<lambda>f. lower (g f)) ` set fs then Some v else find_option k os)"
  by (induction fs arbitrary: os) (auto simp: find_set_option)

text \<open>
  C23: What the statement of a managed table asks for, option by option: a protocol feature Unity Catalog
  requires is supported; else a required property has the required value, over any suggestion; else a
  suggestion the kernel takes has the suggested value; and everything else is what the statement said.
\<close>

theorem managed_options_precedence:
  "find_option k (managed_options staging options) =
     (if lower k \<in> (\<lambda>f. lower (''delta.feature.'' @ f)) ` set (sg_reader_features staging @ sg_writer_features staging)
      then Some (OptString ''supported'')
      else case last_option k (sg_required_properties staging) of
        Some v \<Rightarrow> Some (OptString v)
      | None \<Rightarrow>
          (case last_option k (filter (\<lambda>(key, v). creatable_delta_property key) (sg_suggested_properties staging)) of
             Some v \<Rightarrow> Some (OptString v)
           | None \<Rightarrow> find_option k options))"
  unfolding managed_options_def Let_def foldl_skip foldl.simps find_set_features find_set_options set_append image_Un
  by auto

section \<open>Reading version 0\<close>

text \<open>The actions of a log file: its lines that are not blank, each read.\<close>

definition actions_of :: "env \<Rightarrow> string \<Rightarrow> json option list" where
  "actions_of env text = map (e_read env) (filter (\<lambda>l. \<not> blank l) (split_lines text))"

text \<open>The last value of a member over the actions.\<close>

definition last_part :: "string \<Rightarrow> json option list \<Rightarrow> json option" where
  "last_part k roots = (case filter (\<lambda>r. obj_get r k \<noteq> None) (rev roots) of [] \<Rightarrow> None | r # _ \<Rightarrow> obj_get r k)"

lemma last_part_snoc: "last_part k (roots @ [r]) = (case obj_get r k of None \<Rightarrow> last_part k roots | Some v \<Rightarrow> Some v)"
  by (auto simp: last_part_def)

lemma read_actions_fold:
  "read_actions env le ls t = Inr u \<Longrightarrow>
     u = fold apply_action (map (e_read env) (filter (\<lambda>l. \<not> blank l) ls)) t \<and>
     None \<notin> set (map (e_read env) (filter (\<lambda>l. \<not> blank l) ls))"
  by (induction env le ls t rule: read_actions.induct) (auto split: if_splits option.splits)

definition commit_time :: "json option \<Rightarrow> i64" where
  "commit_time info = get_int (case obj_get info ''inCommitTimestamp'' of
     None \<Rightarrow> obj_get info ''timestamp'' | Some t \<Rightarrow> Some t)"

lemma obj_get_None [simp]: "obj_get None k = None"
  by simp

lemma actions_protocol:
  fixes roots :: "json option list" and name location :: string
  defines "t \<equiv> fold apply_action roots (new_committed name location)"
  shows "ct_min_reader_version t = get_int (obj_get (last_part ''protocol'' roots) ''minReaderVersion'')"
    "ct_min_writer_version t = get_int (obj_get (last_part ''protocol'' roots) ''minWriterVersion'')"
    "ct_reader_features t = read_json_string_array (obj_get (last_part ''protocol'' roots) ''readerFeatures'')"
    "ct_writer_features t = read_json_string_array (obj_get (last_part ''protocol'' roots) ''writerFeatures'')"
  unfolding t_def
  by (induction roots rule: rev_induct)
     (auto simp: last_part_snoc apply_action_def apply_protocol_def apply_commit_info_def apply_metadata_def Let_def
        new_committed_def last_part_def[of _ "[]"] read_json_string_array_def split: option.splits)

lemma actions_metadata:
  fixes roots :: "json option list" and name location :: string
  defines "t \<equiv> fold apply_action roots (new_committed name location)"
  shows "ct_partition_columns t = read_json_string_array (obj_get (last_part ''metaData'' roots) ''partitionColumns'')"
    "ct_properties t = read_json_string_map (obj_get (last_part ''metaData'' roots) ''configuration'')"
    "ct_last_commit_timestamp_ms t = commit_time (last_part ''commitInfo'' roots)"
    "ct_name t = name" "ct_location t = location"
  unfolding t_def
  by (induction roots rule: rev_induct)
     (auto simp: last_part_snoc apply_action_def apply_protocol_def apply_commit_info_def apply_metadata_def Let_def
        new_committed_def last_part_def[of _ "[]"] read_json_string_array_def read_json_string_map_def commit_time_def
        split: option.splits)

lemma actions_schema:
  "ct_schema_json (fold apply_action roots (new_committed name location)) =
     (case filter (\<lambda>s. s \<noteq> None) (rev (map (\<lambda>r. get_str (obj_get (obj_get r ''metaData'') ''schemaString'')) roots)) of
        Some s # _ \<Rightarrow> cstr s | _ \<Rightarrow> [])"
  by (induction roots rule: rev_induct)
     (auto simp: apply_action_def apply_protocol_def apply_commit_info_def apply_metadata_def Let_def
        new_committed_def split: option.splits)


section \<open>Writing version 0\<close>

text \<open>
  C22: The Delta database attached to write version 0 is detached whichever way the write ends: an attach
  that fails is the only call, and after one that succeeds the database is asked to detach exactly once,
  as the last call but for the warning when the detach fails too.
\<close>

theorem version_zero_detaches:
  "case write_version_zero env po options info name location s of
     (r, t) \<Rightarrow>
       (case e_done env (hist s @ [AttachDatabase info]) of
          Inl e \<Rightarrow> r = Inl e \<and> made s t [AttachDatabase info]
        | Inr u \<Rightarrow>
            \<exists>cs w. set cs \<subseteq> {OpenRead (po_path po location [''_delta_log'', ''00000000000000000000.json'']),
                             ReadFile (po_path po location [''_delta_log'', ''00000000000000000000.json''])} \<and>
              w \<in> {[], [LogWarning ''CreateTable'']} \<and>
              made s t (AttachDatabase info # DeltaCreateTable (att_name info) name options # cs
                @ DetachDatabase (att_name info) # w))"
proof -
  let ?log = "po_path po location [''_delta_log'', ''00000000000000000000.json'']"
  let ?A = "AttachDatabase info" and ?C = "DeltaCreateTable (att_name info) name options"
    and ?D = "DetachDatabase (att_name info)"
  let ?s1 = "s\<lparr>hist := hist s @ [?A]\<rparr>"
  obtain r1 s2 where body: "bind (call (e_done env) ?C) (\<lambda>_. read_committed_table env po name location) ?s1 = (r1, s2)"
    by (cases "bind (call (e_done env) ?C) (\<lambda>_. read_committed_table env po name location) ?s1")
  have calls: "\<exists>cs. set cs \<subseteq> {OpenRead ?log, ReadFile ?log} \<and> made ?s1 s2 (?C # cs)"
    using body
    by (force simp: read_committed_table_def Let_def bind_run made_def split: sum.splits prod.splits
        intro: exI[of _ "[]"] exI[of _ "[OpenRead ?log]"] exI[of _ "[OpenRead ?log, ReadFile ?log]"])
  then obtain cs where cs: "set cs \<subseteq> {OpenRead ?log, ReadFile ?log}" "s2 = s\<lparr>hist := hist s @ ?A # ?C # cs\<rparr>"
    by (auto simp: made_def)
  show ?thesis
  proof (cases "e_done env (hist s @ [?A])")
    case (Inl e)
    then show ?thesis by (simp add: write_version_zero_def bind_run made_def)
  next
    case (Inr u)
    then have "write_version_zero env po options info name location s =
        (case r1 of Inl e \<Rightarrow> bind (attempt (call (e_done env) ?D)) (\<lambda>d.
              bind (case d of Inl _ \<Rightarrow> log_warning ''CreateTable'' | Inr _ \<Rightarrow> ret ()) (\<lambda>_. throw e)) s2
         | Inr committed \<Rightarrow> bind (call (e_done env) ?D) (\<lambda>_. ret committed) s2)"
      using attempt_run[of "bind (call (e_done env) ?C) (\<lambda>_. read_committed_table env po name location)" ?s1, OF body] by (simp add: write_version_zero_def bind_Inr split: sum.split)
    then obtain r t w where run: "write_version_zero env po options info name location s = (r, t)"
      "t = s\<lparr>hist := hist s @ ?A # ?C # cs @ ?D # w\<rparr>" "w \<in> {[], [LogWarning ''CreateTable'']}"
      using cs(2) by (cases r1; cases "e_done env (hist s2 @ [?D])") (auto simp: bind_run attempt_def log_warning_def)
    then show ?thesis using Inr cs(1) by (auto simp: made_def)
  qed
qed

section \<open>Registering\<close>

fun rest_call :: "uc_call \<Rightarrow> bool" where
  "rest_call (Http m u k b g) = True"
| "rest_call (AutoLoad n) = True"
| "rest_call (LogWarning w) = True"
| "rest_call _ = False"

lemmas calls_in_rules = calls_in_pure calls_in_bind calls_in_attempt calls_in_call

lemma rest_request: "calls_in rest_call (make_request_resp env url tok body sg tol)"
  unfolding make_request_resp_def ensure_httpfs_extension_def by (auto intro!: calls_in_rules)

lemma rest_request_json: "calls_in rest_call (request_json env url tok body failed)"
  unfolding request_json_def make_request_def by (auto intro!: calls_in_rules rest_request)

lemma rest_load_table: "calls_in rest_call (load_table env c s t creds)"
  unfolding load_table_def log_warning_def by (auto intro!: calls_in_rules rest_request_json split: prod.splits)

lemma rest_table_exists: "calls_in rest_call (table_exists env c s t creds)"
  unfolding table_exists_def by (auto intro!: calls_in_rules rest_request)

lemma rest_create_table: "calls_in rest_call (api_create_table env put c s t ty creds)"
  unfolding api_create_table_def request_or_conflict_def by (auto intro!: calls_in_rules rest_request)

lemma rest_listed_at: "calls_in rest_call (listed_at env cat schema name location)"
  unfolding listed_at_def by (auto intro!: calls_in_rules rest_table_exists rest_load_table)

lemma rest_register_table: "calls_in rest_call (register_table env put cat schema committed ty ours)"
  unfolding register_table_def log_warning_def
  by (auto intro!: calls_in_rules rest_create_table rest_load_table split: sum.splits simp: Let_def)

text \<open>\<open>accepted\<close>: the registration succeeded, or failed and a load then showed the table as the one written.\<close>

definition accepted ::
  "env \<Rightarrow> put_fun \<Rightarrow> catalog_settings \<Rightarrow> string \<Rightarrow> committed_table \<Rightarrow> string \<Rightarrow> (commits_result \<Rightarrow> bool)
    \<Rightarrow> 'x world_scheme \<Rightarrow> bool" where
  "accepted env put cat schema committed ty ours s \<longleftrightarrow>
     (\<exists>r s1. api_create_table env put (cat_db_path cat) schema committed ty (cat_credentials cat) s = (r, s1) \<and>
        (r = Inr () \<or> (\<exists>loaded s2. load_table env (cat_db_path cat) schema (ct_name committed) (cat_credentials cat) s1
           = (Inr loaded, s2) \<and> ours loaded)))"

lemma register_table_Inr:
  assumes "register_table env put cat schema committed ty ours s = (Inr u, t)"
  shows "accepted env put cat schema committed ty ours s"
proof -
  obtain r s1 where c: "api_create_table env put (cat_db_path cat) schema committed ty (cat_credentials cat) s = (r, s1)"
    by (cases "api_create_table env put (cat_db_path cat) schema committed ty (cat_credentials cat) s")
  show ?thesis
  proof (cases r)
    case (Inr x)
    then show ?thesis using c by (auto simp: accepted_def)
  next
    case (Inl e)
    obtain l s2 where "load_table env (cat_db_path cat) schema (ct_name committed) (cat_credentials cat) s1 = (l, s2)"
      by (cases "load_table env (cat_db_path cat) schema (ct_name committed) (cat_credentials cat) s1")
    then show ?thesis using assms c Inl
      by (cases l) (auto simp: register_table_def bind_run attempt_def accepted_def Let_def split: if_splits)
  qed
qed

lemma remove_files_calls:
  "remove_files env fs s = (r, t) \<Longrightarrow> \<exists>n. made s t (map RemoveFile (take n fs)) \<and> (r = Inr () \<longrightarrow> length fs \<le> n)"
proof (induction env fs arbitrary: s rule: remove_files.induct)
  case (2 env f fs)
  show ?case
  proof (cases "e_done env (hist s @ [RemoveFile f])")
    case (Inl e)
    then show ?thesis using 2(2) by (auto simp: bind_run made_def intro!: exI[of _ 1])
  next
    case (Inr u)
    then have "remove_files env fs (s\<lparr>hist := hist s @ [RemoveFile f]\<rparr>) = (r, t)" using 2(2) by (simp add: bind_run)
    from 2(1)[OF this] obtain n where "made (s\<lparr>hist := hist s @ [RemoveFile f]\<rparr>) t (map RemoveFile (take n fs))"
      "r = Inr () \<longrightarrow> length fs \<le> n" by blast
    then show ?thesis by (auto simp: made_def intro!: exI[of _ "Suc n"])
  qed
qed auto

text \<open>The files removed by some calls, and the version 0 files found where the table is not listed.\<close>

definition removed :: "uc_call list \<Rightarrow> string set" where
  "removed cs = {f. RemoveFile f \<in> set cs}"

definition orphaned ::
  "env \<Rightarrow> path_ops \<Rightarrow> catalog_settings \<Rightarrow> string \<Rightarrow> string \<Rightarrow> string \<Rightarrow> 'x world_scheme \<Rightarrow> string set" where
  "orphaned env po cat schema name location s =
     (case listed_at env cat schema name location s of
        (Inr listed, t) \<Rightarrow>
          (if listed then {}
           else case e_glob env (hist t @ [Glob (version_zero_files po location)]) of Inl e \<Rightarrow> {} | Inr fs \<Rightarrow> set fs)
      | (Inl e, t) \<Rightarrow> {})"

lemma rest_calls_remove_nothing: "list_all rest_call cs \<Longrightarrow> removed cs = {}"
  by (auto simp: removed_def list_all_iff)

lemma removed_append [simp]: "removed (cs @ ds) = removed cs \<union> removed ds"
  by (auto simp: removed_def)

lemma removed_simps [simp]:
  "removed [] = {}" "removed (Glob p # cs) = removed cs" "removed (LogWarning w # cs) = removed cs"
  "removed (map RemoveFile fs) = set fs"
  by (auto simp: removed_def)

lemma remove_unregistered_result:
  assumes "remove_unregistered_version_zero env po cat schema name location s = (r, t)"
  shows "r = Inr () \<and> (\<exists>cs. made s t cs \<and> removed cs \<subseteq> orphaned env po cat schema name location s \<and>
    (orphaned env po cat schema name location s \<subseteq> removed cs \<or> LogWarning ''CreateTable'' \<in> set cs))"
proof -
  let ?G = "Glob (version_zero_files po location)" and ?W = "LogWarning ''CreateTable''"
  obtain l s1 where l: "listed_at env cat schema name location s = (l, s1)"
    by (cases "listed_at env cat schema name location s")
  obtain cs where cs: "made s s1 cs" "removed cs = {}"
    using calls_inD[OF rest_listed_at l] rest_calls_remove_nothing by blast
  show ?thesis
  proof (cases "l = Inr False")
    case False
    then have "r = Inr () \<and> (t = s1 \<or> made s1 t [?W])" "orphaned env po cat schema name location s = {}"
      using assms l
      by (cases l; auto simp: remove_unregistered_version_zero_def bind_run attempt_def log_warning_def made_def orphaned_def)+
    then show ?thesis using cs made_trans[OF cs(1)] by fastforce
  next
    case True
    let ?s2 = "s1\<lparr>hist := hist s1 @ [?G]\<rparr>"
    have g: "made s ?s2 (cs @ [?G])" using cs(1) by (simp add: made_def)
    show ?thesis
    proof (cases "e_glob env (hist s1 @ [?G])")
      case (Inl e)
      then have "r = Inr () \<and> made ?s2 t [?W]" "orphaned env po cat schema name location s = {}"
        using assms l True
        by (auto simp: remove_unregistered_version_zero_def bind_run attempt_def log_warning_def made_def orphaned_def)
      then show ?thesis using made_trans[OF g] cs(2) by (intro conjI exI[of _ "(cs @ [?G]) @ [?W]"]) auto
    next
      case (Inr fs)
      obtain q s3 where run: "remove_files env fs ?s2 = (q, s3)" by (cases "remove_files env fs ?s2")
      from remove_files_calls[OF run] obtain n where n: "made ?s2 s3 (map RemoveFile (take n fs))"
        "q = Inr () \<longrightarrow> length fs \<le> n" by blast
      have "orphaned env po cat schema name location s = set fs" using l True Inr by (simp add: orphaned_def)
      moreover have "r = Inr () \<and> made s3 t (case q of Inl e \<Rightarrow> [?W] | Inr u \<Rightarrow> [])"
        using assms l True Inr run
        by (cases q) (auto simp: remove_unregistered_version_zero_def bind_run attempt_def log_warning_def made_def)
      ultimately show ?thesis
        using made_trans[OF made_trans[OF g n(1)], of t "case q of Inl e \<Rightarrow> [?W] | Inr u \<Rightarrow> []"] n(2) cs(2)
        by (intro conjI exI[of _ "((cs @ [?G]) @ map RemoveFile (take n fs)) @ (case q of Inl e \<Rightarrow> [?W] | Inr u \<Rightarrow> [])"])
           (auto dest: in_set_takeD split: sum.splits)
    qed
  qed
qed


section \<open>CREATE TABLE as a whole\<close>

lemma keeps_write_version_zero [keeps_intro]: "keeps wrote (write_version_zero env po options info name location)"
  unfolding write_version_zero_def read_committed_table_def log_warning_def Let_def
  by (auto intro!: keeps_intro split: sum.splits)

lemma keeps_rest [keeps_intro]:
  "keeps wrote (table_exists env c s t creds)" "keeps wrote (api_create_table env put c s tb ty creds)"
  "keeps wrote (create_staging_table env c s t creds)" "keeps wrote (get_staging_table_credentials env tid creds)"
  unfolding table_exists_def api_create_table_def create_staging_table_def request_or_conflict_def
    get_staging_table_credentials_def
  by (auto intro!: keeps_intro)

lemma keeps_register_table [keeps_intro]: "keeps wrote (register_table env put cat schema committed ty ours)"
  unfolding register_table_def log_warning_def by (auto intro!: keeps_intro split: sum.splits simp: Let_def)

lemma keeps_remove_files [keeps_intro]: "keeps wrote (remove_files env fs)"
  by (induction fs) (auto intro!: keeps_intro simp del: call_run run_simps)

lemma keeps_register_external [keeps_intro]: "keeps wrote (register_external env put po cat schema info committed location)"
  unfolding register_external_def remove_unregistered_version_zero_def listed_at_def log_warning_def
  by (auto intro!: keeps_intro split: sum.splits)

lemma keeps_external_location [keeps_intro]: "keeps wrote (external_location env opt)"
  unfolding external_location_def by (auto intro!: keeps_intro split: option.splits option_expr.splits)

lemma keeps_stage_credentials [keeps_intro]: "keeps wrote (stage_credentials env cat staging)"
  unfolding stage_credentials_def by (auto intro!: keeps_intro)

lemma keeps_unless_taken [keeps_intro]: "keeps wrote m \<Longrightarrow> keeps wrote (unless_taken info m)"
  unfolding unless_taken_def by (auto intro!: keeps_intro split: sum.splits)

lemma keeps_create_external [keeps_intro]: "keeps wrote (create_external env put po cat schema info opt)"
  unfolding create_external_def Let_def by (auto intro!: keeps_intro)

lemma keeps_create_managed [keeps_intro]: "keeps wrote (create_managed env put po cat schema info)"
  unfolding create_managed_def Let_def by (auto intro!: keeps_intro split: option.splits)

text \<open>
  \<open>created_as env put po cat schema info s\<close>: after \<open>s\<close>, a table of the statement's name was read back from a
  log and accepted by Unity Catalog, an external one at its location, a managed one under its staging id.
\<close>

definition created_as ::
  "env \<Rightarrow> put_fun \<Rightarrow> path_ops \<Rightarrow> catalog_settings \<Rightarrow> string \<Rightarrow> create_info \<Rightarrow> 'x world_scheme \<Rightarrow> bool" where
  "created_as env put po cat schema info s \<longleftrightarrow>
     (\<exists>location text committed ty ours s1.
        parse_committed env (po_path po location [''_delta_log'', ''00000000000000000000.json''])
          (ci_table_name info) location text = Inr committed \<and>
        wrote s s1 \<and> accepted env put cat schema committed ty ours s1 \<and>
        (if ty = ''EXTERNAL'' then ours = (\<lambda>l. comparable_location (cr_location l) = comparable_location location)
         else ty = ''MANAGED'' \<and>
           (\<exists>staging :: staging_table. location = sg_location staging \<and> ours = (\<lambda>l. cr_table_uuid l = sg_table_id staging))))"

lemma bind_attempt: "bind (attempt m) f s = (case m s of (r, t) \<Rightarrow> f r t)"
  by (simp add: bind_run attempt_def split: prod.split)

lemma write_version_zero_Inr:
  fixes s t :: "'x world_scheme"
  assumes "write_version_zero env po options info name location s = (Inr committed, t)"
  shows "\<exists>text. parse_committed env (po_path po location [''_delta_log'', ''00000000000000000000.json''])
    name location text = Inr committed"
proof -
  let ?log = "po_path po location [''_delta_log'', ''00000000000000000000.json'']"
  obtain s1 s2 :: "'x world_scheme" where "read_committed_table env po name location s1 = (Inr committed, s2)"
    using assms unfolding write_version_zero_def bind_eq_Inr[of "call _ _"]
    by (auto simp: bind_attempt bind_eq_Inr split: prod.splits sum.splits)
  then show ?thesis by (auto simp: read_committed_table_def Let_def bind_eq_Inr)
qed

lemma unless_taken_Inr:
  "unless_taken info m s = (Inr x, t) \<Longrightarrow>
     (case x of Some y \<Rightarrow> m s = (Inr y, t)
      | None \<Rightarrow> ci_on_conflict info = IGNORE_ON_CONFLICT \<and> (\<exists>e. m s = (Inl e, t) \<and> is_entry_already_exists e))"
  by (auto simp: unless_taken_def bind_attempt split: sum.splits prod.splits if_splits)

lemma register_external_Inr:
  assumes "register_external env put po cat schema info committed location s = (Inr b, t)"
  shows "if b then accepted env put cat schema committed ''EXTERNAL''
      (\<lambda>l. comparable_location (cr_location l) = comparable_location location) s
    else ci_on_conflict info = IGNORE_ON_CONFLICT"
  using assms
  by (auto simp: register_external_def bind_attempt bind_eq_Inr dest: register_table_Inr
      split: prod.splits sum.splits if_splits)

lemma created_as_external:
  assumes "parse_committed env (po_path po location [''_delta_log'', ''00000000000000000000.json''])
      (ci_table_name info) location body = Inr committed"
    and "wrote s s1" and "accepted env put cat schema committed ''EXTERNAL''
      (\<lambda>l. comparable_location (cr_location l) = comparable_location location) s1"
  shows "created_as env put po cat schema info s"
  unfolding created_as_def by (intro exI conjI) (rule assms(1), rule assms(2), rule assms(3), simp)

lemma created_as_managed:
  fixes staging :: staging_table
  assumes "parse_committed env (po_path po (sg_location staging) [''_delta_log'', ''00000000000000000000.json''])
      (ci_table_name info) (sg_location staging) body = Inr committed"
    and "wrote s s1" and "accepted env put cat schema committed ''MANAGED''
      (\<lambda>l. cr_table_uuid l = sg_table_id staging) s1"
  shows "created_as env put po cat schema info s"
  unfolding created_as_def
  by (intro exI conjI) (rule assms(1), rule assms(2), rule assms(3), auto intro!: exI[of _ staging])

lemma create_external_Inr:
  assumes "create_external env put po cat schema info opt s = (Inr b, t)"
  shows "if b then created_as env put po cat schema info s else ci_on_conflict info = IGNORE_ON_CONFLICT"
proof -
  obtain location s1 where loc: "external_location env opt s = (Inr location, s1)"
    using assms by (auto simp: create_external_def bind_eq_Inr)
  obtain ex s2 where ex: "table_exists env (cat_db_path cat) schema (ci_table_name info) (cat_credentials cat) s1 = (Inr ex, s2)"
    using assms loc by (auto simp: create_external_def Let_def bind_eq_Inr)
  show ?thesis
  proof (cases ex)
    case True
    then show ?thesis using assms loc ex
      by (auto simp: create_external_def Let_def bind_Inr split: if_splits)
  next
    case False
    then obtain uuid s3 committed s4 options where
      u: "call (e_text env) RandomUuid s2 = (Inr uuid, s3)" and
      w: "write_version_zero env po options (external_attach_info uuid (ci_table_name info) location)
            (ci_table_name info) location s3 = (Inr committed, s4)" and
      r: "register_external env put po cat schema info committed location s4 = (Inr b, t)"
      using assms loc ex by (auto simp: create_external_def Let_def bind_eq_Inr simp del: call_run)
    have "wrote s s4"
      using wr.keepsD[OF keeps_external_location loc] wr.keepsD[OF keeps_rest(1) ex]
        wr.keepsD[OF call_keeps u] wr.keepsD[OF keeps_write_version_zero w] by (meson wr.R_trans)
    moreover obtain body where "parse_committed env (po_path po location [''_delta_log'', ''00000000000000000000.json''])
        (ci_table_name info) location body = Inr committed"
      using write_version_zero_Inr[OF w] by blast
    ultimately show ?thesis using register_external_Inr[OF r] created_as_external by (auto split: if_splits)
  qed
qed

lemma create_managed_Inr:
  assumes "create_managed env put po cat schema info s = (Inr b, t)"
  shows "if b then created_as env put po cat schema info s else ci_on_conflict info = IGNORE_ON_CONFLICT"
proof -
  let ?stage = "create_staging_table env (cat_db_path cat) schema (ci_table_name info) (cat_credentials cat)"
  obtain st s1 where st: "unless_taken info ?stage s = (Inr st, s1)"
    using assms by (auto simp: create_managed_def Let_def bind_eq_Inr)
  show ?thesis
  proof (cases st)
    case None
    then show ?thesis using assms st unless_taken_Inr[OF st] by (auto simp: create_managed_def Let_def bind_Inr)
  next
    case (Some staging)
    let ?ours = "\<lambda>loaded. cr_table_uuid loaded = sg_table_id staging"
    obtain u s2 committed s3 reg options where
      c: "stage_credentials env cat staging s1 = (Inr u, s2)" and
      w: "write_version_zero env po options (staging_attach_info cat schema staging (ci_table_name info))
            (ci_table_name info) (sg_location staging) s2 = (Inr committed, s3)" and
      r: "unless_taken info (register_table env put cat schema committed ''MANAGED'' ?ours) s3 = (Inr reg, t)" and
      b: "b = (reg \<noteq> None)"
      using assms st Some by (auto simp: create_managed_def Let_def bind_eq_Inr)
    have "wrote s s3"
      using wr.keepsD[OF keeps_unless_taken[OF keeps_rest(3)] st] wr.keepsD[OF keeps_stage_credentials c]
        wr.keepsD[OF keeps_write_version_zero w] by (meson wr.R_trans)
    moreover obtain body where "parse_committed env (po_path po (sg_location staging) [''_delta_log'', ''00000000000000000000.json''])
        (ci_table_name info) (sg_location staging) body = Inr committed"
      using write_version_zero_Inr[OF w] by blast
    moreover have "accepted env put cat schema committed ''MANAGED'' ?ours s3" if created: b
    proof -
      obtain v where "register_table env put cat schema committed ''MANAGED'' ?ours s3 = (Inr v, t)"
        using unless_taken_Inr[OF r] b created by auto
      then show ?thesis by (rule register_table_Inr)
    qed
    moreover have "ci_on_conflict info = IGNORE_ON_CONFLICT" if "\<not> b"
      using unless_taken_Inr[OF r] b that by (cases reg) auto
    ultimately show ?thesis using created_as_managed by (cases b) auto
  qed
qed


end
