(* ===== verification/UC_Schema.thy ===== *)
theory UC_Schema
  imports UC_Create_Table
begin

text \<open>
  \<open>UCSchemaSet\<close> (\<open>src/storage/uc_schema_set.cpp\<close>), \<open>UCSchemaEntry\<close> (\<open>src/storage/uc_schema_entry.cpp\<close>,
  \<open>src/storage/uc_default_functions.cpp\<close>), the operations of \<open>UnityCatalog\<close> (\<open>src/storage/unity_catalog.cpp\<close>)
  and the table functions over them: the checkpoint functions, \<open>table_data_path\<close> and the clear-cache function.

  A schema holds its table set; \<open>on_schema\<close> runs an operation of \<open>UC_Table_Set\<close> on the set of one schema. Names of
  schemas and tables are DuckDB identifiers, equal in any case of letters, so a key is a lower-cased name.
  The schema set is the second instance of the locale \<open>load_once\<close>. Retrieving an entry by its qualified name
  is DuckDB's and a parameter where it is used.
\<close>

section \<open>State\<close>

record schema_info =
  sh_data :: api_schema
  sh_internal :: bool
  sh_tables :: "(string \<times> table_info) list"
  sh_tables_loaded :: bool
  sh_functions :: "string list"

record uc_state = catalog_state +
  uc_schemas :: "(string \<times> schema_info) list"
  uc_schemas_loaded :: bool

definition enter_schema :: "schema_info \<Rightarrow> 'x uc_state_scheme \<Rightarrow> set_state" where
  "enter_schema si s = \<lparr>hist = hist s, sp_availability = sp_availability s, sp_unavailable_since = sp_unavailable_since s,
     tx_state = tx_state s, tx_entries = tx_entries s, us_tables = sh_tables si, us_is_loaded = sh_tables_loaded si\<rparr>"

definition leave_schema :: "string \<Rightarrow> schema_info \<Rightarrow> set_state \<Rightarrow> 'x uc_state_scheme \<Rightarrow> 'x uc_state_scheme" where
  "leave_schema k si t s = s\<lparr>hist := hist t, sp_availability := sp_availability t,
     sp_unavailable_since := sp_unavailable_since t, tx_state := tx_state t, tx_entries := tx_entries t,
     uc_schemas := AList.update k (si\<lparr>sh_tables := us_tables t, sh_tables_loaded := us_is_loaded t\<rparr>) (uc_schemas s)\<rparr>"

definition on_schema :: "string \<Rightarrow> (set_state, 'a) io \<Rightarrow> ('x uc_state_scheme, 'a) io" where
  "on_schema k m = (\<lambda>s. case map_of (uc_schemas s) k of
     None \<Rightarrow> (Inl (InternalException ''no such schema''), s)
   | Some si \<Rightarrow> (case m (enter_schema si s) of (r, t) \<Rightarrow> (r, leave_schema k si t s)))"

section \<open>The schema set\<close>

definition is_internal_table :: "string \<Rightarrow> string \<Rightarrow> bool" where
  "is_internal_table catalog schema = (if schema = ''information_schema'' then True else False)"

definition new_schema_info :: "api_schema \<Rightarrow> schema_info" where
  "new_schema_info schema =
     \<lparr>sh_data = schema, sh_internal = is_internal_table (sc_catalog_name schema) (sc_schema_name schema),
      sh_tables = [], sh_tables_loaded = False, sh_functions = []\<rparr>"

text \<open>\<open>emplace\<close> leaves an entry of the same name as it is.\<close>

definition add_schema_entry :: "schema_info \<Rightarrow> ('x uc_state_scheme, unit) io" where
  "add_schema_entry si =
     (let name = sc_schema_name (sh_data si) in
     if name = [] then throw (InternalException ''UCSchemaSet::CreateEntry called with empty name'')
     else modify (\<lambda>s. if map_of (uc_schemas s) (lower name) = None
                      then s\<lparr>uc_schemas := uc_schemas s @ [(lower name, si)]\<rparr> else s))"

fun add_schemas :: "api_schema list \<Rightarrow> ('x uc_state_scheme, unit) io" where
  "add_schemas [] = ret ()"
| "add_schemas (x # xs) = bind (add_schema_entry (new_schema_info x)) (\<lambda>_. add_schemas xs)"

definition load_schemas :: "env \<Rightarrow> catalog_settings \<Rightarrow> ('x uc_state_scheme, unit) io" where
  "load_schemas env cat = bind (get_schemas env (cat_db_path cat) (cat_credentials cat)) add_schemas"

definition ensure_schemas_loaded :: "env \<Rightarrow> catalog_settings \<Rightarrow> ('x uc_state_scheme, unit) io" where
  "ensure_schemas_loaded env cat =
     load_if_needed uc_schemas_loaded (uc_schemas_loaded_update (\<lambda>_. True)) (load_schemas env cat)"

text \<open>The key of the schema, if there is one of the name.\<close>

definition get_schema_entry :: "env \<Rightarrow> catalog_settings \<Rightarrow> string \<Rightarrow> ('x uc_state_scheme, string option) io" where
  "get_schema_entry env cat name =
     bind (ensure_schemas_loaded env cat) (\<lambda>_.
     get_state (\<lambda>s. if map_of (uc_schemas s) (lower name) = None then None else Some (lower name)))"

definition clear_schema_entries :: "('x uc_state_scheme, unit) io" where
  "clear_schema_entries = modify (\<lambda>s. s\<lparr>uc_schemas := [], uc_schemas_loaded := False\<rparr>)"

definition drop_schema_entry :: "('x uc_state_scheme, unit) io" where
  "drop_schema_entry = throw (NotImplementedException ''UCSchemaSet::DropEntry'')"

definition schema_set_create :: "('x uc_state_scheme, unit) io" where
  "schema_set_create = throw (NotImplementedException ''Schema creation'')"

text \<open>\<open>Scan\<close>: the callback on every schema, in the order of the map.\<close>

fun for_each :: "('k \<Rightarrow> ('s, unit) io) \<Rightarrow> 'k list \<Rightarrow> ('s, unit) io" where
  "for_each f [] = ret ()"
| "for_each f (k # ks) = bind (f k) (\<lambda>_. for_each f ks)"

definition scan_schemas ::
  "env \<Rightarrow> catalog_settings \<Rightarrow> (string \<Rightarrow> ('x uc_state_scheme, unit) io) \<Rightarrow> ('x uc_state_scheme, unit) io" where
  "scan_schemas env cat callback =
     bind (ensure_schemas_loaded env cat) (\<lambda>_.
     bind (get_state (\<lambda>s. map fst (uc_schemas s))) (for_each callback))"

section \<open>A schema\<close>

datatype catalog_type = TABLE_ENTRY | VIEW_ENTRY | TABLE_FUNCTION_ENTRY | OTHER_ENTRY

fun catalog_type_is_supported :: "catalog_type \<Rightarrow> bool" where
  "catalog_type_is_supported TABLE_ENTRY = True"
| "catalog_type_is_supported VIEW_ENTRY = True"
| "catalog_type_is_supported _ = False"

text \<open>\<open>GetCatalogSet\<close>: the table set, for tables and views.\<close>

fun get_catalog_set :: "catalog_type \<Rightarrow> unit res" where
  "get_catalog_set TABLE_ENTRY = Inr ()"
| "get_catalog_set VIEW_ENTRY = Inr ()"
| "get_catalog_set _ = Inl (InternalException ''Type not supported for GetCatalogSet'')"

definition schema_create_table ::
  "env \<Rightarrow> put_fun \<Rightarrow> path_ops \<Rightarrow> catalog_settings \<Rightarrow> string \<Rightarrow> string \<Rightarrow> create_info \<Rightarrow> ('x uc_state_scheme, unit) io" where
  "schema_create_table env put po cat sk schema info =
     (if ci_on_conflict info = REPLACE_ON_CONFLICT
      then throw (NotImplementedException ''REPLACE ON CONFLICT in CreateTable'')
      else on_schema sk (create_table env put po cat schema info))"

datatype schema_object =
    FunctionObject | IndexObject | ViewObject | TypeObject | SequenceObject | TableFunctionObject
  | CopyFunctionObject | PragmaFunctionObject | CollationObject

fun schema_create_other :: "schema_object \<Rightarrow> uc_exn" where
  "schema_create_other FunctionObject = BinderException ''UC databases do not support creating functions''"
| "schema_create_other IndexObject = NotImplementedException ''CreateIndex''"
| "schema_create_other ViewObject = NotImplementedException ''UCSchemaEntry::CreateView''"
| "schema_create_other TypeObject = BinderException ''UC databases do not support creating types''"
| "schema_create_other SequenceObject = BinderException ''UC databases do not support creating sequences''"
| "schema_create_other TableFunctionObject = BinderException ''UC databases do not support creating table functions''"
| "schema_create_other CopyFunctionObject = BinderException ''UC databases do not support creating copy functions''"
| "schema_create_other PragmaFunctionObject = BinderException ''UC databases do not support creating pragma functions''"
| "schema_create_other CollationObject = BinderException ''UC databases do not support creating collations''"

definition schema_alter :: "bool \<Rightarrow> string \<Rightarrow> ('x uc_state_scheme, unit) io" where
  "schema_alter alters_table sk =
     (if \<not> alters_table then throw (BinderException ''Only altering tables is supported for now'')
      else on_schema sk alter_table)"

definition schema_scan ::
  "env \<Rightarrow> catalog_settings \<Rightarrow> string \<Rightarrow> string \<Rightarrow> catalog_type \<Rightarrow> ('x uc_state_scheme, table_entry option list) io" where
  "schema_scan env cat sk schema type =
     (if \<not> catalog_type_is_supported type then ret []
      else bind (lift_res (get_catalog_set type)) (\<lambda>_. on_schema sk (scan_tables env cat schema)))"

definition schema_scan_without_context :: uc_exn where
  "schema_scan_without_context = NotImplementedException ''Scan without context not supported''"

definition schema_drop_entry :: "string \<Rightarrow> catalog_type \<Rightarrow> ('x uc_state_scheme, unit) io" where
  "schema_drop_entry sk type = bind (lift_res (get_catalog_set type)) (\<lambda>_. on_schema sk drop_table_entry)"

text \<open>
  The functions a schema has by itself: the list of macros is empty, so there are two, made at the first
  lookup. The map of those made is case-insensitive, the names of those not yet made are compared exactly.
\<close>

definition built_in_functions :: "string list" where
  "built_in_functions = [''__internal_delta_ccv2_commit_staged'', ''table_data_path'']"

definition try_load_built_in_function :: "string \<Rightarrow> string \<Rightarrow> ('x uc_state_scheme, string option) io" where
  "try_load_built_in_function sk name =
     bind (get_state (\<lambda>s. map_of (uc_schemas s) sk)) (\<lambda>si.
     case si of None \<Rightarrow> throw (InternalException ''no such schema'')
     | Some si \<Rightarrow>
         (case find (\<lambda>f. lower f = lower name) (sh_functions si) of
            Some f \<Rightarrow> ret (Some f)
          | None \<Rightarrow>
              if name \<in> set built_in_functions
              then bind (modify (\<lambda>s. s\<lparr>uc_schemas :=
                     AList.update sk (si\<lparr>sh_functions := sh_functions si @ [name]\<rparr>) (uc_schemas s)\<rparr>)) (\<lambda>_. ret (Some name))
              else ret None))"

datatype looked_up = NothingFound | FoundTable table_entry | FoundFunction string

definition lookup_entry ::
  "env \<Rightarrow> catalog_settings \<Rightarrow> string \<Rightarrow> string \<Rightarrow> catalog_type \<Rightarrow> string \<Rightarrow> at_clause option
    \<Rightarrow> ('x uc_state_scheme, looked_up) io" where
  "lookup_entry env cat sk schema type name at =
     bind (if type = TABLE_FUNCTION_ENTRY then try_load_built_in_function sk name else ret None) (\<lambda>f.
     case f of Some fn \<Rightarrow> ret (FoundFunction fn)
     | None \<Rightarrow>
         if \<not> catalog_type_is_supported type then ret NothingFound
         else bind (lift_res (get_catalog_set type)) (\<lambda>_.
              bind (on_schema sk (get_entry env cat schema name at)) (\<lambda>e.
              ret (case e of None \<Rightarrow> NothingFound | Some t \<Rightarrow> FoundTable t))))"

section \<open>The catalog\<close>

definition default_schema_name :: string where
  "default_schema_name = ''main''"

definition same_identifier :: "string \<Rightarrow> string \<Rightarrow> bool" where
  "same_identifier a b = (lower a = lower b)"

text \<open>
  \<open>LookupSchema\<close>; the lookup of the default schema, which \<open>GetSchema\<close> makes, is not of \<open>main\<close> again and
  so ends in the set.
\<close>

definition lookup_schema_entry ::
  "env \<Rightarrow> catalog_settings \<Rightarrow> string \<Rightarrow> bool \<Rightarrow> ('x uc_state_scheme, string option) io" where
  "lookup_schema_entry env cat name return_null =
     bind (get_schema_entry env cat name) (\<lambda>entry.
     if entry = None \<and> \<not> return_null then throw (BinderException (''Schema with name '' @ in_double_quotes name @ '' not found''))
     else ret entry)"

definition lookup_schema ::
  "env \<Rightarrow> catalog_settings \<Rightarrow> string \<Rightarrow> string \<Rightarrow> bool \<Rightarrow> ('x uc_state_scheme, string option) io" where
  "lookup_schema env cat default_schema name return_null =
     (if same_identifier name default_schema_name \<and> \<not> same_identifier default_schema default_schema_name
      then if default_schema = []
           then throw (InvalidInputException (''Default schema for catalog '' @ in_quotes (cat_name cat) @ '' not found. ''
                  @ ''This means auto-detection of default schema failed. Please specify a DEFAULT_SCHEMA on ATTACH: ''
                  @ [CHR 0x60] @ ''ATTACH '' @ in_quotes ''..'' @ '' (TYPE unity_catalog, DEFAULT_SCHEMA ''
                  @ in_quotes ''my_schema'' @ '')'' @ [CHR 0x60]))
           else lookup_schema_entry env cat default_schema return_null
      else lookup_schema_entry env cat name return_null)"

definition get_default_schema :: "string \<Rightarrow> string option" where
  "get_default_schema default_schema = (if default_schema = [] then None else Some default_schema)"

definition catalog_create_schema :: "on_conflict \<Rightarrow> ('x uc_state_scheme, unit) io" where
  "catalog_create_schema oc =
     bind (if oc = REPLACE_ON_CONFLICT then drop_schema_entry else ret ()) (\<lambda>_. schema_set_create)"

definition catalog_drop_schema :: "('x uc_state_scheme, unit) io" where
  "catalog_drop_schema = drop_schema_entry"

definition catalog_on_detach :: "env \<Rightarrow> catalog_settings \<Rightarrow> ('x uc_state_scheme, unit) io" where
  "catalog_on_detach env cat = scan_schemas env cat (\<lambda>sk. on_schema sk (tables_on_detach env cat))"

definition get_database_size :: "string \<Rightarrow> unit res" where
  "get_database_size default_schema =
     (if default_schema = []
      then Inl (InvalidInputException (''Attempting to fetch the database size - but no database was provided ''
             @ ''in the connection string''))
      else Inr ())"

definition clear_cache :: "('x uc_state_scheme, unit) io" where
  "clear_cache = clear_schema_entries"

text \<open>\<open>PlanInsert\<close> on the table of the entry; the plan itself is made by the attached database.\<close>

definition plan_insert ::
  "env \<Rightarrow> catalog_settings \<Rightarrow> string \<Rightarrow> string \<Rightarrow> string \<Rightarrow> api_table \<Rightarrow> ('x uc_state_scheme, unit) io" where
  "plan_insert env cat sk schema k td = on_schema sk (on_table k (table_plan_insert env cat schema td))"

datatype refused_plan = PlanCreateTableAs | PlanDelete | PlanUpdate | BindCreateIndex

fun refuse_plan :: "refused_plan \<Rightarrow> uc_exn" where
  "refuse_plan PlanCreateTableAs = NotImplementedException ''UnityCatalog PlanCreateTableAs''"
| "refuse_plan PlanDelete = NotImplementedException ''UnityCatalog PlanDelete''"
| "refuse_plan PlanUpdate = NotImplementedException ''UnityCatalog PlanUpdate''"
| "refuse_plan BindCreateIndex = NotImplementedException ''UnityCatalog BindCreateIndex''"

definition is_unity_catalog :: "string \<Rightarrow> bool" where
  "is_unity_catalog t = (t = ''unity_catalog'' \<or> t = ''uc_catalog'' \<or> t = ''uc'')"

section \<open>Loading\<close>

text \<open>\<open>extends_schemas s t\<close>: the schemas of \<open>s\<close> are in \<open>t\<close> as they were, under keys of their own, and nothing else changed.\<close>

definition extends_schemas :: "'x uc_state_scheme \<Rightarrow> 'x uc_state_scheme \<Rightarrow> bool" where
  "extends_schemas s t \<longleftrightarrow> uc_schemas_loaded t = uc_schemas_loaded s \<and> tx_entries t = tx_entries s \<and>
     prefix (hist s) (hist t) \<and> (\<exists>new. uc_schemas t = uc_schemas s @ new)"

interpretation es: effect_order extends_schemas
  by unfold_locales (auto simp: extends_schemas_def intro: prefix_order.trans)

lemma wrote_extends_schemas: "wrote s t \<Longrightarrow> extends_schemas s t"
proof -
  assume "wrote s t"
  then obtain h where "t = s\<lparr>hist := h\<rparr>" "prefix (hist s) h" by (auto simp: wrote_def)
  then show ?thesis by (simp add: extends_schemas_def)
qed

lemma keeps_extends_schemas: "keeps wrote m \<Longrightarrow> keeps extends_schemas m"
  by (simp add: keeps_def wrote_extends_schemas)

lemma keeps_get_schemas [keeps_intro]: "keeps wrote (get_schemas env db creds)"
  unfolding get_schemas_def make_request_def by (auto intro!: keeps_intro)

lemma extends_add_schema_entry: "keeps extends_schemas (add_schema_entry si)"
  by (auto simp: keeps_def add_schema_entry_def Let_def extends_schemas_def)

lemma extends_add_schemas: "keeps extends_schemas (add_schemas xs)"
  by (induction xs) (auto intro!: es.keeps_pure es.keeps_bind extends_add_schema_entry simp del: run_simps)

lemma extends_load_schemas: "keeps extends_schemas (load_schemas env cat)"
  unfolding load_schemas_def
  by (intro es.keeps_bind extends_add_schemas keeps_extends_schemas[OF keeps_get_schemas])

interpretation sl: load_once uc_schemas_loaded "uc_schemas_loaded_update (\<lambda>_. True)"
    "\<lambda>s. s\<lparr>uc_schemas := [], uc_schemas_loaded := False\<rparr>" "load_schemas env cat" for env cat
  by unfold_locales (use extends_load_schemas in \<open>auto simp: keeps_def extends_schemas_def\<close>)

lemma ensure_schemas_loaded_eq: "ensure_schemas_loaded env cat = sl.ensure env cat"
  by (simp add: ensure_schemas_loaded_def sl.ensure_def)

lemma on_schema_run:
  assumes "on_schema k m s = (r, t)" and "map_of (uc_schemas s) k = Some si"
  shows "\<exists>u. m (enter_schema si s) = (r, u) \<and> hist t = hist u \<and> tx_entries t = tx_entries u \<and>
    map_of (uc_schemas t) k = Some (si\<lparr>sh_tables := us_tables u, sh_tables_loaded := us_is_loaded u\<rparr>) \<and>
    (\<forall>j. j \<noteq> k \<longrightarrow> map_of (uc_schemas t) j = map_of (uc_schemas s) j)"
  using assms by (auto simp: on_schema_def leave_schema_def update_conv split: prod.splits)

section \<open>Detaching\<close>

text \<open>The tables of a set with a Delta database attached, and those of a catalog.\<close>

definition attached_keys :: "(string \<times> table_info) list \<Rightarrow> string set" where
  "attached_keys ts = {k. \<exists>ti. map_of ts k = Some ti \<and> tf_attached ti \<noteq> None}"

definition attached_tables :: "'x uc_state_scheme \<Rightarrow> (string \<times> string) set" where
  "attached_tables s = {(sk, k). \<exists>si. map_of (uc_schemas s) sk = Some si \<and> k \<in> attached_keys (sh_tables si)}"

lemma internal_detach_run:
  assumes "internal_detach env cat td s = (r, t)"
  shows "(r = Inr () \<longrightarrow> ti_attached t = None) \<and> (ti_attached t = None \<or> t = s\<lparr>hist := hist t\<rparr>)"
  using assms by (auto simp: internal_detach_def bind_run split: if_splits sum.splits)

lemma on_table_detach:
  assumes "on_table k (internal_detach env cat td) s = (r, t)"
  shows "attached_keys (us_tables t) \<subseteq> attached_keys (us_tables s) - (if r = Inr () then {k} else {})"
proof (cases "map_of (us_tables s) k")
  case None
  then show ?thesis using assms by (auto simp: on_table_def)
next
  case (Some ti)
  from on_table_run[OF assms Some] obtain u where
    u: "internal_detach env cat td (enter_table ti (hist s)) = (r, u)"
      "map_of (us_tables t) k = Some (leave_table ti u)"
      "\<forall>j. j \<noteq> k \<longrightarrow> map_of (us_tables t) j = map_of (us_tables s) j" by blast
  have "tf_attached (leave_table ti u) = ti_attached u" by (simp add: leave_table_def)
  moreover have "ti_attached u = None \<or> ti_attached u = tf_attached ti"
    using internal_detach_run[OF u(1)] by (auto simp: enter_table_def) (metis table_state.select_convs(4) table_state.surjective world.update_convs(1))
  ultimately have k: "k \<in> attached_keys (us_tables t) \<Longrightarrow> r \<noteq> Inr () \<and> k \<in> attached_keys (us_tables s)"
    using internal_detach_run[OF u(1)] u(2) Some by (auto simp: attached_keys_def)
  show ?thesis
  proof
    fix j assume "j \<in> attached_keys (us_tables t)"
    then show "j \<in> attached_keys (us_tables s) - (if r = Inr () then {k} else {})"
      using k u(3) by (cases "j = k") (auto simp: attached_keys_def)
  qed
qed

lemma detach_tables_attached:
  "detach_tables env cat ts s = (r, t) \<Longrightarrow>
     attached_keys (us_tables t) \<subseteq> attached_keys (us_tables s) - (if r = Inr () then fst ` set ts else {})"
proof (induction env cat ts arbitrary: s rule: detach_tables.induct)
  case (2 env cat k ti ts)
  show ?case
  proof (cases rule: run_cases[of "on_table k (internal_detach env cat (tf_data ti)) s"])
    case (Inl e s1)
    then show ?thesis using 2(2) on_table_detach[OF Inl] by (auto simp: bind_run)
  next
    case (Inr u s1)
    then have "detach_tables env cat ts s1 = (r, t)" using 2(2) by (simp add: bind_run)
    then show ?thesis using 2(1)[of s1] on_table_detach[OF Inr] by (auto split: if_splits)
  qed
qed simp

lemma tables_on_detach_attached:
  assumes "tables_on_detach env cat s = (r, t)"
  shows "attached_keys (us_tables t) \<subseteq> (if r = Inr () then {} else attached_keys (us_tables s))"
proof -
  have "attached_keys (us_tables s) \<subseteq> fst ` set (us_tables s)"
    by (force simp: attached_keys_def dest: map_of_SomeD)
  then show ?thesis using detach_tables_attached[of env cat "us_tables s" s r t] assms
    by (auto simp: tables_on_detach_def bind_run split: if_splits)
qed

lemma on_schema_detach:
  assumes "on_schema k (tables_on_detach env cat) s = (r, t)"
  shows "attached_tables t \<subseteq> {(sk, j) \<in> attached_tables s. r = Inr () \<longrightarrow> sk \<noteq> k}"
proof (cases "map_of (uc_schemas s) k")
  case None
  then show ?thesis using assms by (auto simp: on_schema_def)
next
  case (Some si)
  from on_schema_run[OF assms Some] obtain u where
    u: "tables_on_detach env cat (enter_schema si s) = (r, u)"
      "map_of (uc_schemas t) k = Some (si\<lparr>sh_tables := us_tables u, sh_tables_loaded := us_is_loaded u\<rparr>)"
      "\<forall>j. j \<noteq> k \<longrightarrow> map_of (uc_schemas t) j = map_of (uc_schemas s) j" by blast
  have "us_tables (enter_schema si s) = sh_tables si" by (simp add: enter_schema_def)
  then have d: "attached_keys (us_tables u) \<subseteq> (if r = Inr () then {} else attached_keys (sh_tables si))"
    using tables_on_detach_attached[OF u(1)] by (auto split: if_splits)
  show ?thesis
  proof
    fix p assume "p \<in> attached_tables t"
    then obtain sk j sj where p: "p = (sk, j)" "map_of (uc_schemas t) sk = Some sj" "j \<in> attached_keys (sh_tables sj)"
      by (auto simp: attached_tables_def)
    then show "p \<in> {(sk, j) \<in> attached_tables s. r = Inr () \<longrightarrow> sk \<noteq> k}"
      using u(2,3) d Some by (cases "sk = k") (auto simp: attached_tables_def split: if_splits)
  qed
qed

lemma for_each_detach:
  "for_each (\<lambda>k. on_schema k (tables_on_detach env cat)) ks s = (r, t) \<Longrightarrow>
     attached_tables t \<subseteq> {(sk, j) \<in> attached_tables s. r = Inr () \<longrightarrow> sk \<notin> set ks}"
proof (induction ks arbitrary: s)
  case (Cons k ks)
  show ?case
  proof (cases rule: run_cases[of "on_schema k (tables_on_detach env cat) s"])
    case (Inl e s1)
    then show ?thesis using Cons(2) on_schema_detach[OF Inl] by (auto simp: bind_run)
  next
    case (Inr u s1)
    then have "for_each (\<lambda>k. on_schema k (tables_on_detach env cat)) ks s1 = (r, t)" using Cons(2) by (simp add: bind_run)
    from Cons(1)[OF this] show ?thesis using on_schema_detach[OF Inr] by fastforce
  qed
qed auto


end
