(* ===== verification/UC_Functions.thy ===== *)
theory UC_Functions
  imports UC_Schema
begin

text \<open>
  The table functions of the extension other than the commit: the two checkpoint functions
  (\<open>src/functions/uc_checkpoint.cpp\<close>), \<open>table_data_path\<close> (\<open>src/functions/uc_table_data_path.cpp\<close>),
  \<open>__internal_uc_plan_table_scan\<close> (\<open>src/functions/uc_plan_table_scan.cpp\<close>) and the clear-cache function
  (\<open>src/storage/uc_clear_cache.cpp\<close>).

  A table function is called until it emits no row; what it remembers between the calls is part of its bind data
  or global state, which each function here takes and returns. Parsing a qualified name, the search path and
  the retrieval of an entry by its name are DuckDB's and parameters.
\<close>

section \<open>Checkpoints\<close>

record checkpoint_data =
  cp_catalog_name :: string
  cp_schema_name :: string
  cp_table_name :: string
  cp_force :: bool
  cp_finished :: bool

text \<open>\<open>qname\<close> is the parsed name, an empty part where none was given; \<open>path\<close> the default of the search path.\<close>

definition resolve_table_name :: "string \<times> string \<times> string \<Rightarrow> string \<times> string \<Rightarrow> checkpoint_data res" where
  "resolve_table_name qname path =
     (let (qc, qs, qt) = qname; (pc, ps) = path;
          c = (if qc = [] then pc else qc); sch = (if qs = [] then ps else qs) in
     if c = [] then Inl (InvalidInputException (''No catalog specified and no default catalog set (use ''
       @ in_quotes ''USE <catalog>'' @ '' or provide fully-qualified name)''))
     else if sch = [] then Inl (InvalidInputException (''No schema specified and no default schema set (use ''
       @ in_quotes ''USE <catalog>.<schema>'' @ '' or provide qualified name)''))
     else if qt = [] then Inl (InvalidInputException ''Table name must not be empty'')
     else Inr \<lparr>cp_catalog_name = c, cp_schema_name = sch, cp_table_name = qt, cp_force = False, cp_finished = False\<rparr>)"

definition checkpoint_table_bind ::
  "bool \<Rightarrow> string \<times> string \<times> string \<Rightarrow> string \<times> string \<Rightarrow> checkpoint_data res" where
  "checkpoint_table_bind force qname path =
     bind_res (resolve_table_name qname path) (\<lambda>d. Inr (d\<lparr>cp_force := force\<rparr>))"

text \<open>A retrieved entry: the type of its catalog and, in a Unity Catalog, the table behind it.\<close>

record found_entry =
  fe_catalog_type :: string
  fe_schema_key :: string
  fe_schema :: string
  fe_table_key :: string
  fe_data :: api_table

definition checkpoint_table_function ::
  "env \<Rightarrow> catalog_settings \<Rightarrow> (string \<times> string \<times> string \<Rightarrow> (uc_state, found_entry option) io) \<Rightarrow> checkpoint_data
    \<Rightarrow> checkpoint_data \<times> (uc_state, unit) io" where
  "checkpoint_table_function env cat retrieve d =
     (if cp_finished d then (d, ret ())
      else (d\<lparr>cp_finished := True\<rparr>,
        bind (retrieve (cp_catalog_name d, cp_schema_name d, cp_table_name d)) (\<lambda>e.
        case e of
          None \<Rightarrow> throw (InvalidInputException (''Unity Catalog table not found: ''
            @ in_quotes (dotted (cp_catalog_name d) (cp_schema_name d) (cp_table_name d))))
        | Some fe \<Rightarrow>
            if \<not> is_unity_catalog (fe_catalog_type fe)
            then throw (InvalidInputException (''Catalog not a Unity Catalog: '' @ in_quotes (cp_catalog_name d)))
            else on_schema (fe_schema_key fe) (on_table (fe_table_key fe)
                   (internal_checkpoint env cat (fe_schema fe) (fe_data fe) (cp_force d))))))"

section \<open>table_data_path\<close>

definition table_data_path_bind ::
  "env \<Rightarrow> catalog_settings \<Rightarrow> (string \<times> string) option \<Rightarrow> string \<Rightarrow> ('x uc_state_scheme, string \<times> bool) io" where
  "table_data_path_bind env cat info name =
     (case info of
        None \<Rightarrow> throw (InternalException ''table_data_path: missing function info'')
      | Some (sk, schema) \<Rightarrow>
          on_schema sk (
            bind (get_entry env cat schema name None) (\<lambda>entry.
            case entry of
              None \<Rightarrow> throw (BinderException (''table_data_path: table '' @ in_quotes name @ '' not found''))
            | Some e \<Rightarrow>
                bind (get_state us_tables) (\<lambda>ts.
                case map_of ts (lower name) of
                  None \<Rightarrow> throw (InternalException (''table_data_path: table_data is null for '' @ in_quotes name))
                | Some ti \<Rightarrow> ret (tb_storage_location (tf_data ti), False)))))"

text \<open>The rows of one call, and the bind data after it.\<close>

definition table_data_path_execute :: "string \<times> bool \<Rightarrow> string list \<times> (string \<times> bool)" where
  "table_data_path_execute d = (if snd d then ([], d) else ([fst d], (fst d, True)))"

section \<open>Planning a scan from SQL\<close>

record plan_scan_data =
  ps_endpoint :: string
  ps_catalog :: string
  ps_schema :: string
  ps_table :: string
  ps_token :: string
  ps_filter :: string

definition plan_scan_bind :: "string list \<Rightarrow> string option \<Rightarrow> plan_scan_data" where
  "plan_scan_bind inputs filter_param =
     \<lparr>ps_endpoint = inputs ! 0, ps_catalog = inputs ! 1, ps_schema = inputs ! 2, ps_table = inputs ! 3,
      ps_token = inputs ! 4, ps_filter = (case filter_param of None \<Rightarrow> [] | Some f \<Rightarrow> f)\<rparr>"

definition plan_scan_init :: "env \<Rightarrow> plan_scan_data \<Rightarrow> ('x world_scheme, scan_plan_result) io" where
  "plan_scan_init env d =
     plan_table_scan env \<lparr>pr_catalog = ps_catalog d, pr_schema = ps_schema d, pr_table = ps_table d,
       pr_token = ps_token d, pr_endpoint = ps_endpoint d\<rparr> (ps_filter d)"

record plan_scan_row =
  pw_status :: string
  pw_plan_id :: "string option"
  pw_files :: nat
  pw_delete_files :: nat
  pw_plan_tasks :: nat

definition plan_scan_function :: "scan_plan_result \<times> bool \<Rightarrow> plan_scan_row list \<times> (scan_plan_result \<times> bool)" where
  "plan_scan_function st =
     (let (r, emitted) = st in
     if emitted then ([], st)
     else ([\<lparr>pw_status = status_to_string (pl_status r),
             pw_plan_id = (if pl_plan_id r = [] then None else Some (pl_plan_id r)),
             pw_files = length (pl_file_scan_tasks r), pw_delete_files = length (pl_delete_files r),
             pw_plan_tasks = length (pl_plan_tasks r)\<rparr>], (r, True)))"

section \<open>Clearing the caches\<close>

text \<open>The databases of the instance, each with the type of its catalog; a catalog of another kind stays.\<close>

fun clear_uc_caches :: "(string \<times> uc_state) list \<Rightarrow> (string \<times> uc_state) list" where
  "clear_uc_caches [] = []"
| "clear_uc_caches ((type, s) # dbs) =
     (if \<not> is_unity_catalog type then (type, s) # clear_uc_caches dbs
      else (type, snd (clear_cache s)) # clear_uc_caches dbs)"

definition clear_cache_function :: "bool \<Rightarrow> (string \<times> uc_state) list \<Rightarrow> bool \<times> (string \<times> uc_state) list" where
  "clear_cache_function finished dbs = (if finished then (finished, dbs) else (True, clear_uc_caches dbs))"

section \<open>A checkpoint of a read-only catalog\<close>

text \<open>Nothing on the way of a checkpoint looks at the access mode: in a read-only catalog it is written all the same.\<close>

lemma checkpoint_ignores_read_only:
  "\<exists>t. internal_checkpoint env_witness (settings_witness\<lparr>cat_read_only := True\<rparr>) ''s''
     (table_witness\<lparr>tb_properties := Map.empty\<rparr>) False state_witness = (Inr (), t) \<and>
     DeltaCheckpoint (attached_catalog_name settings_witness table_witness) False \<in> set (hist t)"
  by (simp add: internal_checkpoint_def refresh_credentials_def internal_attach_def detach_if_stale_def bind_run
      state_witness_def table_witness_def settings_witness_def env_witness_def is_catalog_managed_def
      has_delta_feature_def attached_catalog_name_def)

end
