(* ===== verification/UC_Scan.thy ===== *)
theory UC_Scan
  imports UC_Functions UC_File_List UC_Irc
begin

text \<open>
  The scan of a table (\<open>src/storage/uc_table_entry.cpp\<close>): which scan \<open>GetScanFunction\<close> picks, what the filter
  pushdown captures, and \<open>UCScanPlanInitGlobal\<close>, which plans, falls back to Delta when planning fails, and
  otherwise hands the planned files to DuckDB's parquet scan.

  The thread-local file list by which the parquet bind gets its files is a member of \<open>scan_state\<close>. The parquet
  scan and the Delta scan are DuckDB's and delta's: binding and starting one is a call. A bind that succeeds
  has asked for the file list, which takes it. The properties say when a scan is planned, that only a
  failure to plan shuts the catalog's gate, and that no file list outlives its scan.
\<close>

section \<open>State\<close>

record scan_bind_data =
  bd_catalog_name :: string
  bd_schema_name :: string
  bd_table_name :: string
  bd_storage_location :: string
  bd_credentials :: credentials
  bd_scan_plan_endpoint :: string
  bd_has_catalog :: bool
  bd_table :: "(string \<times> api_table) option"
  bd_lookup :: "string option"
  bd_filter_json :: string

record scan_state = set_state +
  sc_file_list :: "list_state option"

datatype scan_function = PlannedScan scan_bind_data | DeltaScan string

datatype inner_scan = ParquetInner list_state | DeltaInner string

definition bd_plan_ref :: "scan_bind_data \<Rightarrow> plan_ref" where
  "bd_plan_ref bd = \<lparr>pr_catalog = bd_catalog_name bd, pr_schema = bd_schema_name bd, pr_table = bd_table_name bd,
     pr_token = token (bd_credentials bd), pr_endpoint = bd_scan_plan_endpoint bd\<rparr>"

section \<open>Choosing the scan\<close>

text \<open>\<open>at\<close> is the AT clause of the lookup, empty when there is none.\<close>

definition new_bind_data :: "catalog_settings \<Rightarrow> string \<Rightarrow> api_table \<Rightarrow> string \<Rightarrow> scan_bind_data" where
  "new_bind_data cat k td at =
     \<lparr>bd_catalog_name = tb_catalog_name td, bd_schema_name = tb_schema_name td, bd_table_name = tb_name td,
      bd_storage_location = tb_storage_location td, bd_credentials = cat_credentials cat,
      bd_scan_plan_endpoint = get_irc_endpoint (cat_credentials cat), bd_has_catalog = True,
      bd_table = Some (k, td), bd_lookup = Some at, bd_filter_json = []\<rparr>"

definition get_scan_function ::
  "env \<Rightarrow> catalog_settings \<Rightarrow> string \<Rightarrow> string \<Rightarrow> api_table \<Rightarrow> string \<Rightarrow> ('x set_state_scheme, scan_function) io" where
  "get_scan_function env cat schema k td at =
     bind (if scan_plan_can_read td then should_try_scan_plan env (cat_credentials cat) else ret False) (\<lambda>try_plan.
     if try_plan \<and> at = []
     then bind (refresh_credentials env cat td) (\<lambda>_. ret (PlannedScan (new_bind_data cat k td at)))
     else if tb_data_source_format td \<noteq> ''DELTA''
     then throw (NotImplementedException (''Table '' @ in_quotes (tb_name td) @ '' is of unsupported format ''
            @ in_quotes (tb_data_source_format td) @ '', ''))
     else bind (on_table k (build_delta_scan env cat schema td at)) (\<lambda>_.
          ret (DeltaScan (attached_catalog_name cat td))))"

definition get_scan_function_without_lookup :: uc_exn where
  "get_scan_function_without_lookup =
     InternalException ''UCTableEntry::GetScanFunction called without entry lookup info''"

definition bind_update_constraints :: uc_exn where
  "bind_update_constraints = NotImplementedException ''BindUpdateConstraints''"

section \<open>The filter\<close>

definition pushdown_filter ::
  "(u64 \<Rightarrow> string) \<Rightarrow> scan_bind_data \<Rightarrow> expr list \<Rightarrow> ('x world_scheme, scan_bind_data) io" where
  "pushdown_filter fmt17g bd filters =
     (if filters = [] then ret bd
      else case serialize_filters_to_irc fmt17g filters of
        Inr json \<Rightarrow> ret (bd\<lparr>bd_filter_json := json\<rparr>)
      | Inl e \<Rightarrow> bind (log_warning ''api-irc.PlanTableScan'') (\<lambda>_. ret (bd\<lparr>bd_filter_json := []\<rparr>)))"

section \<open>Starting the scan\<close>

definition not_completed :: "scan_bind_data \<Rightarrow> scan_plan_result \<Rightarrow> uc_exn" where
  "not_completed bd plan = IOException (''scan-plan: planning for ''
     @ in_quotes (dotted (bd_catalog_name bd) (bd_schema_name bd) (bd_table_name bd)) @ '' returned status ''
     @ in_quotes (status_to_string (pl_status plan))
     @ (if pl_error_type plan = [] then [] else '' type='') @ pl_error_type plan
     @ (if pl_error_message plan = [] then [] else '': '') @ pl_error_message plan)"

text \<open>The body of the \<open>try\<close>.\<close>

definition plan_completed :: "env \<Rightarrow> scan_bind_data \<Rightarrow> ('x world_scheme, scan_plan_result) io" where
  "plan_completed env bd =
     bind (plan_table_scan env (bd_plan_ref bd) (bd_filter_json bd)) (\<lambda>plan.
     if pl_status plan \<noteq> COMPLETED then throw (not_completed bd plan) else ret plan)"

definition get_cfg :: "(string \<times> string) list \<Rightarrow> string \<Rightarrow> string" where
  "get_cfg cfg k = (case map_of cfg k of None \<Rightarrow> [] | Some v \<Rightarrow> v)"

definition plan_secret :: "scan_bind_data \<Rightarrow> nat \<Rightarrow> string \<times> (string \<times> string) list \<Rightarrow> secret_input" where
  "plan_secret bd i cred =
     \<lparr>sec_name = ''__internal_uc_scanplan__'' @ bd_catalog_name bd @ ''__'' @ bd_schema_name bd @ ''__''
        @ bd_table_name bd @ ''__'' @ show_nat i,
      sec_options = [(''key_id'', get_cfg (snd cred) ''s3.access-key-id''),
        (''secret'', get_cfg (snd cred) ''s3.secret-access-key''),
        (''session_token'', get_cfg (snd cred) ''s3.session-token''),
        (''region'', get_cfg (snd cred) ''client.region'')],
      sec_scope = fst cred\<rparr>"

fun create_plan_secrets ::
  "env \<Rightarrow> scan_bind_data \<Rightarrow> nat \<Rightarrow> (string \<times> (string \<times> string) list) list \<Rightarrow> ('x world_scheme, unit) io" where
  "create_plan_secrets env bd i [] = ret ()"
| "create_plan_secrets env bd i (c # cs) =
     bind (call (e_done env) (CreateSecret (plan_secret bd i c))) (\<lambda>_. create_plan_secrets env bd (Suc i) cs)"

definition empty_list :: "uc_call list \<Rightarrow> list_state" where
  "empty_list h = \<lparr>hist = h, fl_expanded_files = [], fl_file_deletes = [], fl_remaining_tokens = [],
     fl_all_files_expanded = False\<rparr>"

definition make_file_list :: "scan_plan_result \<Rightarrow> ('x scan_state_scheme, unit) io" where
  "make_file_list plan = (\<lambda>s. case new_file_list plan (empty_list (hist s)) of
     (Inl e, l) \<Rightarrow> (Inl e, s)
   | (Inr u, l) \<Rightarrow> (Inr (), s\<lparr>sc_file_list := Some l\<rparr>))"

text \<open>
  \<open>UCMultiFileReaderFactory\<close> takes the file list out of the thread-local. A bind that throws clears it; the lookup
  of \<open>parquet_scan\<close> before the bind is outside the handler.
\<close>

definition reader_factory :: "('x scan_state_scheme, list_state option) io" where
  "reader_factory =
     bind (get_state sc_file_list) (\<lambda>l. bind (modify (sc_file_list_update (\<lambda>_. None))) (\<lambda>_. ret l))"

definition bind_parquet :: "env \<Rightarrow> scan_bind_data \<Rightarrow> ('x scan_state_scheme, list_state) io" where
  "bind_parquet env bd =
     bind (call (e_done env) (LookupFunction ''parquet_scan'')) (\<lambda>_.
     let scan_path = (if bd_storage_location bd = [] then ''uc://scan_plan'' else bd_storage_location bd) in
     bind (attempt (bind (call (e_done env) (BindParquet scan_path)) (\<lambda>_. reader_factory))) (\<lambda>r.
     case r of
       Inl e \<Rightarrow> bind (modify (sc_file_list_update (\<lambda>_. None))) (\<lambda>_. throw e)
     | Inr l \<Rightarrow> (case l of None \<Rightarrow> throw (InternalException ''no file list'') | Some fl \<Rightarrow> ret fl)))"

definition adopt_inner_scan :: "env \<Rightarrow> ('x world_scheme, unit) io" where
  "adopt_inner_scan env = call (e_done env) InitInnerScan"

definition no_fallback :: "scan_bind_data \<Rightarrow> uc_exn" where
  "no_fallback bd = IOException (''UC scan plan API call failed for table '' @ in_quotes (bd_table_name bd)
     @ '' and no Delta fallback is available'')"

definition fall_back ::
  "env \<Rightarrow> catalog_settings \<Rightarrow> string \<Rightarrow> scan_bind_data \<Rightarrow> ('x scan_state_scheme, inner_scan) io" where
  "fall_back env cat schema bd =
     bind (if bd_has_catalog bd then mark_scan_plan_unavailable env else ret ()) (\<lambda>_.
     bind (log_warning ''api-irc.PlanTableScan'') (\<lambda>_.
     case (bd_table bd, bd_lookup bd) of
       (Some (k, td), Some at) \<Rightarrow>
         if tb_data_source_format td \<noteq> ''DELTA'' then throw (no_fallback bd)
         else bind (on_table k (build_delta_scan env cat schema td at)) (\<lambda>_.
              bind (adopt_inner_scan env) (\<lambda>_. ret (DeltaInner (attached_catalog_name cat td))))
     | _ \<Rightarrow> throw (no_fallback bd)))"

definition scan_planned_files ::
  "env \<Rightarrow> scan_bind_data \<Rightarrow> scan_plan_result \<Rightarrow> ('x scan_state_scheme, inner_scan) io" where
  "scan_planned_files env bd plan =
     bind (create_plan_secrets env bd 0 (pl_storage_credentials plan)) (\<lambda>_.
     bind (make_file_list plan) (\<lambda>_.
     bind (bind_parquet env bd) (\<lambda>fl.
     bind (adopt_inner_scan env) (\<lambda>_. ret (ParquetInner fl)))))"

definition init_global ::
  "env \<Rightarrow> catalog_settings \<Rightarrow> string \<Rightarrow> scan_bind_data \<Rightarrow> ('x scan_state_scheme, inner_scan) io" where
  "init_global env cat schema bd =
     bind (attempt (plan_completed env bd)) (\<lambda>r.
     case r of
       Inl e \<Rightarrow> if e = InterruptException then throw e else fall_back env cat schema bd
     | Inr plan \<Rightarrow>
         bind (if bd_has_catalog bd then mark_scan_plan_available else ret ()) (\<lambda>_.
         scan_planned_files env bd plan))"

text \<open>\<open>UCScanPlanProgress\<close>: no state, or an inner scan without a progress of its own, is -1.\<close>

definition scan_plan_progress :: "(int option) option \<Rightarrow> int" where
  "scan_plan_progress global_state =
     (case global_state of None \<Rightarrow> -1 | Some None \<Rightarrow> -1 | Some (Some p) \<Rightarrow> p)"

section \<open>Lemmas\<close>

lemma keeps_plan_completed [keeps_intro]: "keeps wrote (plan_completed env bd)"
proof -
  have "keeps wrote (plan_table_scan env p f)" for p f
    unfolding keeps_def by (metis plan_table_scan_calls made_wrote prod.collapse)
  then show ?thesis unfolding plan_completed_def by (auto intro!: keeps_intro)
qed

lemma plan_completed_Inr: "plan_completed env bd s = (Inr plan, t) \<Longrightarrow> pl_status plan = COMPLETED"
  by (auto simp: plan_completed_def bind_eq_Inr split: if_splits)

text \<open>The secrets of a plan are numbered in the order of its credentials.\<close>

definition plan_secrets :: "scan_bind_data \<Rightarrow> nat \<Rightarrow> (string \<times> (string \<times> string) list) list \<Rightarrow> uc_call list" where
  "plan_secrets bd i cs = map (\<lambda>(j, c). CreateSecret (plan_secret bd j c)) (enumerate i cs)"

lemma create_plan_secrets_calls:
  "create_plan_secrets env bd i cs s = (r, t) \<Longrightarrow>
     \<exists>ds. made s t ds \<and> prefix ds (plan_secrets bd i cs) \<and> (r = Inr () \<longrightarrow> ds = plan_secrets bd i cs)"
proof (induction env bd i cs arbitrary: s rule: create_plan_secrets.induct)
  case (2 env bd i c cs)
  let ?c = "CreateSecret (plan_secret bd i c)"
  have split: "plan_secrets bd i (c # cs) = ?c # plan_secrets bd (Suc i) cs" by (simp add: plan_secrets_def)
  show ?case
  proof (cases "e_done env (hist s @ [?c])")
    case (Inl e)
    then show ?thesis using 2(2) split by (intro exI[of _ "[?c]"]) (auto simp: bind_run made_def)
  next
    case (Inr u)
    then have "create_plan_secrets env bd (Suc i) cs (s\<lparr>hist := hist s @ [?c]\<rparr>) = (r, t)"
      using 2(2) by (simp add: bind_run)
    from 2(1)[OF this] obtain ds where "made (s\<lparr>hist := hist s @ [?c]\<rparr>) t ds" "prefix ds (plan_secrets bd (Suc i) cs)"
      "r = Inr () \<longrightarrow> ds = plan_secrets bd (Suc i) cs" by blast
    then show ?thesis using split by (intro exI[of _ "?c # ds"]) (auto simp: made_def)
  qed
qed (auto simp: plan_secrets_def)

definition scan_path :: "scan_bind_data \<Rightarrow> string" where
  "scan_path bd = (if bd_storage_location bd = [] then ''uc://scan_plan'' else bd_storage_location bd)"

definition parquet_lookup :: uc_call where
  "parquet_lookup = LookupFunction ''parquet_scan''"

lemma bind_parquet_result:
  assumes "bind_parquet env bd s = (r, t)" and "sc_file_list s = Some fl"
  shows "\<exists>h. case r of
      Inl e \<Rightarrow> t = s\<lparr>hist := h, sc_file_list := None\<rparr> \<or> t = s\<lparr>hist := hist s @ [parquet_lookup]\<rparr>
    | Inr l \<Rightarrow> t = s\<lparr>hist := hist s @ [parquet_lookup, BindParquet (scan_path bd)], sc_file_list := None\<rparr> \<and> l = fl"
  using assms
  by (auto simp: bind_parquet_def Let_def scan_path_def bind_run attempt_def reader_factory_def parquet_lookup_def
    split: sum.splits if_splits)

lemma scan_planned_files_result:
  assumes "scan_planned_files env bd plan s = (r, t)"
  shows "sp_availability t = sp_availability s \<and> us_tables t = us_tables s \<and>
    (case r of
       Inl e \<Rightarrow> sc_file_list t = None \<or> sc_file_list t = sc_file_list s \<or> last (hist t) = parquet_lookup
     | Inr inner \<Rightarrow> sc_file_list t = None \<and>
       (\<exists>fl h. inner = ParquetInner fl \<and> new_file_list plan (empty_list h) = (Inr (), fl) \<and>
         hist t = hist s @ plan_secrets bd 0 (pl_storage_credentials plan)
           @ [parquet_lookup, BindParquet (scan_path bd), InitInnerScan]))"
proof -
  obtain q s1 where sec: "create_plan_secrets env bd 0 (pl_storage_credentials plan) s = (q, s1)"
    by (cases "create_plan_secrets env bd 0 (pl_storage_credentials plan) s")
  obtain ds where ds: "s1 = s\<lparr>hist := hist s @ ds\<rparr>" "q = Inr () \<longrightarrow> ds = plan_secrets bd 0 (pl_storage_credentials plan)"
    using create_plan_secrets_calls[OF sec] by (auto simp: made_def)
  obtain v fl where l: "new_file_list plan (empty_list (hist s1)) = (v, fl)"
    by (cases "new_file_list plan (empty_list (hist s1))")
  show ?thesis
  proof (cases "q = Inr () \<and> v = Inr ()")
    case False
    then show ?thesis using assms sec ds l
      by (cases q; cases v) (auto simp: scan_planned_files_def bind_run make_file_list_def)
  next
    case True
    let ?s2 = "s1\<lparr>sc_file_list := Some fl\<rparr>"
    obtain b s3 where b: "bind_parquet env bd ?s2 = (b, s3)" by (cases "bind_parquet env bd ?s2")
    note s3 = bind_parquet_result[OF b, of fl]
    have "scan_planned_files env bd plan s =
        (case b of Inl e \<Rightarrow> (Inl e, s3) | Inr l \<Rightarrow> bind (adopt_inner_scan env) (\<lambda>_. ret (ParquetInner l)) s3)"
      using sec True l b by (simp add: scan_planned_files_def bind_run make_file_list_def)
    then show ?thesis using assms s3 ds True l
      by (cases b) (auto simp: adopt_inner_scan_def bind_run split: sum.splits)
  qed
qed

lemma on_table_same:
  assumes "on_table k m s = (r, t)"
  shows "sp_availability t = sp_availability s" "sc_file_list t = sc_file_list s" "tx_entries t = tx_entries s"
  using assms by (auto simp: on_table_def split: option.splits prod.splits)

lemma fall_back_result:
  assumes "fall_back env cat schema bd s = (r, t)"
  shows "sp_availability t = (if bd_has_catalog bd then UNAVAILABLE else sp_availability s) \<and>
    sc_file_list t = sc_file_list s \<and>
    (case r of Inl e \<Rightarrow> True | Inr inner \<Rightarrow>
       \<exists>td. map_option snd (bd_table bd) = Some td \<and> tb_data_source_format td = ''DELTA'' \<and>
         inner = DeltaInner (attached_catalog_name cat td))"
proof -
  define s1 where "s1 = snd (bind (if bd_has_catalog bd then mark_scan_plan_unavailable env else ret ())
    (\<lambda>_. log_warning ''api-irc.PlanTableScan'') s)"
  have s1: "sp_availability s1 = (if bd_has_catalog bd then UNAVAILABLE else sp_availability s)"
    "sc_file_list s1 = sc_file_list s"
    by (auto simp: s1_def mark_scan_plan_unavailable_def bind_run log_warning_def now_def)
  have run: "fall_back env cat schema bd s = (case (bd_table bd, bd_lookup bd) of
       (Some (k, td), Some at) \<Rightarrow>
         if tb_data_source_format td \<noteq> ''DELTA'' then throw (no_fallback bd)
         else bind (on_table k (build_delta_scan env cat schema td at)) (\<lambda>_.
              bind (adopt_inner_scan env) (\<lambda>_. ret (DeltaInner (attached_catalog_name cat td))))
     | _ \<Rightarrow> throw (no_fallback bd)) s1"
    by (auto simp: fall_back_def s1_def mark_scan_plan_unavailable_def bind_run log_warning_def now_def)
  show ?thesis
  proof (cases "\<exists>k td at. bd_table bd = Some (k, td) \<and> bd_lookup bd = Some at \<and> tb_data_source_format td = ''DELTA''")
    case False
    then show ?thesis using assms run s1 by (auto split: option.splits prod.splits if_splits)
  next
    case True
    then obtain k td at where bd: "bd_table bd = Some (k, td)" "bd_lookup bd = Some at"
      "tb_data_source_format td = ''DELTA''" by blast
    obtain v s2 where t: "on_table k (build_delta_scan env cat schema td at) s1 = (v, s2)"
      by (cases "on_table k (build_delta_scan env cat schema td at) s1")
    from assms run bd t have "(case v of Inl e \<Rightarrow> (Inl e, s2)
        | Inr u \<Rightarrow> bind (adopt_inner_scan env) (\<lambda>_. ret (DeltaInner (attached_catalog_name cat td))) s2) = (r, t)"
      by (simp add: bind_run)
    then show ?thesis using on_table_same[OF t] s1 bd
      by (auto simp: adopt_inner_scan_def bind_run split: sum.splits)
  qed
qed

lemma bind_modify: "bind (modify g) f s = f () (g s)"
  by (simp add: bind_run)

lemma init_global_run:
  assumes "plan_completed env bd s = (p, s1)"
  shows "init_global env cat schema bd s =
    (case p of
       Inl e \<Rightarrow> if e = InterruptException then (Inl e, s1) else fall_back env cat schema bd s1
     | Inr plan \<Rightarrow> scan_planned_files env bd plan
         (if bd_has_catalog bd then s1\<lparr>sp_availability := AVAILABLE\<rparr> else s1))"
  using assms
  by (cases p) (auto simp: init_global_def bind_attempt mark_scan_plan_available_def bind_modify)

section \<open>Properties\<close>

text \<open>
  C12: The catalog's gate follows planning and nothing else. A cancelled query leaves it and is passed on as it
  is; any other failure to plan shuts it, and a plan opens it, however the scan goes on. Only a failure
  makes the Delta scan run instead, of a Delta table; a plan that is not completed counts as a failure.
\<close>

theorem gate_follows_planning:
  "case plan_completed env bd s of (p, s1) \<Rightarrow> case init_global env cat schema bd s of (r, t) \<Rightarrow>
     (case p of
        Inr plan \<Rightarrow>
          pl_status plan = COMPLETED \<and>
          sp_availability t = (if bd_has_catalog bd then AVAILABLE else sp_availability s) \<and>
          (case r of Inr (DeltaInner n) \<Rightarrow> False | _ \<Rightarrow> True)
      | Inl e \<Rightarrow>
          if e = InterruptException then r = Inl e \<and> t = s1 \<and> sp_availability t = sp_availability s
          else sp_availability t = (if bd_has_catalog bd then UNAVAILABLE else sp_availability s) \<and>
            (case r of
               Inl e' \<Rightarrow> True
             | Inr (ParquetInner fl) \<Rightarrow> False
             | Inr (DeltaInner n) \<Rightarrow>
                 \<exists>td. map_option snd (bd_table bd) = Some td \<and> tb_data_source_format td = ''DELTA''))"
proof -
  obtain p s1 where p: "plan_completed env bd s = (p, s1)" by (cases "plan_completed env bd s")
  obtain r t where r: "init_global env cat schema bd s = (r, t)" by (cases "init_global env cat schema bd s")
  have "wrote s s1" by (rule wr.keepsD[OF keeps_plan_completed p])
  then obtain h where s1: "s1 = s\<lparr>hist := h\<rparr>" by (auto simp: wrote_def)
  show ?thesis
  proof (cases p)
    case (Inl e)
    show ?thesis
    proof (cases "e = InterruptException")
      case True
      then show ?thesis using Inl p r s1 init_global_run[OF p] by auto
    next
      case False
      then have "fall_back env cat schema bd s1 = (r, t)" using Inl r init_global_run[OF p] by simp
      from fall_back_result[OF this] show ?thesis using Inl False p r s1 by (auto split: sum.splits inner_scan.splits)
    qed
  next
    case (Inr plan)
    let ?s = "if bd_has_catalog bd then s1\<lparr>sp_availability := AVAILABLE\<rparr> else s1"
    have "scan_planned_files env bd plan ?s = (r, t)"
      using Inr r init_global_run[OF p] by simp
    from scan_planned_files_result[OF this] show ?thesis
      using Inr p r s1 plan_completed_Inr[of env bd s plan s1] by (auto split: sum.splits)
  qed
qed

text \<open>
  C14: A planned scan reads its own plan. The parquet scan it starts has the file list made of that very plan;
  between planning and the parquet bind every storage credential of the plan became a secret, in order
  and under a name of its own, and nothing but the lookup of the reader was done; and however the scan starts or fails, the
  thread-local holds no file list of it that a later bind on the thread could take, unless that lookup failed.
\<close>

theorem planned_scan_reads_its_plan:
  "case plan_completed env bd s of (p, s1) \<Rightarrow> case init_global env cat schema bd s of (r, t) \<Rightarrow>
     (case r of
        Inl e \<Rightarrow> sc_file_list t = None \<or> sc_file_list t = sc_file_list s \<or> last (hist t) = LookupFunction ''parquet_scan''
      | Inr inner \<Rightarrow> sc_file_list t = None \<or> sc_file_list t = sc_file_list s) \<and>
     (case (p, r) of
        (Inr plan, Inr (ParquetInner fl)) \<Rightarrow>
          (\<exists>h. new_file_list plan (empty_list h) = (Inr (), fl)) \<and>
          hist t = hist s1 @ plan_secrets bd 0 (pl_storage_credentials plan)
            @ [LookupFunction ''parquet_scan'', BindParquet (scan_path bd), InitInnerScan]
      | _ \<Rightarrow> True)"
proof -
  obtain p s1 where p: "plan_completed env bd s = (p, s1)" by (cases "plan_completed env bd s")
  obtain r t where r: "init_global env cat schema bd s = (r, t)" by (cases "init_global env cat schema bd s")
  have "wrote s s1" by (rule wr.keepsD[OF keeps_plan_completed p])
  then obtain h where s1: "s1 = s\<lparr>hist := h\<rparr>" by (auto simp: wrote_def)
  show ?thesis
  proof (cases p)
    case (Inl e)
    show ?thesis
    proof (cases "e = InterruptException")
      case True
      then show ?thesis using Inl p r s1 init_global_run[OF p] by (auto split: sum.splits)
    next
      case False
      then have "fall_back env cat schema bd s1 = (r, t)" using Inl r init_global_run[OF p] by simp
      from fall_back_result[OF this] show ?thesis using Inl p r s1 by (auto split: sum.splits)
    qed
  next
    case (Inr plan)
    let ?s = "if bd_has_catalog bd then s1\<lparr>sp_availability := AVAILABLE\<rparr> else s1"
    have "scan_planned_files env bd plan ?s = (r, t)"
      using Inr r init_global_run[OF p] by simp
    from scan_planned_files_result[OF this] show ?thesis
      using Inr p r s1 by (auto simp: parquet_lookup_def split: sum.splits inner_scan.splits if_splits)
  qed
qed

text \<open>
  C31: A scan is planned by the server only where the user asked for it, for a table a planned scan reads right,
  and for the latest version: a lookup with an AT clause always reads Delta. The Delta scan is
  of a Delta table whose database is attached by then; a table of another format has no other scan.
\<close>

theorem planned_only_when_safe:
  "case get_scan_function env cat schema k td at s of
     (Inl e, t) \<Rightarrow> True
   | (Inr (PlannedScan bd), t) \<Rightarrow>
       at = [] \<and> use_irc_scan_plan (cat_credentials cat) \<and> scan_plan_can_read td \<and>
       bd_filter_json bd = [] \<and> bd_table bd = Some (k, td) \<and> bd_storage_location bd = tb_storage_location td
   | (Inr (DeltaScan n), t) \<Rightarrow>
       tb_data_source_format td = ''DELTA'' \<and> n = attached_catalog_name cat td \<and> k \<in> attached_keys (us_tables t)"
proof (cases rule: run_cases[of "get_scan_function env cat schema k td at s"])
  case (Inr f t)
  let ?gate = "if scan_plan_can_read td then should_try_scan_plan env (cat_credentials cat) else ret False"
  obtain b s1 where b: "?gate s = (Inr b, s1)"
    using Inr unfolding get_scan_function_def bind_eq_Inr by blast
  show ?thesis
  proof (cases "b \<and> at = []")
    case True
    then have "use_irc_scan_plan (cat_credentials cat)" "scan_plan_can_read td"
      using b by (auto simp: should_try_scan_plan_def split: if_splits)
    moreover have "f = PlannedScan (new_bind_data cat k td at)"
      using Inr b True unfolding get_scan_function_def bind_Inr[of ?gate s b s1, OF b] by (auto simp: bind_eq_Inr)
    ultimately show ?thesis using Inr True by (simp add: new_bind_data_def)
  next
    case False
    then have fmt: "tb_data_source_format td = ''DELTA''" and f: "f = DeltaScan (attached_catalog_name cat td)"
      and d: "on_table k (build_delta_scan env cat schema td at) s1 = (Inr (), t)"
      using Inr b unfolding get_scan_function_def bind_Inr[of ?gate s b s1, OF b] by (auto simp: bind_eq_Inr split: if_splits)
    obtain ti u where "map_of (us_tables t) k = Some (leave_table ti u)"
      and u: "build_delta_scan env cat schema td at (enter_table ti (hist s1)) = (Inr (), u)"
      using on_table_run[OF d] d by (cases "map_of (us_tables s1) k") (auto simp: on_table_def)
    moreover have "ti_attached u \<noteq> None"
    proof -
      obtain s2 s3 :: table_state where a: "internal_attach env cat schema td s2 = (Inr (), s3)" "ti_attached u = ti_attached s3"
        using u by (auto simp: build_delta_scan_def bind_eq_Inr split: if_splits)
      then show ?thesis using internal_attach_result[OF a(1)] by (auto simp: keeps_database_def split: if_splits)
    qed
    ultimately show ?thesis using Inr f fmt by (auto simp: attached_keys_def leave_table_def)
  qed
qed simp

text \<open>
  Capturing the filter never fails the query and touches nothing but the filter: a call without filters keeps
  what was captured, and one with filters captures their serialization, or no filter at all.
\<close>

theorem pushdown_captures_filter:
  "case pushdown_filter fmt17g bd filters s of
     (Inl e, t) \<Rightarrow> False
   | (Inr bd', t) \<Rightarrow>
       wrote s t \<and> bd' = bd\<lparr>bd_filter_json := bd_filter_json bd'\<rparr> \<and>
       (if filters = [] then bd' = bd
        else bd_filter_json bd' = [] \<or> serialize_filters_to_irc fmt17g filters = Inr (bd_filter_json bd'))"
  by (auto simp: pushdown_filter_def wrote_def log_warning_def bind_run split: sum.splits)

end
