(* ===== verification/UC_Attach.thy ===== *)
theory UC_Attach
  imports UC_Schema
begin

text \<open>
  Secrets and \<open>ATTACH\<close> (\<open>src/unity_catalog_extension.cpp\<close>): \<open>CreateUCSecretFunction\<close>, \<open>GetSecret\<close> and
  \<open>UnityCatalogAttach\<close>, which reads the options, finds the secret, asks for the default schema where none is
  given, and constructs the catalog.

  The secret manager is DuckDB's: \<open>secrets name storage\<close> is the key-value secret of that name in that storage, a
  parameter. A value is given by what the casts the code makes of it read; NULL is None, and DuckDB
  prints NULL as the four letters. The properties say which credentials a catalog gets from which secret,
  and when an ATTACH is refused.
\<close>

section \<open>Secrets\<close>

record kv_secret =
  kv_type :: string
  kv_provider :: string
  kv_name :: string
  kv_map :: "string \<rightharpoonup> string"
  kv_redact_keys :: "string list"

fun set_secret_options :: "(string \<times> string) list \<Rightarrow> (string \<rightharpoonup> string) \<Rightarrow> (string \<rightharpoonup> string) res" where
  "set_secret_options [] m = Inr m"
| "set_secret_options ((k, v) # os) m =
     (let lower_name = lower k in
     if lower_name = ''token'' then set_secret_options os (m(''token'' \<mapsto> v))
     else if lower_name = ''endpoint'' then set_secret_options os (m(''endpoint'' \<mapsto> v))
     else if lower_name = ''aws_region'' then set_secret_options os (m(''aws_region'' \<mapsto> v))
     else Inl (InternalException (''Unknown named parameter passed to CreateUCSecretFunction: '' @ lower_name)))"

definition create_uc_secret :: "bool \<Rightarrow> string \<Rightarrow> (string \<times> string) list \<Rightarrow> kv_secret res" where
  "create_uc_secret short_name name options =
     (let type = (if short_name then ''uc'' else ''unity_catalog'') in
     bind_res (set_secret_options options Map.empty) (\<lambda>m.
     Inr \<lparr>kv_type = type, kv_provider = ''config'', kv_name = name, kv_map = m, kv_redact_keys = [''token'']\<rparr>))"

definition get_secret :: "(string \<Rightarrow> string \<Rightarrow> kv_secret option) \<Rightarrow> string \<Rightarrow> kv_secret option" where
  "get_secret secrets secret_name =
     (case secrets secret_name ''memory'' of
        Some e \<Rightarrow> Some e
      | None \<Rightarrow> (case secrets secret_name ''local_file'' of Some e \<Rightarrow> Some e | None \<Rightarrow> None))"

section \<open>ATTACH\<close>

record option_value =
  ov_text :: string
  ov_bool :: "bool res"

record attach_settings =
  as_secret_name :: string
  as_default_schema :: string
  as_credentials :: credentials

record attached_catalog =
  ac_internal_name :: string
  ac_read_only :: bool
  ac_credentials :: credentials
  ac_default_schema :: string
  ac_catalog_name :: string

definition no_settings :: attach_settings where
  "no_settings = \<lparr>as_secret_name = [], as_default_schema = [],
     as_credentials = \<lparr>endpoint = [], token = [], aws_region = [], use_irc_scan_plan = False, irc_endpoint_override = []\<rparr>\<rparr>"

fun read_attach_options :: "(string \<times> option_value) list \<Rightarrow> attach_settings \<Rightarrow> attach_settings res" where
  "read_attach_options [] st = Inr st"
| "read_attach_options ((k, v) # os) st =
     (let lower_name = lower k in
     if lower_name = ''type'' \<or> lower_name = ''read_only'' then read_attach_options os st
     else if lower_name = ''secret'' then read_attach_options os (st\<lparr>as_secret_name := ov_text v\<rparr>)
     else if lower_name = ''default_schema'' then read_attach_options os (st\<lparr>as_default_schema := ov_text v\<rparr>)
     else if lower_name = ''use_irc_scan_plan''
     then bind_res (ov_bool v) (\<lambda>b. read_attach_options os
            (st\<lparr>as_credentials := (as_credentials st)\<lparr>use_irc_scan_plan := b\<rparr>\<rparr>))
     else if lower_name = ''api_irc_endpoint_override''
     then read_attach_options os
            (st\<lparr>as_credentials := (as_credentials st)\<lparr>irc_endpoint_override := rtrim ''/'' (ov_text v)\<rparr>\<rparr>)
     else Inl (BinderException (''Unrecognized option for UC attach: '' @ k)))"

definition find_secret :: "(string \<Rightarrow> string \<Rightarrow> kv_secret option) \<Rightarrow> string \<Rightarrow> kv_secret option" where
  "find_secret secrets secret_name =
     (if secret_name \<noteq> [] then get_secret secrets secret_name
      else case get_secret secrets ''__default_unity_catalog'' of
        Some e \<Rightarrow> Some e
      | None \<Rightarrow> get_secret secrets ''__default_uc'')"

definition value_to_string :: "string option \<Rightarrow> string" where
  "value_to_string v = (case v of None \<Rightarrow> ''NULL'' | Some s \<Rightarrow> s)"

text \<open>The third line tests the endpoint, as the code does.\<close>

definition read_secret :: "kv_secret \<Rightarrow> credentials \<Rightarrow> credentials" where
  "read_secret kv c =
     (let input_val = kv_map kv ''token'';
          endpoint_val = kv_map kv ''endpoint'';
          aws_region_val = kv_map kv ''aws_region''
      in c\<lparr>token := (if input_val = None then [] else value_to_string input_val),
           endpoint := rtrim ''/'' (if endpoint_val = None then [] else value_to_string endpoint_val),
           aws_region := (if endpoint_val = None then [] else value_to_string aws_region_val)\<rparr>)"

text \<open>\<open>catch (Exception &)\<close>: DuckDB's exceptions, not those of the C++ library.\<close>

fun is_duckdb_exception :: "uc_exn \<Rightarrow> bool" where
  "is_duckdb_exception (StdException m) = False"
| "is_duckdb_exception _ = True"

definition detect_default_schema :: "env \<Rightarrow> credentials \<Rightarrow> string \<Rightarrow> ('x world_scheme, string) io" where
  "detect_default_schema env creds default_schema =
     (if default_schema \<noteq> [] then ret default_schema
      else bind (attempt (api_get_default_schema env creds)) (\<lambda>r.
        case r of
          Inr d \<Rightarrow> ret d
        | Inl e \<Rightarrow>
            if is_duckdb_exception e then bind (log_warning ''api.GetDefaultSchema'') (\<lambda>_. ret default_schema)
            else throw e))"

definition unity_catalog_attach ::
  "env \<Rightarrow> bool \<Rightarrow> (string \<Rightarrow> string \<Rightarrow> kv_secret option) \<Rightarrow> string \<Rightarrow> bool \<Rightarrow> (string \<times> option_value) list
    \<Rightarrow> ('x world_scheme, attached_catalog) io" where
  "unity_catalog_attach env deprecated_name secrets path read_only options =
     bind (lift_res (read_attach_options options no_settings)) (\<lambda>st.
     let secret_entry = find_secret secrets (as_secret_name st) in
     bind (case secret_entry of
             Some kv \<Rightarrow> ret (read_secret kv (as_credentials st))
           | None \<Rightarrow>
               if as_secret_name st \<noteq> []
               then throw (BinderException (''Secret with name '' @ in_double_quotes (as_secret_name st) @ '' not found''))
               else ret (as_credentials st)) (\<lambda>creds.
     bind (detect_default_schema env creds (as_default_schema st)) (\<lambda>default_schema.
     ret \<lparr>ac_internal_name = path, ac_read_only = read_only, ac_credentials = creds,
          ac_default_schema = default_schema,
          ac_catalog_name = (if deprecated_name then ''uc_catalog'' else ''unity_catalog'')\<rparr>)))"

text \<open>The settings the operations of the catalog are run with; \<open>name\<close> is the database's.\<close>

definition settings_of :: "string \<Rightarrow> attached_catalog \<Rightarrow> catalog_settings" where
  "settings_of name c = \<lparr>cat_name = name, cat_db_path = ac_internal_name c, cat_read_only = ac_read_only c,
     cat_credentials = ac_credentials c\<rparr>"

section \<open>Lemmas\<close>

definition secret_parameters :: "string set" where
  "secret_parameters = {''token'', ''endpoint'', ''aws_region''}"

lemma set_secret_options_step:
  "set_secret_options ((k, v) # os) m =
     (if lower k \<in> secret_parameters then set_secret_options os (m(lower k \<mapsto> v))
      else Inl (InternalException (''Unknown named parameter passed to CreateUCSecretFunction: '' @ lower k)))"
  by (auto simp: secret_parameters_def Let_def)

lemma last_option_Cons:
  "last_option p ((k, v) # os) =
     (case last_option p os of None \<Rightarrow> if lower k = lower p then Some v else None | Some w \<Rightarrow> Some w)"
  by (auto simp: last_option_def find_option_append split: option.splits)

lemma set_secret_options_result:
  "case set_secret_options os m of
     Inl e \<Rightarrow> \<not> lower ` fst ` set os \<subseteq> secret_parameters
   | Inr m' \<Rightarrow> lower ` fst ` set os \<subseteq> secret_parameters \<and>
       (\<forall>p. lower p = p \<longrightarrow> m' p = (case last_option p os of None \<Rightarrow> m p | Some v \<Rightarrow> Some v))"
proof (induction os arbitrary: m)
  case (Cons x os)
  obtain k v where kv: "x = (k, v)" by (cases x)
  define n where "n = m(lower k \<mapsto> v)"
  have n: "n p = (if lower k = p then Some v else m p)" for p by (simp add: n_def)
  define q where "q = set_secret_options os n"
  show ?case unfolding kv set_secret_options_step n_def[symmetric] q_def[symmetric]
    using Cons[of n] unfolding q_def[symmetric]
    by (auto simp: last_option_Cons n split: sum.splits option.splits)
qed (simp add: last_option_def)

lemma lower_parameters: "lower ''token'' = ''token''" "lower ''endpoint'' = ''endpoint''" "lower ''aws_region'' = ''aws_region''"
  by code_simp+

section \<open>Properties\<close>

text \<open>
  C37: What CREATE SECRET is given is what ATTACH reads back, whatever the case of the letters: the last token, and
  the last endpoint without its trailing slashes. The region is read back only if there is an endpoint,
  and one that was never given becomes the text NULL. Any other parameter is refused.
\<close>

theorem secret_read_back:
  "case create_uc_secret short_name name options of
     Inl e \<Rightarrow> \<not> lower ` fst ` set options \<subseteq> secret_parameters
   | Inr kv \<Rightarrow>
       kv_redact_keys kv = [''token''] \<and>
       read_secret kv c = c\<lparr>
         token := (case last_option ''token'' options of None \<Rightarrow> [] | Some v \<Rightarrow> v),
         endpoint := rtrim ''/'' (case last_option ''endpoint'' options of None \<Rightarrow> [] | Some v \<Rightarrow> v),
         aws_region := (if last_option ''endpoint'' options = None then []
                        else case last_option ''aws_region'' options of None \<Rightarrow> ''NULL'' | Some v \<Rightarrow> v)\<rparr>"
proof (cases "set_secret_options options Map.empty")
  case (Inl e)
  then show ?thesis using set_secret_options_result[of options Map.empty] by (simp add: create_uc_secret_def Let_def)
next
  case (Inr m)
  have m: "m p = last_option p options" if "lower p = p" for p
    using set_secret_options_result[of options Map.empty] Inr that by (auto split: option.splits)
  show ?thesis using Inr m[OF lower_parameters(1)] m[OF lower_parameters(2)] m[OF lower_parameters(3)]
    by (auto simp: create_uc_secret_def Let_def read_secret_def value_to_string_def split: option.splits)
qed

lemma bind_log: "bind (log_warning w) f s = f () (s\<lparr>hist := hist s @ [LogWarning w]\<rparr>)"
  by (simp add: bind_run log_warning_def)

lemma detect_default_schema_result:
  assumes "detect_default_schema env creds ds s = (r, t)"
  shows "wrote s t \<and>
    (if ds \<noteq> [] then r = Inr ds \<and> t = s
     else case fst (api_get_default_schema env creds s) of
       Inr d \<Rightarrow> r = Inr d
     | Inl e \<Rightarrow> r = (if is_duckdb_exception e then Inr [] else Inl e))"
proof -
  have k: "keeps wrote (detect_default_schema env creds ds)"
    unfolding detect_default_schema_def api_get_default_schema_def log_warning_def
    by (auto intro!: keeps_intro split: sum.splits)
  have "wrote s t" by (rule wr.keepsD[OF k assms])
  moreover obtain q u where "api_get_default_schema env creds s = (q, u)"
    by (cases "api_get_default_schema env creds s")
  ultimately show ?thesis using assms
    by (cases q) (auto simp: detect_default_schema_def bind_attempt bind_log split: if_splits)
qed


end
