(* ===== verification/UC_Read_Only.thy ===== *)
theory UC_Read_Only
  imports UC_Scan UC_Attach
begin

text \<open>
  The operations of an attached catalog composed: \<open>catalog_step\<close> is one statement's use of it, down from the catalog
  over a schema and its table set to a table. The theory shows that in a read-only catalog no sequence of
  lookups, scans, CREATE TABLEs and detaches writes to storage. Inserts and checkpoints are not among the
  steps: DuckDB refuses the first, and the second are written all the same (\<open>checkpoint_ignores_read_only\<close>).
\<close>

section \<open>Steps of a catalog\<close>

inductive catalog_step ::
  "env \<Rightarrow> put_fun \<Rightarrow> path_ops \<Rightarrow> catalog_settings \<Rightarrow> string \<Rightarrow> uc_state \<Rightarrow> uc_state \<Rightarrow> bool"
  for env put po cat default_schema where
  schema_lookup: "lookup_schema env cat default_schema name return_null s = (r, t)
    \<Longrightarrow> catalog_step env put po cat default_schema s t"
| entry_lookup: "lookup_entry env cat sk schema type name at s = (r', t) \<Longrightarrow> catalog_step env put po cat default_schema s t"
| list_tables: "schema_scan env cat sk schema type s = (r'', t) \<Longrightarrow> catalog_step env put po cat default_schema s t"
| create: "schema_create_table env put po cat sk schema info s = (u, t) \<Longrightarrow> catalog_step env put po cat default_schema s t"
| scan: "on_schema sk (get_scan_function env cat schema k td at') s = (f, t)
    \<Longrightarrow> catalog_step env put po cat default_schema s t"
| detach: "catalog_on_detach env cat s = (u, t) \<Longrightarrow> catalog_step env put po cat default_schema s t"
| clear: "clear_cache s = (u, t) \<Longrightarrow> catalog_step env put po cat default_schema s t"
| start_tx: "start_transaction s = (u, t) \<Longrightarrow> catalog_step env put po cat default_schema s t"
| commit_tx: "commit_transaction s = (u, t) \<Longrightarrow> catalog_step env put po cat default_schema s t"
| rollback_tx: "rollback_transaction s = (u, t) \<Longrightarrow> catalog_step env put po cat default_schema s t"

section \<open>Calls that write nothing\<close>

definition writes_nothing :: "uc_call \<Rightarrow> bool" where
  "writes_nothing c = write_scope [] True c"

lemma write_scope_read_only: "write_scope location True c = writes_nothing c"
  by (cases c) (simp_all add: writes_nothing_def)

named_theorems quiet

lemmas [quiet] = lg.keeps_pure lg.keeps_bind lg.keeps_attempt

lemma quiet_call [quiet]: "writes_nothing c \<Longrightarrow> keeps (logged writes_nothing) (call answer c)"
  by (rule logged_call)

lemma quiet_modify [quiet]: "(\<And>s. hist (g s) = hist s) \<Longrightarrow> keeps (logged writes_nothing) (modify g)"
  by (rule logged_modify)

lemmas quiet_request_resp = scope_request[of _ True, unfolded write_scope_read_only]
lemmas [quiet] = quiet_request_resp scope_request_json[of _ True, unfolded write_scope_read_only]

lemma quiet_log [quiet]: "keeps (logged writes_nothing) (log_warning w)"
  unfolding log_warning_def by (rule quiet_call) (simp add: writes_nothing_def)

lemma quiet_now [quiet]: "keeps (logged writes_nothing) (now env)"
  unfolding now_def by (rule quiet_call) (simp add: writes_nothing_def)

lemma quiet_requests [quiet]:
  "keeps (logged writes_nothing) (get_tables env db schema creds)"
  "keeps (logged writes_nothing) (get_schemas env db creds)"
  "keeps (logged writes_nothing) (get_table_credentials env c sch tb tid managed wr creds)"
  unfolding get_tables_def get_schemas_def get_table_credentials_def make_request_def
  by (auto intro!: quiet split: prod.splits)

lemma quiet_on_table [quiet]: "keeps (logged P) m \<Longrightarrow> keeps (logged P) (on_table k m)"
  unfolding keeps_def
proof
  fix s assume m: "\<forall>s. logged P s (snd (m s))"
  show "logged P s (snd (on_table k m s))"
  proof (cases "map_of (us_tables s) k")
    case None
    then show ?thesis by (simp add: on_table_def lg.R_refl)
  next
    case (Some ti)
    obtain r u where run: "m (enter_table ti (hist s)) = (r, u)" by (cases "m (enter_table ti (hist s))")
    have "logged P (enter_table ti (hist s)) u" using m run by (metis snd_conv)
    then show ?thesis using run Some by (simp add: on_table_def logged_def enter_table_def)
  qed
qed

lemma quiet_on_schema [quiet]: "keeps (logged P) m \<Longrightarrow> keeps (logged P) (on_schema k m)"
  unfolding keeps_def
proof
  fix s assume m: "\<forall>s. logged P s (snd (m s))"
  show "logged P s (snd (on_schema k m s))"
  proof (cases "map_of (uc_schemas s) k")
    case None
    then show ?thesis by (simp add: on_schema_def lg.R_refl)
  next
    case (Some si)
    obtain r u where run: "m (enter_schema si s) = (r, u)" by (cases "m (enter_schema si s)")
    have "logged P (enter_schema si s) u" using m run by (metis snd_conv)
    then show ?thesis using run Some by (simp add: on_schema_def logged_def enter_schema_def leave_schema_def)
  qed
qed

lemma quiet_load_if_needed [quiet]:
  "keeps (logged writes_nothing) ld \<Longrightarrow> (\<And>s. hist (set_loaded s) = hist s)
    \<Longrightarrow> keeps (logged writes_nothing) (load_if_needed loaded set_loaded ld)"
  unfolding load_if_needed_def by (auto intro!: quiet)

section \<open>The operations of a read-only catalog\<close>

lemma quiet_table_operations:
  assumes "cat_read_only cat"
  shows "keeps (logged writes_nothing) (entry_from_delta_log env cat schema td at)"
    "keeps (logged writes_nothing) (build_delta_scan env cat schema td at)"
    "keeps (logged writes_nothing) (refresh_credentials env cat td)"
proof -
  have w: "write_scope location True = writes_nothing" for location
    by (rule ext) (rule write_scope_read_only)
  show "keeps (logged writes_nothing) (entry_from_delta_log env cat schema td at)"
    using scope_entry[of td cat env schema at] by (simp only: assms w)
  show "keeps (logged writes_nothing) (build_delta_scan env cat schema td at)"
    using scope_scan[of td cat env schema at] by (simp only: assms w)
  have "writes_nothing (CreateSecret x)" for x by (simp add: writes_nothing_def)
  then show "keeps (logged writes_nothing) (refresh_credentials env cat td)"
    unfolding refresh_credentials_def by (auto intro!: quiet)
qed

lemma quiet_load_entries [quiet]: "keeps (logged writes_nothing) (load_entries env cat schema)"
proof -
  have c: "keeps (logged writes_nothing) (create_columns env cs cols bad)" for cs cols bad
    unfolding create_column_definition_def
    by (induction cs arbitrary: cols bad)
       (auto intro!: quiet simp: create_column_definition_def simp del: run_simps split: sum.splits prod.splits)
  have "keeps (logged writes_nothing) (load_entry env t)" for t
    unfolding load_entry_def Let_def by (auto intro!: quiet c split: prod.splits)
  then have "keeps (logged writes_nothing) (load_entry_list env ts)" for ts
    by (induction ts) (auto intro!: quiet simp del: run_simps)
  then show ?thesis unfolding load_entries_def by (auto intro!: quiet)
qed

lemma quiet_ensure_tables [quiet]: "keeps (logged writes_nothing) (ensure_tables_loaded env cat schema)"
  unfolding ensure_tables_loaded_def by (auto intro!: quiet)

lemma quiet_ensure_schemas [quiet]: "keeps (logged writes_nothing) (ensure_schemas_loaded env cat)"
proof -
  have "keeps (logged writes_nothing) (add_schemas xs)" for xs
    by (induction xs) (auto intro!: quiet simp: add_schema_entry_def Let_def simp del: run_simps)
  then show ?thesis unfolding ensure_schemas_loaded_def load_schemas_def by (auto intro!: quiet)
qed

lemma quiet_gate [quiet]: "keeps (logged writes_nothing) (should_try_scan_plan env creds)"
  unfolding should_try_scan_plan_def by (auto intro!: quiet)

lemma quiet_transaction [quiet]:
  "keeps (logged writes_nothing) (set_table_entry key e)" "keeps (logged writes_nothing) (get_table_entry key)"
  unfolding set_table_entry_def get_table_entry_def
  by (auto intro!: quiet simp: store_entry_def split: option.splits)

lemma quiet_bind_resolved [quiet]: "keeps (logged writes_nothing) (bind_resolved ti key entry)"
  unfolding bind_resolved_def warn_on_schema_divergence_def by (auto intro!: quiet split: option.splits)

lemma quiet_get_entry:
  assumes "cat_read_only cat"
  shows "keeps (logged writes_nothing) (get_entry env cat schema name at)"
proof -
  note ops = quiet_on_table[OF quiet_table_operations(1)[OF assms]]
  have "keeps (logged writes_nothing) (get_latest env cat schema k ti)" for k ti
    unfolding get_latest_def reads_report_def by (auto intro!: quiet ops simp del: run_simps)
  moreover have "keeps (logged writes_nothing) (get_at env cat schema k ti a)" for k ti a
    unfolding get_at_def by (auto intro!: quiet ops split: option.splits)
  ultimately show ?thesis unfolding get_entry_def get_version_def by (auto intro!: quiet split: option.splits)
qed

lemma quiet_internal_detach [quiet]: "keeps (logged writes_nothing) (internal_detach env cat td)"
  unfolding internal_detach_def by (auto intro!: quiet simp: writes_nothing_def)

lemma quiet_detach: "keeps (logged writes_nothing) (tables_on_detach env cat)"
proof -
  have "keeps (logged writes_nothing) (detach_tables env cat ts)" for ts
    by (induction env cat ts rule: detach_tables.induct) (auto intro!: quiet simp del: run_simps)
  then show ?thesis unfolding tables_on_detach_def by (auto intro!: quiet)
qed

lemma quiet_for_each: "(\<And>k. keeps (logged writes_nothing) (f k)) \<Longrightarrow> keeps (logged writes_nothing) (for_each f ks)"
  by (induction ks) (auto intro!: quiet simp del: run_simps)

lemma step_quiet:
  assumes "catalog_step env put po cat default_schema s t" and "cat_read_only cat"
  shows "logged writes_nothing s t"
  using assms
proof (induction rule: catalog_step.induct)
  case (schema_lookup name return_null s r t)
  have "keeps (logged writes_nothing) (lookup_schema env cat default_schema name return_null)"
    unfolding lookup_schema_def lookup_schema_entry_def get_schema_entry_def by (auto intro!: quiet)
  from lg.keepsD[OF this schema_lookup.hyps] show ?case .
next
  case (entry_lookup sk schema type name at s r' t)
  have "keeps (logged writes_nothing) (lookup_entry env cat sk schema type name at)"
    unfolding lookup_entry_def try_load_built_in_function_def
    by (auto intro!: quiet quiet_get_entry entry_lookup.prems split: option.splits)
  from lg.keepsD[OF this entry_lookup.hyps] show ?case .
next
  case (list_tables sk schema type s r'' t)
  have "keeps (logged writes_nothing) (schema_scan env cat sk schema type)"
    unfolding schema_scan_def scan_tables_def by (auto intro!: quiet)
  from lg.keepsD[OF this list_tables.hyps] show ?case .
next
  case (create sk schema info s u t)
  have "keeps (logged writes_nothing) (schema_create_table env put po cat sk schema info)"
    unfolding schema_create_table_def create_table_def using create.prems by (auto intro!: quiet)
  from lg.keepsD[OF this create.hyps] show ?case .
next
  case (scan sk schema k td at' s f t)
  have "keeps (logged writes_nothing) (on_schema sk (get_scan_function env cat schema k td at'))"
    unfolding get_scan_function_def
    by (auto intro!: quiet quiet_table_operations[OF scan.prems])
  from lg.keepsD[OF this scan.hyps] show ?case .
next
  case (detach s u t)
  have "keeps (logged writes_nothing) (catalog_on_detach env cat)"
    unfolding catalog_on_detach_def scan_schemas_def by (auto intro!: quiet quiet_for_each quiet_detach)
  from lg.keepsD[OF this detach.hyps] show ?case .
qed (auto simp: clear_cache_def clear_schema_entries_def start_transaction_def commit_transaction_def
    rollback_transaction_def tx_start_def tx_commit_def tx_rollback_def bind_run logged_def)

section \<open>Property\<close>

text \<open>
  C9: A read-only catalog writes nothing. Whatever lookups, listings, CREATE TABLEs, scans, detaches, cache clearings
  and transactions run on it, in any order and however they end, none of their calls creates, writes or
  removes a file, creates a Delta table, checkpoints or plans an insert; not even a backfill does.
\<close>

theorem read_only_catalog_writes_nothing:
  assumes "cat_read_only cat" and "(catalog_step env put po cat default_schema)\<^sup>*\<^sup>* s t"
  shows "\<exists>cs. hist t = hist s @ cs \<and> list_all writes_nothing cs"
proof -
  have "logged writes_nothing s t"
    using assms(2) by (induction rule: rtranclp_induct) (auto intro: lg.R_refl lg.R_trans step_quiet[OF _ assms(1)])
  then show ?thesis by (simp add: logged_def)
qed

definition read_only_witness :: catalog_settings where
  "read_only_witness = settings_witness\<lparr>cat_read_only := True\<rparr>"

definition uc_witness :: uc_state where
  "uc_witness = \<lparr>hist = [], sp_availability = UNKNOWN_PLAN, sp_unavailable_since = 0, tx_state = NOT_YET_STARTED,
     tx_entries = [], uc_schemas = [(''s'', (new_schema_info \<lparr>sc_schema_name = ''s'', sc_catalog_name = ''uc''\<rparr>)
       \<lparr>sh_tables := [(''t'', new_table_info plain_table [] [])], sh_tables_loaded := True\<rparr>)],
     uc_schemas_loaded = True\<rparr>"

text \<open>A scan that attaches the Delta database of a table.\<close>

lemma read_only_catalog_writes_nothing_witness:
  "\<exists>f t. on_schema ''s'' (get_scan_function env_log read_only_witness ''s'' ''t'' plain_table []) uc_witness = (Inr f, t) \<and>
     hist t \<noteq> [] \<and> (\<exists>cs. hist t = hist uc_witness @ cs \<and> list_all writes_nothing cs)"
proof -
  let ?ti = "new_table_info plain_table [] []"
  have managed: "\<not> is_catalog_managed plain_table"
    by (simp add: is_catalog_managed_def has_delta_feature_def plain_table_def)
  have location: "prefix ''file://'' (tb_storage_location plain_table)" "tb_data_source_format plain_table = ''DELTA''"
    by (simp_all add: plain_table_def table_witness_def)
  have opt: "\<not> use_irc_scan_plan (cat_credentials read_only_witness)"
    by (simp add: read_only_witness_def settings_witness_def)
  have scan: "\<exists>u. build_delta_scan env_log read_only_witness ''s'' plain_table [] (enter_table ?ti []) = (Inr (), u) \<and> hist u \<noteq> []"
    using managed location
    by (simp add: build_delta_scan_def refresh_credentials_def internal_attach_def detach_if_stale_def
        enter_table_def new_table_info_def bind_run env_log_def env_witness_def)
  obtain s0 :: set_state where s0: "s0 = enter_schema (snd (hd (uc_schemas uc_witness))) uc_witness" by blast
  have "\<exists>f u. get_scan_function env_log read_only_witness ''s'' ''t'' plain_table [] s0 = (Inr f, u) \<and> hist u \<noteq> []"
    using scan location opt
    by (auto simp: s0 get_scan_function_def should_try_scan_plan_def bind_run on_table_def enter_schema_def uc_witness_def)
  then obtain f u where "get_scan_function env_log read_only_witness ''s'' ''t'' plain_table [] s0 = (Inr f, u)" "hist u \<noteq> []"
    by blast
  then obtain t where run: "on_schema ''s'' (get_scan_function env_log read_only_witness ''s'' ''t'' plain_table []) uc_witness
      = (Inr f, t)" "hist t \<noteq> []"
    by (auto simp: on_schema_def s0 leave_schema_def uc_witness_def)
  have "cat_read_only read_only_witness" by (simp add: read_only_witness_def)
  moreover have "(catalog_step env_log put_witness \<lparr>po_path = (\<lambda>p ps. p), po_join = (@)\<rparr> read_only_witness ''s'')\<^sup>*\<^sup>* uc_witness t"
    using catalog_step.scan[OF run(1)] by (rule r_into_rtranclp)
  ultimately show ?thesis using read_only_catalog_writes_nothing run by blast
qed

end
