(* ===== verification/UC_Statements.thy ===== *)
theory UC_Statements
  imports UC_Read_Only
begin

text \<open>
  What every operation of the catalog keeps, once for all: the contract of a relation between the states before and after,
  over a table set (\<open>lookup_effect\<close>, for the statements on tables that are there) and over the catalog
  (\<open>catalog_effect\<close>). Whatever the few assignments that change the state respect, the lookups, listings, scans,
  CREATE TABLEs, inserts, checkpoints and detaches made of them respect. \<open>UC_Well_Formed\<close>, \<open>UC_Sessions\<close> and
  \<open>UC_Set_Threads\<close> interpret them.
\<close>

section \<open>Statements on the tables of a set\<close>

locale lookup_effect = tset: effect_order S
  for S :: "set_state \<Rightarrow> set_state \<Rightarrow> bool" +
  assumes S_call: "S s (s\<lparr>hist := h\<rparr>)"
    and S_gate: "S s (sp_availability_update a s)"
    and S_store: "S s (store_entry key e s)"
    and S_table: "map_of (us_tables s) k = Some ti \<Longrightarrow>
      S s (s\<lparr>hist := h, us_tables := AList.update k (leave_table ti u) (us_tables s)\<rparr>)"
begin

lemma S_wrote: "keeps wrote m \<Longrightarrow> keeps S m"
  unfolding keeps_def wrote_def using S_call by metis

lemma S_on_table: "keeps S (on_table k m)"
  using S_table tset.R_refl by (auto simp: keeps_def on_table_def split: option.split prod.split)

lemma S_modify: "(\<And>s. S s (g s)) \<Longrightarrow> keeps S (modify g)"
  by (simp add: keeps_def)

lemma S_basic: "keeps S (call answer c)" "keeps S (log_warning w)" "keeps S (now env)"
  by (simp_all add: keeps_def log_warning_def now_def S_call)

lemmas S_statement = tset.keeps_pure tset.keeps_bind tset.keeps_attempt S_basic S_wrote[OF keeps_refresh_credentials]
  S_on_table S_gate S_store

lemma S_get_version: "keeps S (get_version env cat schema k ti at)"
proof -
  have gate: "keeps S (should_try_scan_plan env creds)" for creds
    unfolding should_try_scan_plan_def by (auto intro!: S_statement S_modify)
  have tx: "keeps S (set_table_entry key e)" "keeps S (get_table_entry key)" for key e
    unfolding set_table_entry_def get_table_entry_def by (auto intro!: S_statement S_modify)
  have "keeps S (bind_resolved ti key entry)" for ti key entry
    unfolding bind_resolved_def warn_on_schema_divergence_def by (auto intro!: S_statement tx split: option.splits)
  then have "keeps S (get_latest env cat schema k ti)" for k ti
    unfolding get_latest_def reads_report_def by (auto intro!: S_statement tx gate simp del: run_simps)
  moreover have "keeps S (get_at env cat schema k ti a)" for k ti a
    unfolding get_at_def by (auto intro!: S_statement tx split: option.splits)
  ultimately show ?thesis unfolding get_version_def by (auto intro!: S_statement split: option.splits)
qed

lemma S_get_scan_function: "keeps S (get_scan_function env cat schema k td at)"
  unfolding get_scan_function_def should_try_scan_plan_def by (auto intro!: S_statement S_modify simp del: run_simps)

lemma S_detach: "keeps S (tables_on_detach env cat)"
proof -
  have "keeps S (detach_tables env cat ts)" for ts
    by (induction env cat ts rule: detach_tables.induct) (auto intro!: S_statement simp del: run_simps)
  then show ?thesis unfolding tables_on_detach_def by (auto intro!: S_statement)
qed

end

section \<open>All statements\<close>

locale catalog_effect = lookup_effect S + ctlg: effect_order C
  for S :: "set_state \<Rightarrow> set_state \<Rightarrow> bool" and C :: "uc_state \<Rightarrow> uc_state \<Rightarrow> bool" +
  assumes S_flag: "S s (us_is_loaded_update b s)"
    and S_add: "tb_name td \<noteq> [] \<Longrightarrow> map_of (us_tables s) (lower (tb_name td)) = None \<Longrightarrow>
      S s (s\<lparr>us_tables := us_tables s @ [(lower (tb_name td), new_table_info td cols bad)]\<rparr>)"
    and C_call: "C c (c\<lparr>hist := h\<rparr>)"
    and C_flag: "C c (uc_schemas_loaded_update b c)"
    and C_add: "sc_schema_name x \<noteq> [] \<Longrightarrow> map_of (uc_schemas c) (lower (sc_schema_name x)) = None \<Longrightarrow>
      C c (c\<lparr>uc_schemas := uc_schemas c @ [(lower (sc_schema_name x), new_schema_info x)]\<rparr>)"
    and C_functions: "map_of (uc_schemas c) sk = Some si \<Longrightarrow>
      C c (c\<lparr>uc_schemas := AList.update sk (si\<lparr>sh_functions := fs\<rparr>) (uc_schemas c)\<rparr>)"
    and C_schema: "map_of (uc_schemas c) sk = Some si \<Longrightarrow> S (enter_schema si c) s \<Longrightarrow> C c (leave_schema sk si s c)"
begin

lemma C_wrote: "keeps wrote m \<Longrightarrow> keeps C m"
  unfolding keeps_def wrote_def using C_call by metis

lemma C_on_schema: "keeps S m \<Longrightarrow> keeps C (on_schema sk m)"
  using C_schema ctlg.R_refl unfolding keeps_def on_schema_def by (auto split: option.split prod.split) (metis snd_conv)

lemma C_modify: "(\<And>s. C s (g s)) \<Longrightarrow> keeps C (modify g)"
  by (simp add: keeps_def)

lemmas S_intro = S_statement S_flag
lemmas C_intro = ctlg.keeps_pure ctlg.keeps_bind ctlg.keeps_attempt C_on_schema C_flag

text \<open>The operations of a table set.\<close>

lemma S_ensure: "keeps S (ensure_tables_loaded env cat schema)"
proof -
  have "keeps S (load_entry env t)" for t
    unfolding load_entry_def Let_def
    by (intro tset.keeps_bind[OF S_wrote[OF keeps_create_columns]])
       (auto simp: keeps_def bind_run intro: S_add tset.R_refl split: prod.splits)
  then have "keeps S (load_entry_list env ts)" for ts
    by (induction ts) (auto intro!: S_intro simp del: run_simps)
  moreover have "keeps S (get_tables env db schema creds)" for db creds
    unfolding get_tables_def make_request_def by (intro S_wrote) (auto intro!: keeps_intro)
  ultimately show ?thesis
    unfolding ensure_tables_loaded_def load_if_needed_def load_entries_def by (auto intro!: S_intro S_modify)
qed

lemma S_get_entry: "keeps S (get_entry env cat schema name at)"
  unfolding get_entry_def by (auto intro!: S_intro S_ensure S_get_version split: option.splits)

lemma S_create_table: "keeps S (create_table env put po cat schema info)"
  unfolding create_table_def mark_needs_reload_def
  by (auto intro!: S_intro S_modify S_wrote[OF keeps_create_managed] S_wrote[OF keeps_create_external] split: option.split)

text \<open>The operations of the catalog.\<close>

lemma C_ensure: "keeps C (ensure_schemas_loaded env cat)"
proof -
  have "keeps C (add_schema_entry (new_schema_info x))" for x
    by (auto simp: keeps_def add_schema_entry_def Let_def new_schema_info_def intro: C_add[unfolded new_schema_info_def] ctlg.R_refl)
  then have "keeps C (add_schemas xs)" for xs
    by (induction xs) (auto intro!: C_intro simp del: run_simps)
  then show ?thesis unfolding ensure_schemas_loaded_def load_schemas_def load_if_needed_def
    by (auto intro!: C_intro C_modify C_wrote[OF keeps_get_schemas])
qed

lemma C_lookup_schema: "keeps C (lookup_schema env cat default_schema name return_null)"
  unfolding lookup_schema_def lookup_schema_entry_def get_schema_entry_def by (auto intro!: C_intro C_ensure)

lemma C_lookup_entry: "keeps C (lookup_entry env cat sk schema type name at)"
proof -
  have "keeps C (try_load_built_in_function sk name)"
    by (auto simp: keeps_def try_load_built_in_function_def bind_run intro: C_functions ctlg.R_refl split: option.splits)
  then show ?thesis unfolding lookup_entry_def by (auto intro!: C_intro S_get_entry split: option.splits)
qed

lemma C_schema_scan: "keeps C (schema_scan env cat sk schema type)"
  unfolding schema_scan_def scan_tables_def by (auto intro!: C_intro S_intro S_ensure)

lemma C_create_table: "keeps C (schema_create_table env put po cat sk schema info)"
  unfolding schema_create_table_def by (auto intro!: C_intro S_create_table)

lemma C_get_scan_function: "keeps C (on_schema sk (get_scan_function env cat schema k td at))"
  by (intro C_on_schema S_get_scan_function)

lemma C_plan_insert: "keeps C (plan_insert env cat sk schema k td)"
  unfolding plan_insert_def by (intro C_on_schema S_on_table)

lemma C_checkpoint: "keeps C (on_schema sk (checkpoint_table env cat schema name force))"
  unfolding checkpoint_table_def by (auto intro!: C_intro S_intro S_ensure split: option.split)

lemma C_detach: "keeps C (catalog_on_detach env cat)"
proof -
  have "keeps C (for_each (\<lambda>sk. on_schema sk (tables_on_detach env cat)) ks)" for ks
    by (induction ks) (auto intro!: C_intro S_detach simp del: run_simps)
  then show ?thesis unfolding catalog_on_detach_def scan_schemas_def by (auto intro!: C_intro C_ensure)
qed

end

end
