(* ===== verification/UC_Well_Formed.thy ===== *)
theory UC_Well_Formed
  imports UC_Statements
begin

text \<open>
  The well-formedness of a catalog: schemas and tables are each stored once, under the lower-cased name they are
  looked up by. It holds of a new catalog and is kept by every step of \<open>UC_Read_Only\<close>, whatever the
  server and DuckDB answer: the interpretation of \<open>catalog_effect\<close> shows it of the assignments, and the operations follow.
\<close>

section \<open>The invariant\<close>

definition wf_tables :: "(string \<times> table_info) list \<Rightarrow> bool" where
  "wf_tables ts \<longleftrightarrow> distinct (map fst ts) \<and>
     list_all (\<lambda>(k, ti). k = lower (tb_name (tf_data ti)) \<and> tb_name (tf_data ti) \<noteq> []) ts"

definition wf_catalog :: "'x uc_state_scheme \<Rightarrow> bool" where
  "wf_catalog s \<longleftrightarrow> distinct (map fst (uc_schemas s)) \<and>
     list_all (\<lambda>(k, si). k = lower (sc_schema_name (sh_data si)) \<and> sc_schema_name (sh_data si) \<noteq> [] \<and>
       wf_tables (sh_tables si)) (uc_schemas s)"

definition set_wf :: "'x set_state_scheme \<Rightarrow> 'x set_state_scheme \<Rightarrow> bool" where
  "set_wf s t \<longleftrightarrow> (wf_tables (us_tables s) \<longrightarrow> wf_tables (us_tables t))"

definition cat_wf :: "'x uc_state_scheme \<Rightarrow> 'x uc_state_scheme \<Rightarrow> bool" where
  "cat_wf s t \<longleftrightarrow> (wf_catalog s \<longrightarrow> wf_catalog t)"

text \<open>Replacing the value under a key that is there changes no key.\<close>

lemma update_present:
  assumes "map_of xs k = Some x" and "distinct (map fst xs)"
  shows "map fst (AList.update k y xs) = map fst xs"
    and "list_all P (AList.update k y xs) \<longleftrightarrow> list_all P (filter (\<lambda>p. fst p \<noteq> k) xs) \<and> P (k, y)"
  using assms
proof (induction xs)
  case (Cons p xs)
  case 1
  then show ?case using Cons by (cases p) auto
  case 2
  have "filter (\<lambda>p. fst p \<noteq> k) xs = xs" if "k \<notin> fst ` set xs" using that by (intro filter_True) force
  then show ?case using Cons 2 by (cases p) auto
qed simp_all

section \<open>What the operations keep\<close>

lemma wf_schema_update:
  fixes s t :: "'x uc_state_scheme"
  assumes "wf_catalog s" and "map_of (uc_schemas s) k = Some si"
    and "sh_data si' = sh_data si" and "wf_tables (sh_tables si) \<Longrightarrow> wf_tables (sh_tables si')"
    and "uc_schemas t = AList.update k si' (uc_schemas s)"
  shows "wf_catalog t"
proof -
  let ?P = "\<lambda>(k, si). k = lower (sc_schema_name (sh_data si)) \<and> sc_schema_name (sh_data si) \<noteq> [] \<and>
     wf_tables (sh_tables si)"
  have wf: "distinct (map fst (uc_schemas s))" "list_all ?P (uc_schemas s)" using assms(1) by (auto simp: wf_catalog_def)
  note new = update_present[OF assms(2) wf(1)]
  have "?P (k, si)" using wf(2) map_of_SomeD[OF assms(2)] unfolding list_all_iff by blast
  then have "?P (k, si')" using assms(3,4) by simp
  moreover have "list_all ?P (filter (\<lambda>p. fst p \<noteq> k) (uc_schemas s))" using wf(2) unfolding list_all_iff by simp
  ultimately have "list_all ?P (AList.update k si' (uc_schemas s))" unfolding new(2) by simp
  then show ?thesis using assms(5) wf(1) new(1) by (simp add: wf_catalog_def)
qed

interpretation wf: catalog_effect set_wf cat_wf
proof (unfold_locales, goal_cases)
  case (6 s k ti u h)
  then have "(k, ti) \<in> set (us_tables s)" by (simp add: map_of_SomeD)
  moreover have "tf_data (leave_table ti u) = tf_data ti" by (simp add: leave_table_def)
  ultimately show ?case using update_present[OF 6] by (auto simp: set_wf_def wf_tables_def list_all_iff)
next
  case (10 td s cols bad)
  then show ?case by (auto simp: set_wf_def wf_tables_def new_table_info_def map_of_eq_None_iff)
next
  case (13 x c)
  then show ?case by (auto simp: cat_wf_def wf_catalog_def wf_tables_def new_schema_info_def map_of_eq_None_iff)
next
  case (14 c sk si fs)
  have "wf_catalog (c\<lparr>uc_schemas := AList.update sk (si\<lparr>sh_functions := fs\<rparr>) (uc_schemas c)\<rparr>)" if "wf_catalog c"
    using wf_schema_update[OF that 14, of "si\<lparr>sh_functions := fs\<rparr>"] by simp
  then show ?case by (simp add: cat_wf_def)
next
  case (15 c sk si s)
  have "wf_catalog (leave_schema sk si s c)" if "wf_catalog c"
    using wf_schema_update[OF that 15(1), of "si\<lparr>sh_tables := us_tables s, sh_tables_loaded := us_is_loaded s\<rparr>"] 15(2)
    by (simp add: leave_schema_def enter_schema_def set_wf_def)
  then show ?case by (simp add: cat_wf_def)
qed (auto simp: set_wf_def cat_wf_def wf_catalog_def store_entry_def split: option.split)

section \<open>Property\<close>

lemma step_well_formed:
  assumes "catalog_step env put po cat default_schema s t"
  shows "cat_wf s t"
  using assms
proof (induction rule: catalog_step.induct)
  case (schema_lookup name return_null s r t)
  from wf.ctlg.keepsD[OF wf.C_lookup_schema schema_lookup] show ?case .
next
  case (entry_lookup sk schema type name at s r' t)
  from wf.ctlg.keepsD[OF wf.C_lookup_entry entry_lookup] show ?case .
next
  case (list_tables sk schema type s r'' t)
  from wf.ctlg.keepsD[OF wf.C_schema_scan list_tables] show ?case .
next
  case (create sk schema info s u t)
  from wf.ctlg.keepsD[OF wf.C_create_table create] show ?case .
next
  case (scan sk schema k td at' s f t)
  from wf.ctlg.keepsD[OF wf.C_get_scan_function scan] show ?case .
next
  case (detach s u t)
  from wf.ctlg.keepsD[OF wf.C_detach detach] show ?case .
qed (auto simp: clear_cache_def clear_schema_entries_def start_transaction_def commit_transaction_def
    rollback_transaction_def tx_start_def tx_commit_def tx_rollback_def bind_run cat_wf_def wf_catalog_def)

text \<open>
  C26: A catalog stays well-formed: each schema, and each table of a schema, is stored once, under its name in
  lower case, and has a name. No lookup, listing, CREATE TABLE, scan, detach, cache clearing or transaction
  breaks this, whatever the server and DuckDB answer and however it ends.
\<close>

theorem catalog_well_formed:
  assumes "wf_catalog s" and "(catalog_step env put po cat default_schema)\<^sup>*\<^sup>* s t"
  shows "wf_catalog t"
  using assms(2,1) by (induction rule: rtranclp_induct) (auto dest: step_well_formed simp: cat_wf_def)

text \<open>A first lookup in an empty catalog, answered with two schemas whose names differ in case only.\<close>

definition two_schemas :: env where
  "two_schemas = env_witness\<lparr>e_read := (\<lambda>_. Some (JObj [(''schemas'',
     JArr [JObj [(''name'', JStr ''S'')], JObj [(''name'', JStr ''s'')]])]))\<rparr>"

definition no_schemas :: uc_state where
  "no_schemas = \<lparr>hist = [], sp_availability = UNKNOWN_PLAN, sp_unavailable_since = 0, tx_state = NOT_YET_STARTED,
     tx_entries = [], uc_schemas = [], uc_schemas_loaded = False\<rparr>"

lemma catalog_well_formed_witness:
  "\<exists>t. lookup_schema two_schemas settings_witness ''s'' ''s'' False no_schemas = (Inr (Some ''s''), t) \<and>
     uc_schemas t = [(''s'', new_schema_info \<lparr>sc_schema_name = ''S'', sc_catalog_name = ''uc''\<rparr>)] \<and> wf_catalog t"
proof -
  have lower_s: "lower ''S'' = ''s''" "lower ''s'' = ''s''" "lower ''main'' = ''main''" by code_simp+
  have "\<exists>t. lookup_schema two_schemas settings_witness ''s'' ''s'' False no_schemas = (Inr (Some ''s''), t) \<and>
     uc_schemas t = [(''s'', new_schema_info \<lparr>sc_schema_name = ''S'', sc_catalog_name = ''uc''\<rparr>)]"
    by (simp add: lookup_schema_def lookup_schema_entry_def get_schema_entry_def ensure_schemas_loaded_def
        load_if_needed_def load_schemas_def get_schemas_def make_request_def make_request_resp_def
        ensure_httpfs_extension_def parse_schema_def add_schema_entry_def new_schema_info_def two_schemas_def
        no_schemas_def settings_witness_def env_witness_def same_identifier_def default_schema_name_def
        bind_run Let_def cstr_def lower_s)
  then obtain t where run: "lookup_schema two_schemas settings_witness ''s'' ''s'' False no_schemas = (Inr (Some ''s''), t)"
    and one: "uc_schemas t = [(''s'', new_schema_info \<lparr>sc_schema_name = ''S'', sc_catalog_name = ''uc''\<rparr>)]"
    by blast
  have "wf_catalog no_schemas" by (simp add: wf_catalog_def no_schemas_def)
  moreover have "(catalog_step two_schemas put_witness \<lparr>po_path = (\<lambda>p ps. p), po_join = (@)\<rparr> settings_witness ''s'')\<^sup>*\<^sup>*
      no_schemas t"
    using catalog_step.schema_lookup[OF run] by (rule r_into_rtranclp)
  ultimately show ?thesis using catalog_well_formed run one by blast
qed

end
