(* ===== verification/UC_Interleaving.thy ===== *)
theory UC_Interleaving
  imports UC_Table_Info
begin

text \<open>
  The operations of \<open>UC_Table_Info\<close> on one table from several threads. \<open>InternalAttach\<close> and \<open>InternalDetach\<close> run
  under \<open>attach_lock\<close>; the commit function takes its snapshot of etag and watermark, calls the server,
  takes \<open>attach_lock\<close> to mark the table dirty, and writes the etag after it let go of the lock. Between two of these
  points another thread may run. A thread is where it is in its operation (\<open>table_pc\<close>), \<open>advance\<close> runs it
  to the next point, and a run is any interleaving (\<open>table_run\<close>), with the server's answers in its events.

  Run without a switch, the parts make up the operations (\<open>internal_attach_parts\<close>, \<open>commit_parts\<close>). The
  properties say what survives the switches, the watermark and the reload after a commit, and what
  does not: the pairing of etag and database.
\<close>

section \<open>The parts of the operations\<close>

definition attach_load :: "env \<Rightarrow> catalog_settings \<Rightarrow> api_table \<Rightarrow> ('x world_scheme, commits_result) io" where
  "attach_load env cat td =
     load_table env (tb_catalog_name td) (tb_schema_name td) (tb_name td) (cat_credentials cat)"

definition attach_backfill ::
  "env \<Rightarrow> catalog_settings \<Rightarrow> api_table \<Rightarrow> commits_result \<Rightarrow> ('x table_state_scheme, u64 option) io" where
  "attach_backfill env cat td r =
     bind (get_state ti_backfilled_version) (\<lambda>start_wm.
     if cat_read_only cat then ret start_wm
     else backfill_commits env (tb_storage_location td) (cr_commits r) start_wm)"

definition attach_publish :: "commits_result \<Rightarrow> u64 option \<Rightarrow> ('x table_state_scheme, unit) io" where
  "attach_publish r new_wm = modify (\<lambda>s. s\<lparr>ti_etag := cr_etag r, ti_backfilled_version := new_wm\<rparr>)"

definition attach_open :: "env \<Rightarrow> attach_info \<Rightarrow> ('x table_state_scheme, unit) io" where
  "attach_open env info =
     bind (call (e_done env) (AttachDatabase info)) (\<lambda>_. modify (ti_attached_update (\<lambda>_. Some info)))"

definition commit_snapshot :: "('x table_state_scheme, string \<times> u64 option) io" where
  "commit_snapshot = get_state (\<lambda>s. (ti_etag s, ti_backfilled_version s))"

definition commit_update ::
  "env \<Rightarrow> catalog_settings \<Rightarrow> api_table \<Rightarrow> staged_commit \<Rightarrow> string \<Rightarrow> u64 option \<Rightarrow> ('x world_scheme, string) io" where
  "commit_update env cat td c etag wm =
     update_table env (tb_catalog_name td) (tb_schema_name td) (tb_name td) (tb_table_id td) etag
       (cat_credentials cat) (st_version c) (st_timestamp c) (commit_file_name (st_file_path c))
       (st_file_size c) (st_file_modification_timestamp c) wm"

definition commit_publish :: "string \<Rightarrow> ('x table_state_scheme, unit) io" where
  "commit_publish new_etag = modify (ti_etag_update (\<lambda>_. new_etag))"

lemma internal_attach_parts:
  "internal_attach env cat schema td =
     bind (detach_if_stale env cat td) (\<lambda>_.
     bind (get_state ti_attached) (\<lambda>db.
     if db \<noteq> None then ret ()
     else bind (if is_catalog_managed td
                then bind (attach_load env cat td) (\<lambda>r.
                     bind (attach_backfill env cat td r) (\<lambda>wm.
                     bind (attach_publish r wm) (\<lambda>_. ret (managed_attach_info cat schema td r))))
                else ret (base_attach_info cat td)) (attach_open env)))"
  unfolding internal_attach_def load_and_backfill_def attach_load_def attach_backfill_def attach_publish_def
    attach_open_def[abs_def]
  by (simp add: bind_assoc cong: if_cong del: run_simps)

lemma commit_parts:
  "ccv2_commit_execute env cat td c =
     bind commit_snapshot (\<lambda>(etag, wm).
     bind (commit_update env cat td c etag wm) (\<lambda>new_etag.
     bind mark_dirty (\<lambda>_. commit_publish new_etag)))"
  by (simp add: ccv2_commit_execute_def commit_snapshot_def commit_update_def commit_publish_def)

section \<open>Threads\<close>

datatype table_pc =
    Idle
  | AttachStale
  | AttachLoad
  | AttachBackfill commits_result
  | AttachPublish commits_result "u64 option"
  | AttachOpen attach_info
  | CommitSnapshot staged_commit
  | CommitUpdate staged_commit string "u64 option"
  | CommitDirty string
  | CommitPublish string

text \<open>The points of an operation that holds \<open>attach_lock\<close>.\<close>

fun locked_pc :: "table_pc \<Rightarrow> bool" where
  "locked_pc AttachStale = True"
| "locked_pc AttachLoad = True"
| "locked_pc (AttachBackfill r) = True"
| "locked_pc (AttachPublish r wm) = True"
| "locked_pc (AttachOpen info) = True"
| "locked_pc _ = False"

record shared_table =
  sh_table :: table_state
  th_owner :: "nat option"
  th_pcs :: "nat \<Rightarrow> table_pc"

datatype table_event = Loaded commits_result | Accepted string | Silent

definition goto :: "nat \<Rightarrow> table_pc \<Rightarrow> table_state \<Rightarrow> shared_table \<Rightarrow> shared_table" where
  "goto i pc t s = s\<lparr>sh_table := t, th_pcs := (th_pcs s)(i := pc)\<rparr>"

definition leave :: "nat \<Rightarrow> table_state \<Rightarrow> shared_table \<Rightarrow> shared_table" where
  "leave i t s = s\<lparr>sh_table := t, th_owner := None, th_pcs := (th_pcs s)(i := Idle)\<rparr>"

text \<open>An exception ends the operation, and the lock with it.\<close>

definition advance ::
  "env \<Rightarrow> catalog_settings \<Rightarrow> string \<Rightarrow> api_table \<Rightarrow> nat \<Rightarrow> shared_table \<Rightarrow> (table_event \<times> shared_table) option" where
  "advance env cat schema td i s =
     (let table = sh_table s in
      case th_pcs s i of
        Idle \<Rightarrow> None
      | AttachStale \<Rightarrow> Some (Silent, case detach_if_stale env cat td table of
          (Inl e, t) \<Rightarrow> leave i t s
        | (Inr u, t) \<Rightarrow> if ti_attached t \<noteq> None then leave i t s
            else if is_catalog_managed td then goto i AttachLoad t s
            else goto i (AttachOpen (base_attach_info cat td)) t s)
      | AttachLoad \<Rightarrow> Some (case attach_load env cat td table of
          (Inl e, t) \<Rightarrow> (Silent, leave i t s)
        | (Inr r, t) \<Rightarrow> (Loaded r, goto i (AttachBackfill r) t s))
      | AttachBackfill r \<Rightarrow> Some (Silent, case attach_backfill env cat td r table of
          (Inl e, t) \<Rightarrow> leave i t s
        | (Inr wm, t) \<Rightarrow> goto i (AttachPublish r wm) t s)
      | AttachPublish r wm \<Rightarrow> Some (Silent, goto i (AttachOpen (managed_attach_info cat schema td r))
          (snd (attach_publish r wm table)) s)
      | AttachOpen info \<Rightarrow> Some (Silent, leave i (snd (attach_open env info table)) s)
      | CommitSnapshot c \<Rightarrow> Some (Silent, case commit_snapshot table of
          (Inl e, t) \<Rightarrow> goto i Idle t s
        | (Inr (etag, wm), t) \<Rightarrow> goto i (CommitUpdate c etag wm) t s)
      | CommitUpdate c etag wm \<Rightarrow> Some (case commit_update env cat td c etag wm table of
          (Inl e, t) \<Rightarrow> (Silent, goto i Idle t s)
        | (Inr new_etag, t) \<Rightarrow> (Accepted new_etag, goto i (CommitDirty new_etag) t s))
      | CommitDirty new_etag \<Rightarrow>
          if th_owner s \<noteq> None then None
          else Some (Silent, goto i (CommitPublish new_etag) (snd (mark_dirty table)) s)
      | CommitPublish new_etag \<Rightarrow> Some (Silent, goto i Idle (snd (commit_publish new_etag table)) s))"

inductive table_run ::
  "env \<Rightarrow> catalog_settings \<Rightarrow> string \<Rightarrow> api_table \<Rightarrow> shared_table \<Rightarrow> table_event list \<Rightarrow> shared_table \<Rightarrow> bool"
  for env cat schema td s where
  start: "table_run env cat schema td s [] s"
| attach: "table_run env cat schema td s es t \<Longrightarrow> th_pcs t i = Idle \<Longrightarrow> th_owner t = None
    \<Longrightarrow> table_run env cat schema td s (es @ [Silent]) (goto i AttachStale (sh_table t) (t\<lparr>th_owner := Some i\<rparr>))"
| commit: "table_run env cat schema td s es t \<Longrightarrow> th_pcs t i = Idle
    \<Longrightarrow> table_run env cat schema td s (es @ [Silent]) (goto i (CommitSnapshot c) (sh_table t) t)"
| detach: "table_run env cat schema td s es t \<Longrightarrow> th_owner t = None \<Longrightarrow> internal_detach env cat td (sh_table t) = (r, u)
    \<Longrightarrow> table_run env cat schema td s (es @ [Silent]) (t\<lparr>sh_table := u\<rparr>)"
| advance: "table_run env cat schema td s es t \<Longrightarrow> advance env cat schema td i t = Some (e, u)
    \<Longrightarrow> table_run env cat schema td s (es @ [e]) u"

section \<open>What a step does\<close>

lemma wrote_hist: "wrote s t \<Longrightarrow> \<exists>h. t = s\<lparr>hist := h\<rparr>"
  unfolding wrote_def by blast

lemma internal_detach_step:
  fixes s t :: table_state
  assumes "internal_detach env cat td s = (r, t)"
  shows "\<exists>h a. (a = ti_attached s \<or> a = None) \<and> t = s\<lparr>hist := h, ti_attached := a\<rparr>"
proof (cases "ti_attached s")
  case None
  then have "t = s" using assms by (simp add: internal_detach_def bind_run)
  then have "t = s\<lparr>hist := hist s, ti_attached := ti_attached s\<rparr>" by simp
  then show ?thesis by blast
next
  case (Some db)
  let ?h = "hist s @ [DetachDatabase (attached_catalog_name cat td)]"
  have "t = s\<lparr>hist := ?h, ti_attached := ti_attached s\<rparr> \<or> t = s\<lparr>hist := ?h, ti_attached := None\<rparr>"
    using assms Some by (auto simp: internal_detach_def bind_run split: sum.splits)
  then show ?thesis by blast
qed

lemma detach_if_stale_step:
  fixes s t :: table_state
  assumes "detach_if_stale env cat td s = (r, t)"
  shows "(\<exists>h. t = s\<lparr>hist := h\<rparr> \<and> (isl r \<or> ti_attached s \<noteq> None)) \<or>
    (\<exists>h. r = Inr () \<and> t = s\<lparr>hist := h, ti_attached := None, ti_is_dirty := False\<rparr>)"
proof (cases "ti_attached s")
  case None
  then have "r = Inr () \<and> t = (if ti_is_dirty s then s\<lparr>ti_is_dirty := False\<rparr> else s)"
    using assms by (simp add: detach_if_stale_def bind_run internal_detach_def split: if_splits)
  moreover have "(if ti_is_dirty s then s\<lparr>ti_is_dirty := False\<rparr> else s)
      = s\<lparr>hist := hist s, ti_attached := None, ti_is_dirty := False\<rparr>"
    using None by (cases s) simp
  ultimately show ?thesis by metis
next
  case (Some db)
  then show ?thesis using assms
    by (auto simp: detach_if_stale_def bind_run internal_detach_def split: sum.splits if_splits)
qed

lemma advance_cases:
  assumes "advance env cat schema td i s = Some (e, u)"
  obtains (ended) h where "locked_pc (th_pcs s i)" "e = Silent" "u = leave i ((sh_table s)\<lparr>hist := h\<rparr>) s"
  | (stale) h where "th_pcs s i = AttachStale" "e = Silent"
      "u = goto i (if is_catalog_managed td then AttachLoad else AttachOpen (base_attach_info cat td))
         ((sh_table s)\<lparr>hist := h, ti_attached := None, ti_is_dirty := False\<rparr>) s"
  | (load) h r where "th_pcs s i = AttachLoad" "e = Loaded r" "u = goto i (AttachBackfill r) ((sh_table s)\<lparr>hist := h\<rparr>) s"
  | (backfill) h r wm where "th_pcs s i = AttachBackfill r" "e = Silent" "ti_backfilled_version (sh_table s) \<le> wm"
      "u = goto i (AttachPublish r wm) ((sh_table s)\<lparr>hist := h\<rparr>) s"
  | (publish) r wm where "th_pcs s i = AttachPublish r wm" "e = Silent"
      "u = goto i (AttachOpen (managed_attach_info cat schema td r))
         ((sh_table s)\<lparr>ti_etag := cr_etag r, ti_backfilled_version := wm\<rparr>) s"
  | (opened) h info where "th_pcs s i = AttachOpen info" "e = Silent"
      "u = leave i ((sh_table s)\<lparr>hist := h, ti_attached := Some info\<rparr>) s"
  | (snapshot) c where "th_pcs s i = CommitSnapshot c" "e = Silent"
      "u = goto i (CommitUpdate c (ti_etag (sh_table s)) (ti_backfilled_version (sh_table s))) (sh_table s) s"
  | (refused) h c etag wm where "th_pcs s i = CommitUpdate c etag wm" "e = Silent" "u = goto i Idle ((sh_table s)\<lparr>hist := h\<rparr>) s"
  | (accepted) h c etag wm new where "th_pcs s i = CommitUpdate c etag wm" "e = Accepted new"
      "u = goto i (CommitDirty new) ((sh_table s)\<lparr>hist := h\<rparr>) s"
  | (dirty) new where "th_pcs s i = CommitDirty new" "e = Silent" "th_owner s = None"
      "u = goto i (CommitPublish new) ((sh_table s)\<lparr>ti_is_dirty := True\<rparr>) s"
  | (published) new where "th_pcs s i = CommitPublish new" "e = Silent" "u = goto i Idle ((sh_table s)\<lparr>ti_etag := new\<rparr>) s"
proof (cases "th_pcs s i")
  case Idle
  then show thesis using assms by (simp add: advance_def Let_def)
next
  case AttachStale
  obtain r t where d: "detach_if_stale env cat td (sh_table s) = (r, t)" by (cases "detach_if_stale env cat td (sh_table s)")
  consider (kept) h where "t = (sh_table s)\<lparr>hist := h\<rparr>" "isl r \<or> ti_attached (sh_table s) \<noteq> None"
    | (dropped) h where "r = Inr ()" "t = (sh_table s)\<lparr>hist := h, ti_attached := None, ti_is_dirty := False\<rparr>"
    using detach_if_stale_step[OF d] by blast
  then show thesis
  proof cases
    case (kept h)
    then show thesis using assms d AttachStale ended[of h] by (cases r) (auto simp: advance_def Let_def)
  next
    case (dropped h)
    then show thesis using assms d AttachStale stale[of h] by (auto simp: advance_def Let_def split: if_splits)
  qed
next
  case AttachLoad
  obtain r t where l: "attach_load env cat td (sh_table s) = (r, t)" by (cases "attach_load env cat td (sh_table s)")
  have "wrote (sh_table s) t" using l unfolding attach_load_def by (rule wr.keepsD[OF keeps_load_table])
  then obtain h where "t = (sh_table s)\<lparr>hist := h\<rparr>" using wrote_hist by blast
  then show thesis using assms l AttachLoad ended[of h] load[of _ h] by (cases r) (auto simp: advance_def Let_def)
next
  case (AttachBackfill r)
  let ?wm = "ti_backfilled_version (sh_table s)"
  have "\<exists>wm h. attach_backfill env cat td r (sh_table s) = (Inr wm, (sh_table s)\<lparr>hist := h\<rparr>) \<and> ?wm \<le> wm"
  proof (cases "cat_read_only cat")
    case True
    then show ?thesis by (auto simp: attach_backfill_def bind_run intro: exI[of _ "hist (sh_table s)"])
  next
    case False
    obtain x t where b: "backfill_commits env (tb_storage_location td) (cr_commits r) ?wm (sh_table s) = (x, t)"
      by (cases "backfill_commits env (tb_storage_location td) (cr_commits r) ?wm (sh_table s)")
    obtain h where "t = (sh_table s)\<lparr>hist := h\<rparr>" using wrote_hist wr.keepsD[OF keeps_backfill_commits b] by blast
    then show ?thesis using b False backfill_commits_result[of env "tb_storage_location td" "cr_commits r" ?wm "sh_table s"]
      by (auto simp: attach_backfill_def bind_run)
  qed
  then show thesis using assms AttachBackfill backfill by (auto simp: advance_def Let_def)
next
  case (AttachPublish r wm)
  then show thesis using assms publish by (simp add: advance_def Let_def attach_publish_def)
next
  case (AttachOpen info)
  let ?h = "hist (sh_table s) @ [AttachDatabase info]"
  have "snd (attach_open env info (sh_table s)) = (sh_table s)\<lparr>hist := ?h\<rparr> \<or>
      snd (attach_open env info (sh_table s)) = (sh_table s)\<lparr>hist := ?h, ti_attached := Some info\<rparr>"
    by (auto simp: attach_open_def bind_run split: sum.split)
  then show thesis using assms AttachOpen ended[of ?h] opened[of info ?h] by (auto simp: advance_def Let_def)
next
  case (CommitSnapshot c)
  then show thesis using assms snapshot by (simp add: advance_def Let_def commit_snapshot_def)
next
  case (CommitUpdate c etag wm)
  obtain r t where l: "commit_update env cat td c etag wm (sh_table s) = (r, t)" by (cases "commit_update env cat td c etag wm (sh_table s)")
  have "wrote (sh_table s) t" using l unfolding commit_update_def by (rule wr.keepsD[OF keeps_update_table])
  then obtain h where "t = (sh_table s)\<lparr>hist := h\<rparr>" using wrote_hist by blast
  then show thesis using assms l CommitUpdate refused[of c etag wm h] accepted[of c etag wm _ h]
    by (cases r) (auto simp: advance_def Let_def)
next
  case (CommitDirty new)
  then show thesis using assms dirty by (auto simp: advance_def Let_def mark_dirty_def split: if_splits)
next
  case (CommitPublish new)
  then show thesis using assms published by (simp add: advance_def Let_def commit_publish_def)
qed

section \<open>The invariant of a run\<close>

text \<open>The response of the last load, and whether a commit was accepted that no load has followed yet.\<close>

definition last_load :: "table_event list \<Rightarrow> commits_result option" where
  "last_load es = foldl (\<lambda>l e. case e of Loaded r \<Rightarrow> Some r | _ \<Rightarrow> l) None es"

definition unloaded_commit :: "table_event list \<Rightarrow> bool" where
  "unloaded_commit es = foldl (\<lambda>b e. case e of Loaded r \<Rightarrow> False | Accepted new \<Rightarrow> True | Silent \<Rightarrow> b) False es"

lemma last_load_simps [simp]:
  "last_load [] = None" "last_load (es @ [Loaded r]) = Some r" "last_load (es @ [Accepted new]) = last_load es"
  "last_load (es @ [Silent]) = last_load es"
  by (simp_all add: last_load_def)

lemma unloaded_commit_simps [simp]:
  "\<not> unloaded_commit []" "\<not> unloaded_commit (es @ [Loaded r])" "unloaded_commit (es @ [Accepted new])"
  "unloaded_commit (es @ [Silent]) = unloaded_commit es"
  by (simp_all add: unloaded_commit_def)

lemma unloaded_commit_iff: "unloaded_commit es \<longleftrightarrow> (\<exists>xs new ys. es = xs @ Accepted new # ys \<and> (\<forall>r. Loaded r \<notin> set ys))"
proof (induction es rule: rev_induct)
  case (snoc e es)
  show ?case
  proof (cases e)
    case (Loaded r)
    then show ?thesis by (auto simp: append_eq_append_conv2 append_eq_Cons_conv Cons_eq_append_conv)
  next
    case (Accepted new)
    then show ?thesis by force
  next
    case Silent
    have "(\<exists>xs new ys. es @ [Silent] = xs @ Accepted new # ys \<and> (\<forall>r. Loaded r \<notin> set ys)) \<longleftrightarrow>
        (\<exists>xs new ys. es = xs @ Accepted new # ys \<and> (\<forall>r. Loaded r \<notin> set ys))"
    proof
      assume "\<exists>xs new ys. es @ [Silent] = xs @ Accepted new # ys \<and> (\<forall>r. Loaded r \<notin> set ys)"
      then obtain xs new ys where e: "es @ [Silent] = (xs @ [Accepted new]) @ ys" "\<forall>r. Loaded r \<notin> set ys" by auto
      then have "ys \<noteq> []" by (cases "ys = []") auto
      then have "es = xs @ Accepted new # butlast ys" using e(1) by (simp add: butlast_append snoc_eq_iff_butlast)
      moreover have "\<forall>r. Loaded r \<notin> set (butlast ys)" using e(2) by (auto dest: in_set_butlastD)
      ultimately show "\<exists>xs new ys. es = xs @ Accepted new # ys \<and> (\<forall>r. Loaded r \<notin> set ys)" by blast
    next
      assume "\<exists>xs new ys. es = xs @ Accepted new # ys \<and> (\<forall>r. Loaded r \<notin> set ys)"
      then obtain xs new ys where "es @ [Silent] = xs @ Accepted new # (ys @ [Silent])" "\<forall>r. Loaded r \<notin> set ys" by auto
      moreover from this have "\<forall>r. Loaded r \<notin> set (ys @ [Silent])" by simp
      ultimately show "\<exists>xs new ys. es @ [Silent] = xs @ Accepted new # ys \<and> (\<forall>r. Loaded r \<notin> set ys)" by blast
    qed
    then show ?thesis using snoc Silent by simp
  qed
qed simp

text \<open>A thread whose commit was accepted and that has yet to mark the table dirty.\<close>

definition marking :: "shared_table \<Rightarrow> bool" where
  "marking s \<longleftrightarrow> (\<exists>i new. th_pcs s i = CommitDirty new)"

fun attach_point :: "catalog_settings \<Rightarrow> string \<Rightarrow> api_table \<Rightarrow> table_event list \<Rightarrow> shared_table \<Rightarrow> table_pc \<Rightarrow> bool" where
  "attach_point cat schema td es s (AttachBackfill r) \<longleftrightarrow> last_load es = Some r"
| "attach_point cat schema td es s (AttachPublish r wm) \<longleftrightarrow> last_load es = Some r \<and> ti_backfilled_version (sh_table s) \<le> wm"
| "attach_point cat schema td es s (AttachOpen info) \<longleftrightarrow>
     (is_catalog_managed td \<longrightarrow> (\<exists>r. last_load es = Some r \<and> info = managed_attach_info cat schema td r))"
| "attach_point cat schema td es s _ \<longleftrightarrow> True"

fun past_load :: "table_pc \<Rightarrow> bool" where
  "past_load (AttachBackfill r) = True"
| "past_load (AttachPublish r wm) = True"
| "past_load (AttachOpen info) = True"
| "past_load _ = False"

definition table_inv :: "catalog_settings \<Rightarrow> string \<Rightarrow> api_table \<Rightarrow> table_event list \<Rightarrow> shared_table \<Rightarrow> bool" where
  "table_inv cat schema td es s \<longleftrightarrow>
     (\<forall>i. locked_pc (th_pcs s i) \<longleftrightarrow> th_owner s = Some i) \<and>
     (\<forall>i. attach_point cat schema td es s (th_pcs s i)) \<and>
     (\<forall>i. locked_pc (th_pcs s i) \<longrightarrow> th_pcs s i \<noteq> AttachStale \<longrightarrow> ti_attached (sh_table s) = None \<and> \<not> ti_is_dirty (sh_table s)) \<and>
     (is_catalog_managed td \<longrightarrow>
       (\<forall>info. ti_attached (sh_table s) = Some info \<longrightarrow> (\<exists>r. last_load es = Some r \<and> info = managed_attach_info cat schema td r)) \<and>
       (unloaded_commit es \<longrightarrow> \<not> marking s \<longrightarrow>
          (\<forall>i. \<not> past_load (th_pcs s i)) \<and> (ti_attached (sh_table s) = None \<or> ti_is_dirty (sh_table s))))"

lemma goto_simps [simp]:
  "th_pcs (goto i pc t s) = (th_pcs s)(i := pc)" "th_owner (goto i pc t s) = th_owner s" "sh_table (goto i pc t s) = t"
  by (simp_all add: goto_def)

lemma leave_simps [simp]:
  "th_pcs (leave i t s) = (th_pcs s)(i := Idle)" "th_owner (leave i t s) = None" "sh_table (leave i t s) = t"
  by (simp_all add: leave_def)

lemma past_load_locked: "past_load pc \<Longrightarrow> locked_pc pc \<and> pc \<noteq> AttachStale"
  by (cases pc) simp_all

lemma unlocked_point: "\<not> locked_pc pc \<Longrightarrow> attach_point cat schema td es s pc"
  by (cases pc) simp_all

lemma marking_same:
  assumes "th_pcs u = (th_pcs s)(i := pc)" and "\<forall>new. pc \<noteq> CommitDirty new" and "\<forall>new. th_pcs s i \<noteq> CommitDirty new"
  shows "marking u = marking s"
  unfolding marking_def assms(1) using assms(2,3) by (metis fun_upd_apply)

text \<open>What the invariant says while a thread holds the lock, and while none does.\<close>

lemma table_invI:
  assumes "\<And>j. locked_pc (th_pcs s j) \<longleftrightarrow> th_owner s = Some j"
    and "\<And>j. th_owner s = Some j \<Longrightarrow> attach_point cat schema td es s (th_pcs s j)"
    and "\<And>j. th_owner s = Some j \<Longrightarrow> th_pcs s j \<noteq> AttachStale \<Longrightarrow> ti_attached (sh_table s) = None \<and> \<not> ti_is_dirty (sh_table s)"
    and "\<And>info. is_catalog_managed td \<Longrightarrow> ti_attached (sh_table s) = Some info \<Longrightarrow>
           \<exists>r. last_load es = Some r \<and> info = managed_attach_info cat schema td r"
    and "is_catalog_managed td \<Longrightarrow> unloaded_commit es \<Longrightarrow> \<not> marking s \<Longrightarrow>
           (\<forall>j. th_owner s = Some j \<longrightarrow> \<not> past_load (th_pcs s j)) \<and> (ti_attached (sh_table s) = None \<or> ti_is_dirty (sh_table s))"
  shows "table_inv cat schema td es s"
proof -
  have "attach_point cat schema td es s (th_pcs s j)" for j
    using assms(1,2) unlocked_point by (cases "th_owner s = Some j") blast+
  moreover have "past_load (th_pcs s j) \<Longrightarrow> th_owner s = Some j" for j using assms(1) past_load_locked by blast
  ultimately show ?thesis unfolding table_inv_def using assms(1,3,4,5) by blast
qed

text \<open>A step of a thread outside the lock that changes no more than the etag.\<close>

lemma unlocked_step_inv:
  assumes inv: "table_inv cat schema td es s" and pcs: "th_pcs u = (th_pcs s)(i := pc)"
    and unlocked: "\<not> locked_pc (th_pcs s i)" "\<not> locked_pc pc" and owner: "th_owner u = th_owner s"
    and same: "ti_attached (sh_table u) = ti_attached (sh_table s)" "ti_is_dirty (sh_table u) = ti_is_dirty (sh_table s)"
      "ti_backfilled_version (sh_table u) = ti_backfilled_version (sh_table s)" "last_load es' = last_load es"
    and fresh: "unloaded_commit es' \<Longrightarrow> \<not> marking u \<Longrightarrow> unloaded_commit es \<and> \<not> marking s"
  shows "table_inv cat schema td es' u"
proof (rule table_invI)
  have lock: "locked_pc (th_pcs s j) \<longleftrightarrow> th_owner s = Some j" for j using inv unfolding table_inv_def by blast
  then have ne: "th_owner s = Some j \<Longrightarrow> j \<noteq> i" for j using unlocked(1) by blast
  show "locked_pc (th_pcs u j) \<longleftrightarrow> th_owner u = Some j" for j using lock ne unlocked(2) by (auto simp: pcs owner)
  show "attach_point cat schema td es' u (th_pcs u j)" if "th_owner u = Some j" for j
  proof -
    have "attach_point cat schema td es s (th_pcs s j)" using inv unfolding table_inv_def by blast
    then have "attach_point cat schema td es' u (th_pcs s j)" using same by (cases "th_pcs s j") auto
    then show ?thesis using ne that by (simp add: pcs owner)
  qed
  show "ti_attached (sh_table u) = None \<and> \<not> ti_is_dirty (sh_table u)" if "th_owner u = Some j" "th_pcs u j \<noteq> AttachStale" for j
    using inv that ne lock unfolding table_inv_def same owner pcs by auto
  show "\<exists>r. last_load es' = Some r \<and> info = managed_attach_info cat schema td r"
    if "is_catalog_managed td" "ti_attached (sh_table u) = Some info" for info
    using inv that unfolding table_inv_def same by blast
  show "(\<forall>j. th_owner u = Some j \<longrightarrow> \<not> past_load (th_pcs u j)) \<and> (ti_attached (sh_table u) = None \<or> ti_is_dirty (sh_table u))"
    if "is_catalog_managed td" "unloaded_commit es'" "\<not> marking u"
    using inv fresh[OF that(2,3)] that(1) ne unfolding table_inv_def same owner pcs by auto
qed

lemma advance_inv:
  assumes "advance env cat schema td i s = Some (e, u)" and inv: "table_inv cat schema td es s"
  shows "table_inv cat schema td (es @ [e]) u"
proof -
  have lock: "locked_pc (th_pcs s j) \<longleftrightarrow> th_owner s = Some j" for j using inv unfolding table_inv_def by blast
  have point: "attach_point cat schema td es s (th_pcs s j)" for j using inv unfolding table_inv_def by blast
  have none: "th_owner s = Some j \<Longrightarrow> th_pcs s j \<noteq> AttachStale \<Longrightarrow> ti_attached (sh_table s) = None \<and> \<not> ti_is_dirty (sh_table s)" for j
    using inv lock unfolding table_inv_def by blast
  have db: "is_catalog_managed td \<Longrightarrow> ti_attached (sh_table s) = Some info \<Longrightarrow>
      \<exists>r. last_load es = Some r \<and> info = managed_attach_info cat schema td r" for info
    using inv unfolding table_inv_def by blast
  have fresh: "is_catalog_managed td \<Longrightarrow> unloaded_commit es \<Longrightarrow> \<not> marking s \<Longrightarrow>
      (\<forall>j. \<not> past_load (th_pcs s j)) \<and> (ti_attached (sh_table s) = None \<or> ti_is_dirty (sh_table s))"
    using inv unfolding table_inv_def by blast
  have past: "past_load (th_pcs s i) \<Longrightarrow> is_catalog_managed td \<Longrightarrow> unloaded_commit es \<Longrightarrow> marking s"
    using fresh by blast
  from assms(1) show ?thesis
  proof (cases rule: advance_cases)
    case (ended h)
    then have "\<forall>new. th_pcs s i \<noteq> CommitDirty new" by (cases "th_pcs s i") auto
    then have "marking u = marking s" using ended by (intro marking_same[of u s i Idle]) simp_all
    then show ?thesis using ended lock db fresh by (intro table_invI) auto
  next
    case (stale h)
    then show ?thesis using lock[of i] by (intro table_invI) (auto simp: lock)
  next
    case (load h r)
    then show ?thesis using lock[of i] none[of i] by (intro table_invI) (auto simp: lock)
  next
    case (backfill h r wm)
    then have "marking u = marking s" using marking_same[of u s i "AttachPublish r wm"] by auto
    then show ?thesis using backfill lock[of i] none[of i] point[of i] past by (intro table_invI) (auto simp: lock)
  next
    case (publish r wm)
    then have "marking u = marking s" using marking_same[of u s i "AttachOpen (managed_attach_info cat schema td r)"] by auto
    then show ?thesis using publish lock[of i] none[of i] point[of i] past by (intro table_invI) (auto simp: lock)
  next
    case (opened h info)
    then have "marking u = marking s" using marking_same[of u s i "Idle"] by auto
    then show ?thesis using opened lock[of i] none[of i] point[of i] past by (intro table_invI) (auto simp: lock)
  next
    case (snapshot c)
    then have "marking u = marking s" using marking_same[of u s i "CommitUpdate c (ti_etag (sh_table s)) (ti_backfilled_version (sh_table s))"] by auto
    then show ?thesis using snapshot unlocked_step_inv[OF inv, of u i "CommitUpdate c (ti_etag (sh_table s)) (ti_backfilled_version (sh_table s))" "es @ [e]"] by simp
  next
    case (refused h c etag wm)
    then have "marking u = marking s" using marking_same[of u s i "Idle"] by auto
    then show ?thesis using refused unlocked_step_inv[OF inv, of u i "Idle" "es @ [e]"] by simp
  next
    case (accepted h c etag wm new)
    then have "marking u" by (auto simp: marking_def)
    then show ?thesis using accepted unlocked_step_inv[OF inv, of u i "CommitDirty new" "es @ [e]"] by simp
  next
    case (dirty new)
    then show ?thesis using lock db by (intro table_invI) auto
  next
    case (published new)
    then have "marking u = marking s" using marking_same[of u s i "Idle"] by auto
    then show ?thesis using published unlocked_step_inv[OF inv, of u i "Idle" "es @ [e]"] by simp
  qed
qed

section \<open>Runs of a new table\<close>

definition idle_table :: "shared_table \<Rightarrow> bool" where
  "idle_table s \<longleftrightarrow> new_table (sh_table s) \<and> th_owner s = None \<and> (\<forall>i. th_pcs s i = Idle)"

lemma run_inv:
  assumes "table_run env cat schema td s es t" and "idle_table s"
  shows "table_inv cat schema td es t"
  using assms
proof (induction rule: table_run.induct)
  case start
  then show ?case by (auto simp: table_inv_def idle_table_def new_table_def)
next
  case (attach es t i)
  then have inv: "table_inv cat schema td es t" by simp
  let ?u = "goto i AttachStale (sh_table t) (t\<lparr>th_owner := Some i\<rparr>)"
  have "\<not> locked_pc (th_pcs t j)" for j using inv attach.hyps unfolding table_inv_def by auto
  moreover have "marking ?u = marking t" using attach.hyps by (intro marking_same[of _ _ i AttachStale]) simp_all
  ultimately show ?case using inv[unfolded table_inv_def] by (intro table_invI) auto
next
  case (commit es t i c)
  then have inv: "table_inv cat schema td es t" by simp
  have "marking (goto i (CommitSnapshot c) (sh_table t) t) = marking t"
    using commit.hyps by (intro marking_same[of _ _ i "CommitSnapshot c"]) simp_all
  then show ?case
    using unlocked_step_inv[OF inv, of "goto i (CommitSnapshot c) (sh_table t) t" i "CommitSnapshot c" "es @ [Silent]"] commit.hyps
    by simp
next
  case (detach es t r u)
  then have inv: "table_inv cat schema td es t" by simp
  have "\<not> locked_pc (th_pcs t j)" for j using inv detach.hyps unfolding table_inv_def by auto
  moreover have "marking (t\<lparr>sh_table := u\<rparr>) = marking t" by (simp add: marking_def)
  moreover obtain h a where "a = ti_attached (sh_table t) \<or> a = None" "u = (sh_table t)\<lparr>hist := h, ti_attached := a\<rparr>"
    using internal_detach_step[OF detach.hyps(3)] by blast
  ultimately show ?case using inv[unfolded table_inv_def] detach.hyps(2) by (intro table_invI) auto
next
  case (advance es t i e u)
  then show ?case by (blast intro: advance_inv)
qed

section \<open>The operations as runs\<close>

lemma goto_goto [simp]: "goto i p' t' (goto i p t s) = goto i p' t' s"
  by (simp add: goto_def)

lemma leave_goto:
  assumes "th_owner s = None" and "th_pcs s i = Idle"
  shows "leave i t' (goto i p t (s\<lparr>th_owner := Some i\<rparr>)) = s\<lparr>sh_table := t'\<rparr>"
    and "goto i Idle t' (goto i p t s) = s\<lparr>sh_table := t'\<rparr>" and "goto i Idle t' s = s\<lparr>sh_table := t'\<rparr>"
  using assms by (cases s; auto simp: leave_def goto_def fun_upd_idem)+

lemma attach_is_run:
  assumes "th_owner s = None" and "th_pcs s i = Idle"
  shows "\<exists>es. table_run env cat schema td s es (s\<lparr>sh_table := snd (internal_attach env cat schema td (sh_table s))\<rparr>)"
proof -
  define g where "g p t = goto i p t (s\<lparr>th_owner := Some i\<rparr>)" for p t
  define reach where "reach u \<longleftrightarrow> (\<exists>es. table_run env cat schema td s es u)" for u
  have step: "reach t \<Longrightarrow> advance env cat schema td i t = Some (e, u) \<Longrightarrow> reach u" for t e u
    unfolding reach_def by (blast intro: table_run.advance)
  have pc [simp]: "th_pcs (g p t) i = p" "sh_table (g p t) = t" "goto i p' t' (g p t) = g p' t'" for p t p' t'
    by (simp_all add: g_def)
  have fin [simp]: "leave i t' (g p t) = s\<lparr>sh_table := t'\<rparr>" for p t t' using leave_goto(1)[OF assms] by (simp add: g_def)
  have open': "reach (s\<lparr>sh_table := snd (attach_open env info t)\<rparr>)" if "reach (g (AttachOpen info) t)" for info t
    using step[OF that] by (simp add: advance_def Let_def)
  have "reach (g AttachStale (sh_table s))"
    unfolding reach_def g_def using table_run.attach[OF table_run.start assms(2,1)] by blast
  note stale = step[OF this, unfolded advance_def Let_def, simplified]
  obtain r t where d: "detach_if_stale env cat td (sh_table s) = (r, t)" by (cases "detach_if_stale env cat td (sh_table s)")
  have "reach (s\<lparr>sh_table := snd (internal_attach env cat schema td (sh_table s))\<rparr>)"
  proof (cases "isl r \<or> ti_attached t \<noteq> None")
    case True
    then show ?thesis using stale d by (cases r) (auto simp: internal_attach_parts bind_run)
  next
    case False
    then obtain u where r: "r = Inr u" and none: "ti_attached t = None" by (cases r) auto
    show ?thesis
    proof (cases "is_catalog_managed td")
      case False
      then have "reach (g (AttachOpen (base_attach_info cat td)) t)" using stale d r none by simp
      from open'[OF this] show ?thesis using d r none False by (simp add: internal_attach_parts bind_run)
    next
      case True
      then have l: "reach (g AttachLoad t)" using stale d r none by simp
      obtain x t1 where load: "attach_load env cat td t = (x, t1)" by (cases "attach_load env cat td t")
      show ?thesis
      proof (cases x)
        case (Inl e)
        then show ?thesis using step[OF l] load d r none True
          by (simp add: advance_def Let_def internal_attach_parts bind_run)
      next
        case (Inr res)
        then have b: "reach (g (AttachBackfill res) t1)" using step[OF l] load by (simp add: advance_def Let_def)
        obtain y t2 where bf: "attach_backfill env cat td res t1 = (y, t2)" by (cases "attach_backfill env cat td res t1")
        show ?thesis
        proof (cases y)
          case (Inl e)
          then show ?thesis using step[OF b] bf load Inr d r none True
            by (simp add: advance_def Let_def internal_attach_parts bind_run)
        next
          case (Inr wm)
          then have p: "reach (g (AttachPublish res wm) t2)" using step[OF b] bf by (simp add: advance_def Let_def)
          from step[OF this] have "reach (g (AttachOpen (managed_attach_info cat schema td res)) (snd (attach_publish res wm t2)))"
            by (simp add: advance_def Let_def)
          from open'[OF this] show ?thesis using Inr \<open>x = Inr res\<close> bf load d r none True
            by (simp add: internal_attach_parts bind_run attach_publish_def)
        qed
      qed
    qed
  qed
  then show ?thesis by (simp add: reach_def)
qed

lemma commit_is_run:
  assumes "th_owner s = None" and "th_pcs s i = Idle"
  shows "\<exists>es. table_run env cat schema td s es (s\<lparr>sh_table := snd (ccv2_commit_execute env cat td c (sh_table s))\<rparr>)"
proof -
  define g where "g p t = goto i p t s" for p t
  define reach where "reach u \<longleftrightarrow> (\<exists>es. table_run env cat schema td s es u)" for u
  have step: "reach t \<Longrightarrow> advance env cat schema td i t = Some (e, u) \<Longrightarrow> reach u" for t e u
    unfolding reach_def by (blast intro: table_run.advance)
  have pc [simp]: "th_pcs (g p t) i = p" "sh_table (g p t) = t" "goto i p' t' (g p t) = g p' t'" "th_owner (g p t) = None"
    for p t p' t' using assms by (simp_all add: g_def)
  have fin: "g Idle t = s\<lparr>sh_table := t\<rparr>" for t using leave_goto(3)[OF assms] by (simp add: g_def)
  have "reach (g (CommitSnapshot c) (sh_table s))"
    unfolding reach_def g_def using table_run.commit[OF table_run.start assms(2)] by blast
  from step[OF this] have u: "reach (g (CommitUpdate c (ti_etag (sh_table s)) (ti_backfilled_version (sh_table s))) (sh_table s))"
    by (simp add: advance_def Let_def commit_snapshot_def)
  obtain r t where run: "commit_update env cat td c (ti_etag (sh_table s)) (ti_backfilled_version (sh_table s)) (sh_table s) = (r, t)"
    by (cases "commit_update env cat td c (ti_etag (sh_table s)) (ti_backfilled_version (sh_table s)) (sh_table s)")
  have "reach (s\<lparr>sh_table := snd (ccv2_commit_execute env cat td c (sh_table s))\<rparr>)"
  proof (cases r)
    case (Inl e)
    then show ?thesis using step[OF u] run fin
      by (simp add: advance_def Let_def commit_parts commit_snapshot_def bind_run)
  next
    case (Inr new)
    then have "reach (g (CommitDirty new) t)" using step[OF u] run by (simp add: advance_def Let_def)
    from step[OF this] have "reach (g (CommitPublish new) (snd (mark_dirty t)))" by (simp add: advance_def Let_def)
    from step[OF this] show ?thesis using run Inr fin
      by (simp add: advance_def Let_def commit_parts commit_snapshot_def bind_run mark_dirty_def)
  qed
  then show ?thesis by (simp add: reach_def)
qed

section \<open>A lost etag\<close>

text \<open>
  The commit of one thread is accepted and marks the table dirty; before it writes its etag, another thread
  attaches the table, which loads a later etag; then the first thread writes its own over it. The server here answers
  a commit with the etag \<open>1\<close> and a load with the etag \<open>2\<close>.
\<close>

definition env_etags :: env where
  "env_etags = env_fresh\<lparr>
     e_http := (\<lambda>h. Inr \<lparr>resp_success = True, resp_status = 200, resp_headers = [],
       resp_body = (case last h of Http m url tok body sg \<Rightarrow> if body = [] then ''load'' else ''commit'' | _ \<Rightarrow> []),
       resp_error = []\<rparr>),
     e_read := (\<lambda>text. Some (JObj [(''metadata'', JObj [(''etag'', JStr (if text = ''load'' then ''2'' else ''1''))])]))\<rparr>"

definition commit_witness :: staged_commit where
  "commit_witness = \<lparr>st_file_path = ''d/c.json'', st_file_size = 1, st_timestamp = 2, st_version = 3,
     st_file_modification_timestamp = 4\<rparr>"

definition idle_witness :: shared_table where
  "idle_witness = \<lparr>sh_table = state_witness, th_owner = None, th_pcs = (\<lambda>_. Idle)\<rparr>"

lemma etags_request:
  "\<exists>h. request_json env_etags url tok body failed s
     = (Inr (Some (JObj [(''metadata'', JObj [(''etag'', JStr (if body = [] then ''2'' else ''1''))])])), s\<lparr>hist := h\<rparr>)"
  by (auto simp: request_json_def make_request_def make_request_resp_def ensure_httpfs_extension_def bind_run
      env_etags_def env_fresh_def env_witness_def throw_on_error_def check_error_none has_error_def no_error_def)

lemma etags_update:
  "\<exists>h. commit_update env_etags settings_witness table_witness commit_witness [] None s = (Inr ''1'', s\<lparr>hist := h\<rparr>)"
proof -
  obtain body where body: "update_table_body env_etags (tb_table_id table_witness) [] (st_version commit_witness)
      (st_timestamp commit_witness) (commit_file_name (st_file_path commit_witness)) (st_file_size commit_witness)
      (st_file_modification_timestamp commit_witness) None = Inr body" "body \<noteq> []"
    by (simp add: update_table_body_def Let_def)
  then show ?thesis unfolding commit_update_def update_table_def
    using etags_request[of "delta_table_url (cat_credentials settings_witness) (tb_catalog_name table_witness)
      (tb_schema_name table_witness) (tb_name table_witness)" "token (cat_credentials settings_witness)" body
      "''Failed to commit to '' @ dotted (tb_catalog_name table_witness) (tb_schema_name table_witness) (tb_name table_witness)" s]
    by (auto simp: bind_run read_new_etag_def try_get_str_def templated_try_get_def cstr_def)
qed

lemma etags_load:
  "\<exists>h r. attach_load env_etags settings_witness table_witness s = (Inr r, s\<lparr>hist := h\<rparr>) \<and> cr_etag r = ''2'' \<and> cr_commits r = []"
  unfolding attach_load_def load_table_def
  using etags_request[of "delta_table_url (cat_credentials settings_witness) (tb_catalog_name table_witness)
      (tb_schema_name table_witness) (tb_name table_witness)" "token (cat_credentials settings_witness)" "[]"
      "''Failed to load table '' @ dotted (tb_catalog_name table_witness) (tb_schema_name table_witness) (tb_name table_witness)" s]
  by (auto simp: bind_run parse_load_table_def parse_metadata_def try_get_num_def try_get_str_def templated_try_get_def
      Let_def max_commit_version_def cstr_def)

lemma etag_can_be_lost:
  "\<exists>es t. table_run env_etags settings_witness ''s'' table_witness idle_witness es t \<and> (\<forall>i. th_pcs t i = Idle) \<and>
     \<not> ti_is_dirty (sh_table t) \<and> (\<exists>r. last_load es = Some r \<and> ti_etag (sh_table t) \<noteq> cr_etag r \<and>
       ti_attached (sh_table t) = Some (managed_attach_info settings_witness ''s'' table_witness r))"
proof -
  let ?adv = "advance env_etags settings_witness ''s'' table_witness"
  define reach where "reach l u \<longleftrightarrow> (\<exists>es. table_run env_etags settings_witness ''s'' table_witness idle_witness es u \<and>
      last_load es = l)" for l u
  have step: "reach l t \<Longrightarrow> ?adv i t = Some (e, u) \<Longrightarrow> reach (case e of Loaded r \<Rightarrow> Some r | _ \<Rightarrow> l) u" for l t i e u
    unfolding reach_def by (cases e) (fastforce dest: table_run.advance)+
  have managed: "is_catalog_managed table_witness"
    by (simp add: is_catalog_managed_def has_delta_feature_def table_witness_def)
  define p where "p = (\<lambda>_ :: nat. Idle)"
  define st where "st T d e a o' P = \<lparr>sh_table = \<lparr>hist = T, ti_is_dirty = d, ti_etag = e, ti_backfilled_version = None,
      ti_attached = a\<rparr>, th_owner = o', th_pcs = P\<rparr>" for T d e a and o' :: "nat option" and P :: "nat \<Rightarrow> table_pc"
  have idle: "idle_witness = st (hist state_witness) False [] None None p"
    by (simp add: idle_witness_def st_def p_def state_witness_def)
  let ?c = commit_witness
  have "reach None (st (hist state_witness) False [] None None (p(0 := CommitSnapshot ?c)))"
    unfolding reach_def using table_run.commit[OF table_run.start, of idle_witness 0 env_etags settings_witness "''s''" table_witness ?c]
    by (intro exI[of _ "[Silent]"]) (simp add: idle st_def goto_def p_def last_load_def)
  from step[OF this, of 0] have u: "reach None (st (hist state_witness) False [] None None (p(0 := CommitUpdate ?c [] None)))"
    by (simp add: advance_def Let_def commit_snapshot_def st_def goto_def)
  obtain h1 where "commit_update env_etags settings_witness table_witness ?c [] None
      (sh_table (st (hist state_witness) False [] None None p)) = (Inr ''1'', (sh_table (st (hist state_witness) False [] None None p))\<lparr>hist := h1\<rparr>)"
    using etags_update by blast
  then have "reach None (st h1 False [] None None (p(0 := CommitDirty ''1'')))"
    using step[OF u, of 0] by (simp add: advance_def Let_def st_def goto_def)
  from step[OF this, of 0] have c: "reach None (st h1 True [] None None (p(0 := CommitPublish ''1'')))"
    by (simp add: advance_def Let_def mark_dirty_def st_def goto_def)
  let ?q = "p(0 := CommitPublish ''1'')"
  have "reach None (st h1 True [] None (Some 1) (?q(1 := AttachStale)))"
    using c table_run.attach[of env_etags settings_witness "''s''" table_witness idle_witness _ _ 1] unfolding reach_def
    by (fastforce simp: st_def goto_def p_def)
  from step[OF this, of 1] have l: "reach None (st h1 False [] None (Some 1) (?q(1 := AttachLoad)))"
    using managed by (simp add: advance_def Let_def detach_if_stale_def internal_detach_def bind_run st_def goto_def)
  obtain h2 r where "attach_load env_etags settings_witness table_witness (sh_table (st h1 False [] None None p))
      = (Inr r, (sh_table (st h1 False [] None None p))\<lparr>hist := h2\<rparr>)" and r: "cr_etag r = ''2''" "cr_commits r = []"
    using etags_load by blast
  then have "reach (Some r) (st h2 False [] None (Some 1) (?q(1 := AttachBackfill r)))"
    using step[OF l, of 1] by (simp add: advance_def Let_def st_def goto_def)
  from step[OF this, of 1] have "reach (Some r) (st h2 False [] None (Some 1) (?q(1 := AttachPublish r None)))"
    using r by (simp add: advance_def Let_def attach_backfill_def backfill_commits_def bind_run st_def goto_def settings_witness_def)
  from step[OF this, of 1]
  have "reach (Some r) (st h2 False ''2'' None (Some 1) (?q(1 := AttachOpen (managed_attach_info settings_witness ''s'' table_witness r))))"
    using r by (simp add: advance_def Let_def attach_publish_def st_def goto_def)
  from step[OF this, of 1]
  have opened: "reach (Some r) (st (h2 @ [AttachDatabase (managed_attach_info settings_witness ''s'' table_witness r)]) False ''2''
      (Some (managed_attach_info settings_witness ''s'' table_witness r)) None (?q(1 := Idle)))"
    by (simp add: advance_def Let_def attach_open_def bind_run st_def leave_def env_etags_def env_fresh_def env_witness_def)
  let ?t = "st (h2 @ [AttachDatabase (managed_attach_info settings_witness ''s'' table_witness r)]) False ''1''
      (Some (managed_attach_info settings_witness ''s'' table_witness r)) None (?q(1 := Idle, 0 := Idle))"
  from step[OF opened, of 0] have "reach (Some r) ?t"
    by (simp add: advance_def Let_def commit_publish_def st_def goto_def fun_upd_twist)
  then obtain es where "table_run env_etags settings_witness ''s'' table_witness idle_witness es ?t" "last_load es = Some r"
    unfolding reach_def by blast
  moreover have "\<forall>i. th_pcs ?t i = Idle" "\<not> ti_is_dirty (sh_table ?t)" "ti_etag (sh_table ?t) \<noteq> cr_etag r"
      "ti_attached (sh_table ?t) = Some (managed_attach_info settings_witness ''s'' table_witness r)"
    using r by (simp_all add: st_def p_def)
  ultimately show ?thesis by blast
qed

section \<open>Properties\<close>

text \<open>
  C5: No commit is lost to a table, however its threads interleave. The Delta database attached for a
  catalog-managed table is the one of the last load; unless the table is dirty, so that the next attach loads it
  again, or a thread is about to make it so, no commit was accepted since that load.
\<close>

theorem accepted_commits_are_reloaded:
  assumes "table_run env cat schema td s es t" and "idle_table s" and "is_catalog_managed td"
  shows "case ti_attached (sh_table t) of None \<Rightarrow> True | Some info \<Rightarrow>
    (\<exists>r. last_load es = Some r \<and> info = managed_attach_info cat schema td r) \<and>
    (ti_is_dirty (sh_table t) \<or> marking t \<or> \<not> (\<exists>xs new ys. es = xs @ Accepted new # ys \<and> (\<forall>r. Loaded r \<notin> set ys)))"
  using run_inv[OF assms(1,2)] assms(3) unfolding table_inv_def unloaded_commit_iff[symmetric]
  by (auto split: option.split)

lemma accepted_commits_are_reloaded_witness:
  "\<exists>es t r. table_run env_etags settings_witness ''s'' table_witness idle_witness es t \<and>
     ti_attached (sh_table t) = Some (managed_attach_info settings_witness ''s'' table_witness r) \<and> last_load es = Some r \<and>
     \<not> (\<exists>xs new ys. es = xs @ Accepted new # ys \<and> (\<forall>r. Loaded r \<notin> set ys))"
proof -
  obtain es t r where run: "table_run env_etags settings_witness ''s'' table_witness idle_witness es t"
    and t: "\<forall>i. th_pcs t i = Idle" "\<not> ti_is_dirty (sh_table t)" "last_load es = Some r"
      "ti_attached (sh_table t) = Some (managed_attach_info settings_witness ''s'' table_witness r)"
    using etag_can_be_lost by blast
  have "is_catalog_managed table_witness"
    by (simp add: is_catalog_managed_def has_delta_feature_def table_witness_def)
  moreover have "idle_table idle_witness" by (simp add: idle_table_def idle_witness_def new_table_def state_witness_def)
  ultimately have "\<not> (\<exists>xs new ys. es = xs @ Accepted new # ys \<and> (\<forall>r. Loaded r \<notin> set ys))"
    using accepted_commits_are_reloaded[OF run] t by (simp add: marking_def)
  then show ?thesis using run t by blast
qed

text \<open>
  C27: In every interleaving at most one thread is inside \<open>attach_lock\<close>, the one that owns it; only that thread
  moves the backfill watermark, and it never moves it back.
\<close>

theorem watermark_moved_by_lock_owner:
  assumes "table_run env cat schema td s es t" and "idle_table s" and "advance env cat schema td i t = Some (e, u)"
  shows "(\<forall>j. locked_pc (th_pcs t j) \<longleftrightarrow> th_owner t = Some j) \<and>
    ti_backfilled_version (sh_table t) \<le> ti_backfilled_version (sh_table u) \<and>
    (ti_backfilled_version (sh_table u) \<noteq> ti_backfilled_version (sh_table t) \<longrightarrow> th_owner t = Some i)"
proof -
  have inv: "locked_pc (th_pcs t j) \<longleftrightarrow> th_owner t = Some j" "attach_point cat schema td es t (th_pcs t j)" for j
    using run_inv[OF assms(1,2)] unfolding table_inv_def by blast+
  have "ti_backfilled_version (sh_table t) \<le> ti_backfilled_version (sh_table u) \<and>
    (ti_backfilled_version (sh_table u) \<noteq> ti_backfilled_version (sh_table t) \<longrightarrow> locked_pc (th_pcs t i))"
    using assms(3) inv(2)[of i] by (cases rule: advance_cases) auto
  then show ?thesis using inv(1) by blast
qed

lemma watermark_moved_by_lock_owner_witness:
  "\<exists>t u. table_run env_etags settings_witness ''s'' table_witness idle_witness [Silent] t \<and> th_owner t = Some 3 \<and>
     advance env_etags settings_witness ''s'' table_witness 3 t = Some (Silent, u) \<and>
     ti_backfilled_version (sh_table t) \<le> ti_backfilled_version (sh_table u)"
proof -
  let ?t = "goto 3 AttachStale (sh_table idle_witness) (idle_witness\<lparr>th_owner := Some 3\<rparr>)"
  have run: "table_run env_etags settings_witness ''s'' table_witness idle_witness [Silent] ?t"
    using table_run.attach[OF table_run.start, of idle_witness 3] by (simp add: idle_witness_def)
  obtain u where adv: "advance env_etags settings_witness ''s'' table_witness 3 ?t = Some (Silent, u)"
    by (simp add: advance_def Let_def)
  have "idle_table idle_witness" by (simp add: idle_table_def idle_witness_def new_table_def state_witness_def)
  from watermark_moved_by_lock_owner[OF run this adv]
  have "ti_backfilled_version (sh_table ?t) \<le> ti_backfilled_version (sh_table u)" by blast
  moreover have "th_owner ?t = Some 3" by simp
  ultimately show ?thesis using run adv by blast
qed

text \<open>
  C39: The threads can do what the operations do: \<open>InternalAttach\<close> and the commit function, each run as
  one step to its end or its exception, are runs of one thread between the others.
\<close>

theorem operations_are_runs:
  assumes "th_owner s = None" and "th_pcs s i = Idle"
  shows "(\<exists>es. table_run env cat schema td s es
      (s\<lparr>sh_table := snd (internal_attach env cat schema td (sh_table s))\<rparr>)) \<and>
    (\<exists>es. table_run env cat schema td s es (s\<lparr>sh_table := snd (ccv2_commit_execute env cat td c (sh_table s))\<rparr>))"
  using attach_is_run[OF assms] commit_is_run[OF assms] by blast

lemma operations_are_runs_witness:
  "\<exists>es. table_run env_etags settings_witness ''s'' table_witness idle_witness es
     (idle_witness\<lparr>sh_table := snd (ccv2_commit_execute env_etags settings_witness table_witness commit_witness state_witness)\<rparr>)"
proof -
  have "th_owner idle_witness = None" "th_pcs idle_witness 0 = Idle" by (simp_all add: idle_witness_def)
  from operations_are_runs[OF this] show ?thesis by (simp add: idle_witness_def)
qed

end
