(* ===== verification/UC_Extension.thy ===== *)
theory UC_Extension
  imports UC_Attach UC_Functions
begin

text \<open>
  What loading the extension hands to DuckDB (\<open>LoadInternal\<close> of \<open>src/unity_catalog_extension.cpp\<close>): secret types,
  the functions that create them, storage extensions and table functions, as the list of registrations in the order
  they are made. The lemmas tie the names together: a secret type that can be named can be created, its
  parameters are the ones the create function takes, both storage names attach the same kind of catalog, and the names
  and signatures of the table functions fit.
\<close>

section \<open>Registrations\<close>

text \<open>A flag stands for the template parameter of the registered function or class.\<close>

datatype registration =
    SecretType string string
  | SecretFunction string string "string list" bool
  | StorageName string bool
  | TableFunctionName string

definition set_uc_secret_parameters :: "string list" where
  "set_uc_secret_parameters = [''token'', ''endpoint'', ''aws_region'']"

definition checkpoint_function_name :: "bool \<Rightarrow> string" where
  "checkpoint_function_name force =
     (if force then ''unity_catalog_force_checkpoint_table'' else ''unity_catalog_checkpoint_table'')"

definition load_internal :: "registration list" where
  "load_internal =
     [SecretType ''unity_catalog'' ''config'', SecretType ''uc'' ''config'',
      SecretFunction ''unity_catalog'' ''config'' set_uc_secret_parameters False,
      SecretFunction ''uc'' ''config'' set_uc_secret_parameters True,
      StorageName ''unity_catalog'' False, StorageName ''uc_catalog'' False,
      TableFunctionName (checkpoint_function_name False), TableFunctionName (checkpoint_function_name True),
      TableFunctionName ''uc_read_deletion_vector'', TableFunctionName ''__internal_uc_plan_table_scan'']"

section \<open>Signatures\<close>

text \<open>The parameters of a table function, named where the code names them, its options, and whether it has a state of its own.\<close>

record signature =
  sig_name :: string
  sig_parameters :: "(string \<times> logical_type) list"
  sig_options :: "(string \<times> logical_type) list"
  sig_has_init :: bool

definition ccv2_commit_signature :: signature where
  "ccv2_commit_signature = \<lparr>sig_name = ''__internal_delta_ccv2_commit_staged'', sig_parameters = [([], VARCHAR)],
     sig_options = [], sig_has_init = True\<rparr>"

definition table_data_path_signature :: signature where
  "table_data_path_signature = \<lparr>sig_name = ''table_data_path'', sig_parameters = [(''table_name'', VARCHAR)],
     sig_options = [], sig_has_init = False\<rparr>"

definition checkpoint_signature :: "bool \<Rightarrow> signature" where
  "checkpoint_signature force = \<lparr>sig_name = checkpoint_function_name force, sig_parameters = [(''table_name'', VARCHAR)],
     sig_options = [], sig_has_init = False\<rparr>"

definition read_deletion_vector_signature :: signature where
  "read_deletion_vector_signature = \<lparr>sig_name = ''uc_read_deletion_vector'', sig_parameters = [(''path'', VARCHAR)],
     sig_options = [(''content_offset'', BIGINT), (''content_size'', BIGINT)], sig_has_init = True\<rparr>"

definition plan_table_scan_signature :: signature where
  "plan_table_scan_signature = \<lparr>sig_name = ''__internal_uc_plan_table_scan'',
     sig_parameters = map (\<lambda>p. (p, VARCHAR)) [''endpoint'', ''catalog'', ''schema'', ''table'', ''token''],
     sig_options = [(''filter'', VARCHAR)], sig_has_init = True\<rparr>"

definition clear_cache_signature :: signature where
  "clear_cache_signature = \<lparr>sig_name = ''uc_clear_cache'', sig_parameters = [], sig_options = [], sig_has_init = False\<rparr>"

definition clear_cache_bind :: "bool \<times> (string \<times> logical_type) list" where
  "clear_cache_bind = (False, [(''Success'', BOOLEAN)])"

section \<open>Secrets\<close>

lemma set_secret_options_ok:
  "(\<exists>m'. set_secret_options os m = Inr m') \<longleftrightarrow> list_all (\<lambda>(k, v). lower k \<in> set set_uc_secret_parameters) os"
proof (induction os arbitrary: m)
  case (Cons x os)
  obtain k v where x: "x = (k, v)" by (cases x)
  show ?case unfolding x using Cons by (simp add: set_uc_secret_parameters_def Let_def)
qed simp

text \<open>
  The registered secrets can be created. Each registered type has a create function of its provider, which
  makes a secret of that very type, and fails exactly when it is given a parameter that is not among the
  registered ones.
\<close>

theorem registered_secrets_creatable:
  "list_all (\<lambda>r. case r of
      SecretType type provider \<Rightarrow> (\<exists>ps short. SecretFunction type provider ps short \<in> set load_internal)
    | SecretFunction type provider ps short \<Rightarrow>
        (\<forall>name os. case create_uc_secret short name os of
            Inr kv \<Rightarrow> kv_type kv = type \<and> kv_provider kv = provider \<and> list_all (\<lambda>(k, v). lower k \<in> set ps) os
          | Inl e \<Rightarrow> \<not> list_all (\<lambda>(k, v). lower k \<in> set ps) os)
    | _ \<Rightarrow> True) load_internal"
proof -
  have "case create_uc_secret short name os of
      Inr kv \<Rightarrow> kv_type kv = (if short then ''uc'' else ''unity_catalog'') \<and> kv_provider kv = ''config'' \<and>
        list_all (\<lambda>(k, v). lower k \<in> set set_uc_secret_parameters) os
    | Inl e \<Rightarrow> \<not> list_all (\<lambda>(k, v). lower k \<in> set set_uc_secret_parameters) os" for short name os
  proof (cases "set_secret_options os Map.empty")
    case (Inl e)
    then have "\<not> list_all (\<lambda>(k, v). lower k \<in> set set_uc_secret_parameters) os"
      using set_secret_options_ok[of os Map.empty] by auto
    then show ?thesis using Inl by (simp add: create_uc_secret_def)
  next
    case (Inr m)
    then have "list_all (\<lambda>(k, v). lower k \<in> set set_uc_secret_parameters) os"
      using set_secret_options_ok[of os Map.empty] by auto
    then show ?thesis using Inr by (simp add: create_uc_secret_def)
  qed
  note facts = this[where short = False, unfolded if_False] this[where short = True, unfolded if_True]
  then show ?thesis by (simp add: load_internal_def) blast
qed

section \<open>Storage extensions and table functions\<close>

text \<open>
  Both storage names attach without the template parameter that would name the catalog after the deprecated
  alias, so no attached catalog is called \<open>uc_catalog\<close>.
\<close>

lemma attached_catalog_names:
  assumes "StorageName storage deprecated \<in> set load_internal"
    and "unity_catalog_attach env deprecated secrets path ro os s = (Inr c, t)"
  shows "ac_catalog_name c = ''unity_catalog''"
proof -
  have "\<not> deprecated" using assms(1) by (auto simp: load_internal_def)
  then show ?thesis using assms(2) by (auto simp: unity_catalog_attach_def bind_eq_Inr Let_def)
qed

text \<open>
  Every table function can be found by its name: those the extension registers, and those a schema makes when they are
  looked up; only the clear-cache function is neither.
\<close>

lemma functions_found:
  "map (TableFunctionName \<circ> sig_name) [checkpoint_signature False, checkpoint_signature True, read_deletion_vector_signature,
     plan_table_scan_signature] = filter (\<lambda>r. case r of TableFunctionName n \<Rightarrow> True | _ \<Rightarrow> False) load_internal"
  "map sig_name [ccv2_commit_signature, table_data_path_signature] = built_in_functions"
  "TableFunctionName (sig_name clear_cache_signature) \<notin> set load_internal" "sig_name clear_cache_signature \<notin> set built_in_functions"
  by (simp_all add: checkpoint_signature_def read_deletion_vector_signature_def plan_table_scan_signature_def load_internal_def
      ccv2_commit_signature_def table_data_path_signature_def built_in_functions_def clear_cache_signature_def
      checkpoint_function_name_def)

end
