(* ===== verification/UC_Unit_Tests.thy ===== *)
theory UC_Unit_Tests
  imports UC_Deletes UC_Irc UC_Wire
begin

text \<open>
  The cases of the repository's own unit tests (\<open>test/functions\<close>), evaluated on the model: what the tests
  expect of the C++ the definitions give. The names follow the test cases. \<open>digits_u8\<close> stands for the cast of
  a string to an \<open>uint8_t\<close>, \<open>show_double\<close> for \<open>%.17g\<close> on the values the tests use.
\<close>

section \<open>Column types (\<open>test_uc_type_mapping.cpp\<close>)\<close>

definition digits_u8 :: "string \<Rightarrow> u8 res" where
  "digits_u8 s = (if s = [] \<or> \<not> list_all (\<lambda>c. c \<in> set ''0123456789'') s
     then Inl (InvalidInputException ''not a number'')
     else Inr (of_nat (foldl (\<lambda>n c. 10 * n + (of_char c - 48)) 0 s)))"

abbreviation map_type :: "string \<Rightarrow> logical_type res" where
  "map_type \<equiv> type_to_logical digits_u8"

lemma test_scalars:
  "map map_type [''tinyint'', ''smallint'', ''int'', ''bigint'', ''long'', ''float'', ''double'', ''boolean'', ''date'',
     ''binary'', ''void'', ''timestamp'', ''timestamp_ntz'', ''variant''] =
   map Inr [TINYINT, SMALLINT, INTEGER, BIGINT, BIGINT, FLOAT, DOUBLE, BOOLEAN, DATE, BLOB, SQLNULL, TIMESTAMP_TZ,
     TIMESTAMP, VARIANT]"
  by code_simp

lemma test_string_spellings:
  "map map_type [''string'', ''char'', ''char(10)'', ''varchar(255)''] = replicate 4 (Inr VARCHAR)"
  by code_simp

lemma test_decimal:
  "map map_type [''decimal(10,2)'', ''decimal(38,0)'', ''decimal(1,1)''] =
   map Inr [DECIMAL 10 2, DECIMAL 38 0, DECIMAL 1 1]"
  by code_simp

lemma test_array:
  "map map_type [''array<int>'', ''array<variant>'', ''array<array<string>>''] =
   map Inr [LIST INTEGER, LIST VARIANT, LIST (LIST VARCHAR)]"
  by code_simp

lemma test_map:
  "map map_type [''map<string,int>'', ''map<string,variant>'', ''map<string,map<string,int>>'',
     ''map<string,decimal(10,2)>''] =
   map Inr [MAP VARCHAR INTEGER, MAP VARCHAR VARIANT, MAP VARCHAR (MAP VARCHAR INTEGER), MAP VARCHAR (DECIMAL 10 2)]"
  by code_simp

lemma test_struct:
  "map map_type [''struct<a:int,b:string>'', ''struct<v:variant>'', ''struct<a:decimal(10,2),b:varchar(5)>'',
     ''struct<a:struct<b:int,c:string>,d:decimal(9,3)>''] =
   map Inr [STRUCT [(''a'', INTEGER), (''b'', VARCHAR)], STRUCT [(''v'', VARIANT)],
     STRUCT [(''a'', DECIMAL 10 2), (''b'', VARCHAR)],
     STRUCT [(''a'', STRUCT [(''b'', INTEGER), (''c'', VARCHAR)]), (''d'', DECIMAL 9 3)]]"
  by code_simp

lemma test_nested_variant:
  "map map_type [''array<struct<v:variant>>'', ''map<string,array<variant>>'', ''struct<vs:array<variant>>''] =
   map Inr [LIST (STRUCT [(''v'', VARIANT)]), MAP VARCHAR (LIST VARIANT), STRUCT [(''vs'', LIST VARIANT)]]"
  by code_simp

fun not_implemented :: "'a res \<Rightarrow> bool" where
  "not_implemented (Inl (NotImplementedException m)) = True"
| "not_implemented _ = False"

lemma test_malformed:
  "list_all (\<lambda>t. not_implemented (map_type t)) ['''', ''interval'', ''decimal(10'', ''array<int'', ''struct<a>'',
     ''map<int>'', ''array<nosuch>'', ''struct<>'', ''map<>'']"
  by code_simp

section \<open>Position deletes (\<open>test_uc_position_delete_filter.cpp\<close>)\<close>

lemma test_position_deletes:
  "snd (position_filter {} 0 4) = [0, 1, 2, 3]" "snd (position_filter {1, 3} 0 5) = [0, 2, 4]"
  "snd (position_filter {102} 100 5) = [0, 1, 3, 4]" "snd (position_filter {7} 100 3) = [0, 1, 2]"
  "snd (position_filter {5, 6, 7} 0 0) = []" "snd (position_filter {100, 101, 102} 100 3) = []"
  by code_simp+

section \<open>Filters (\<open>test_uc_irc_expression.cpp\<close>)\<close>

definition show_double :: "u64 \<Rightarrow> string" where
  "show_double d = (if d = 0x3FF8000000000000 then ''1.5''
     else if d = 0x3FB999999999999A then ''0.10000000000000001'' else ''inf'')"

definition one :: "expr \<Rightarrow> string res" where
  "one e = serialize_filters_to_irc show_double [e]"

abbreviation age :: expr where "age \<equiv> ColumnRef ''age''"

abbreviation int_const :: "i64 \<Rightarrow> expr" where "int_const n \<equiv> Constant (VSigned (Some n))"

lemma test_comparisons:
  "map (\<lambda>c. one (Comparison c age (int_const 30)))
     [EQUAL, LESSTHAN, GREATERTHAN, NOTEQUAL, LESSTHANOREQUALTO, GREATERTHANOREQUALTO] =
   map (\<lambda>op. Inr (''{\"type\":\"'' @ op @ ''\",\"term\":\"age\",\"value\":30}''))
     [''eq'', ''lt'', ''gt'', ''not-eq'', ''lt-eq'', ''gt-eq'']"
  by code_simp

lemma test_constant_on_left:
  "one (Comparison GREATERTHAN (int_const 30) age) = Inr ''{\"type\":\"lt\",\"term\":\"age\",\"value\":30}''"
  by code_simp

lemma test_values:
  "one (Comparison EQUAL (ColumnRef ''p'') (Constant (VDouble (Some 0x3FF8000000000000))))
     = Inr ''{\"type\":\"eq\",\"term\":\"p\",\"value\":1.5}''"
  "one (Comparison EQUAL (ColumnRef ''p'') (Constant (VDouble (Some 0x3FB999999999999A))))
     = Inr ''{\"type\":\"eq\",\"term\":\"p\",\"value\":0.10000000000000001}''"
  "one (Comparison EQUAL (ColumnRef ''f'') (Constant (VBoolean (Some True))))
     = Inr ''{\"type\":\"eq\",\"term\":\"f\",\"value\":true}''"
  "one (Comparison EQUAL (ColumnRef ''name'') (Constant (VVarchar (Some ''bob''))))
     = Inr ''{\"type\":\"eq\",\"term\":\"name\",\"value\":\"bob\"}''"
  "one (Comparison EQUAL (ColumnRef ''name'') (Constant (VVarchar (Some ''a\"b''))))
     = Inr (''{\"type\":\"eq\",\"term\":\"name\",\"value\":\"a'' @ [CHR 0x5C] @ ''\"b\"}'')"
  by code_simp+

lemma test_non_finite:
  "one (Comparison LESSTHAN (ColumnRef ''p'') (Constant (VDouble (Some 0x7FF0000000000000)))) = Inr []"
  by code_simp

lemma test_quoted_column:
  "one (Comparison EQUAL (ColumnRef ''we\"ird'') (int_const 1))
     = Inr (''{\"type\":\"eq\",\"term\":\"we'' @ [CHR 0x5C] @ ''\"ird\",\"value\":1}'')"
  by code_simp

lemma test_null_tests:
  "one (Operator IS_NULL [age]) = Inr ''{\"type\":\"is-null\",\"term\":\"age\"}''"
  "one (Operator IS_NOT_NULL [age]) = Inr ''{\"type\":\"not-null\",\"term\":\"age\"}''"
  by code_simp+

lemma test_conjunctions:
  "one (Conjunction True [Comparison GREATERTHAN age (int_const 10), Comparison LESSTHAN age (int_const 20)]) =
     Inr (''{\"type\":\"and\",\"left\":{\"type\":\"gt\",\"term\":\"age\",\"value\":10},''
       @ ''\"right\":{\"type\":\"lt\",\"term\":\"age\",\"value\":20}}'')"
  "one (Conjunction False [Comparison EQUAL age (int_const 1), Comparison EQUAL age (int_const 2)]) =
     Inr (''{\"type\":\"or\",\"left\":{\"type\":\"eq\",\"term\":\"age\",\"value\":1},''
       @ ''\"right\":{\"type\":\"eq\",\"term\":\"age\",\"value\":2}}'')"
  by code_simp+

lemma test_unsupported_child:
  "one (Conjunction False [Comparison EQUAL age (int_const 1), Comparison EQUAL (ColumnRef ''a'') (ColumnRef ''b'')]) = Inr []"
  "one (Conjunction True [Comparison EQUAL age (int_const 1), Comparison EQUAL (ColumnRef ''a'') (ColumnRef ''b'')])
     = Inr ''{\"type\":\"eq\",\"term\":\"age\",\"value\":1}''"
  by code_simp+

lemma test_top_level:
  "serialize_filters_to_irc show_double [] = Inr []"
  "serialize_filters_to_irc show_double
     [Comparison GREATERTHAN age (int_const 10), Comparison LESSTHAN age (int_const 20)] =
     Inr (''{\"type\":\"and\",\"left\":{\"type\":\"gt\",\"term\":\"age\",\"value\":10},''
       @ ''\"right\":{\"type\":\"lt\",\"term\":\"age\",\"value\":20}}'')"
  by code_simp+

section \<open>The schema sent to Unity Catalog (\<open>test_uc_wire_schema.cpp\<close>)\<close>

definition field :: "string \<Rightarrow> json \<Rightarrow> json" where
  "field name type = JObj [(''name'', JStr name), (''type'', type), (''nullable'', JBool True), (''metadata'', JObj [])]"

definition struct_of :: "json list \<Rightarrow> json" where
  "struct_of fs = JObj [(''type'', JStr ''struct''), (''fields'', JArr fs)]"

abbreviation wire :: "json \<Rightarrow> json" where
  "wire \<equiv> wire_schema_copy put_witness"

lemma test_flat_columns:
  "wire (struct_of [field ''id'' (JStr ''integer''), field ''name'' (JStr ''string'')])
     = struct_of [field ''id'' (JStr ''integer''), field ''name'' (JStr ''string'')]"
  by code_simp

lemma test_array_and_map_parameters:
  "wire (struct_of
     [field ''tags'' (JObj [(''type'', JStr ''array''), (''elementType'', JStr ''string''), (''containsNull'', JBool True)]),
      field ''scores'' (JObj [(''type'', JStr ''map''), (''keyType'', JStr ''string''), (''valueType'', JStr ''integer''),
        (''valueContainsNull'', JBool True)])]) =
   struct_of
     [field ''tags'' (JObj [(''type'', JStr ''array''), (''element-type'', JStr ''string''), (''contains-null'', JBool True)]),
      field ''scores'' (JObj [(''type'', JStr ''map''), (''key-type'', JStr ''string''), (''value-type'', JStr ''integer''),
        (''value-contains-null'', JBool True)])]"
  by code_simp

lemma test_nested_renames:
  "wire (struct_of [field ''m'' (JObj [(''type'', JStr ''map''), (''keyType'', JStr ''string''),
       (''valueType'', struct_of [field ''xs'' (JObj [(''type'', JStr ''array''), (''elementType'', JStr ''decimal(18,4)''),
          (''containsNull'', JBool True)])]), (''valueContainsNull'', JBool False)])]) =
   struct_of [field ''m'' (JObj [(''type'', JStr ''map''), (''key-type'', JStr ''string''),
       (''value-type'', struct_of [field ''xs'' (JObj [(''type'', JStr ''array''), (''element-type'', JStr ''decimal(18,4)''),
          (''contains-null'', JBool True)])]), (''value-contains-null'', JBool False)])]"
  by code_simp

lemma test_names_are_values:
  "wire (struct_of [field ''elementType'' (JStr ''integer''), field ''valueContainsNull'' (JStr ''string'')])
     = struct_of [field ''elementType'' (JStr ''integer''), field ''valueContainsNull'' (JStr ''string'')]"
  by code_simp

lemma test_unreadable_schema: "e_read env text = None \<Longrightarrow> isl (wire_schema env put text)"
  by (simp add: wire_schema_def)

end
