(* ===== verification/UC_Planned_Rows.thy ===== *)
theory UC_Planned_Rows
  imports UC_Scan UC_Deletes UC_File_List
begin

text \<open>
  A planned scan from the plan to the rows: the plan of \<open>InitGlobal\<close> becomes the file list of the parquet scan,
  which \<open>ExpandNextPath\<close> extends while the scan reads it; \<open>FinalizeBind\<close> gives every file its delete filter, and
  the filter selects the rows. Every part is in the theory of its component; here they are put together.
\<close>

section \<open>Expanding while scanning\<close>

text \<open>The file list after a number of further calls of \<open>ExpandNextPath\<close> that did not fail.\<close>

fun expand_times :: "env \<Rightarrow> plan_ref \<Rightarrow> nat \<Rightarrow> list_state \<Rightarrow> list_state option" where
  "expand_times env p 0 fl = Some fl"
| "expand_times env p (Suc n) fl =
     (case expand_next_path env p fl of
        Some (Inr b, fl') \<Rightarrow> expand_times env p n fl'
      | _ \<Rightarrow> None)"

text \<open>
  The tasks of some responses in order, each with the delete files of the response it came with; a file list has the
  files of such tasks if every file and its deletes are those of its task.
\<close>

definition response_tasks :: "scan_plan_result list \<Rightarrow> (scan_delete_file list \<times> file_scan_task) list" where
  "response_tasks rs = concat (map (\<lambda>r. map (Pair (pl_delete_files r)) (pl_file_scan_tasks r)) rs)"

definition lists_tasks :: "list_state \<Rightarrow> (scan_delete_file list \<times> file_scan_task) list \<Rightarrow> bool" where
  "lists_tasks fl ts \<longleftrightarrow> fl_expanded_files fl = map (\<lambda>(dels, k). make_open_file_info (task_data_file k)) ts \<and>
     fl_file_deletes fl = map (\<lambda>(dels, k). resolved dels k) ts"

text \<open>A response of the endpoint that hands out more tasks of the plan.\<close>

definition fetched :: "env \<Rightarrow> plan_ref \<Rightarrow> scan_plan_result \<Rightarrow> bool" where
  "fetched env p r \<longleftrightarrow> (\<exists>tok (s :: list_state) t. fetch_scan_tasks env p tok s = (Inr r, t))"

lemma expanded_lists:
  assumes "expanded env p s (Inr b, t)" and "lists_tasks s (response_tasks rs)"
  shows "\<exists>later. list_all (fetched env p) later \<and> length later \<le> 1 \<and> lists_tasks t (response_tasks (rs @ later))"
proof (cases b)
  case True
  then obtain r where "fetched env p r" "added s t (pl_file_scan_tasks r) (pl_delete_files r)"
    using assms(1) by (auto simp: expanded_def fetched_def)
  then show ?thesis using assms(2)
    by (intro exI[of _ "[r]"]) (simp add: added_def lists_tasks_def response_tasks_def comp_def)
next
  case False
  then show ?thesis using assms by (intro exI[of _ "[]"]) (simp add: expanded_def lists_tasks_def)
qed

lemma expand_times_lists:
  "expand_times env p n s = Some t \<Longrightarrow> lists_tasks s (response_tasks rs) \<Longrightarrow>
     \<exists>later. list_all (fetched env p) later \<and> length later \<le> n \<and> lists_tasks t (response_tasks (rs @ later))"
proof (induction n arbitrary: s rs)
  case 0
  then show ?case by (intro exI[of _ "[]"]) simp
next
  case (Suc n)
  then obtain b s1 where step: "expand_next_path env p s = Some (Inr b, s1)"
    and rest: "expand_times env p n s1 = Some t"
    by (auto split: option.splits prod.splits sum.splits)
  from expanded_lists[OF expand_next_path_result[OF step] Suc.prems(2)] obtain l1 where
    l1: "list_all (fetched env p) l1" "length l1 \<le> 1" "lists_tasks s1 (response_tasks (rs @ l1))" by blast
  from Suc.IH[OF rest l1(3)] obtain l2 where
    "list_all (fetched env p) l2" "length l2 \<le> n" "lists_tasks t (response_tasks ((rs @ l1) @ l2))" by blast
  then show ?case using l1 by (intro exI[of _ "l1 @ l2"]) simp
qed

lemma new_file_list_lists: "new_file_list plan s = (Inr u, t) \<Longrightarrow> lists_tasks t (response_tasks [plan])"
  using new_file_list_added[of plan s u t] by (simp add: lists_tasks_def response_tasks_def comp_def)

section \<open>The list a planned scan starts with\<close>

lemma planned_file_list:
  assumes "init_global env cat schema bd s = (Inr (ParquetInner fl), t)"
  shows "\<exists>plan s1 h. plan_completed env bd s = (Inr plan, s1) \<and> new_file_list plan (empty_list h) = (Inr (), fl)"
proof -
  obtain p s1 where p: "plan_completed env bd s = (p, s1)" by (cases "plan_completed env bd s")
  show ?thesis
  proof (cases p)
    case (Inl e)
    then have "fall_back env cat schema bd s1 = (Inr (ParquetInner fl), t)"
      using assms init_global_run[OF p] by (simp split: if_splits)
    from fall_back_result[OF this] show ?thesis by simp
  next
    case (Inr plan)
    then have "scan_planned_files env bd plan (if bd_has_catalog bd then s1\<lparr>sp_availability := AVAILABLE\<rparr> else s1)
      = (Inr (ParquetInner fl), t)"
      using assms init_global_run[OF p] by simp
    from scan_planned_files_result[OF this] show ?thesis using p Inr by auto
  qed
qed

text \<open>
  The rows of a range of a file that a reader with this deletion filter returns, as indexes into the range; and
  those that are in none of some sets of deleted positions.
\<close>

definition selected_rows :: "i64 set option \<Rightarrow> i64 \<Rightarrow> nat \<Rightarrow> nat list" where
  "selected_rows flt start cnt =
     (case flt of None \<Rightarrow> [0..<cnt] | Some positions \<Rightarrow> snd (position_filter positions start cnt))"

definition rows_left :: "i64 set list \<Rightarrow> i64 \<Rightarrow> nat \<Rightarrow> nat list" where
  "rows_left parts start cnt = filter (\<lambda>j. list_all (\<lambda>part. start + of_nat j \<notin> part) parts) [0..<cnt]"

lemma rows_left_none: "\<Union> (set parts) = {} \<Longrightarrow> rows_left parts start cnt = [0..<cnt]"
  unfolding rows_left_def by (rule filter_True) (auto simp: list_all_iff)

lemma selected_rows_filter:
  "selected_rows (if \<Union> (set parts) = {} then None else Some (\<Union> (set parts))) start cnt = rows_left parts start cnt"
  by (simp add: rows_left_none selected_rows_def)
     (auto simp: rows_left_def position_filter_def Let_def list_all_iff)

text \<open>What the filter of a file leaves of any range of its rows.\<close>

lemma finalize_bind_rows:
  assumes "finalize_bind env rb i fl = (Inr flt, u)"
  shows "\<exists>parts. list_all2 (contributes env rb (get_data_file_path fl i)) (get_delete_files_for_file fl i) parts \<and>
    selected_rows flt start cnt
      = rows_left parts start cnt"
proof (cases "get_delete_files_for_file fl i = []")
  case True
  then have "flt = None" using assms by (simp add: finalize_bind_def bind_run)
  then show ?thesis using True rows_left_none[of "[]"] by (intro exI[of _ "[]"]) (simp add: selected_rows_def)
next
  case False
  then have "build_uc_delete_filter env rb (get_data_file_path fl i) (get_delete_files_for_file fl i) fl = (Inr flt, u)"
    using assms by (simp add: finalize_bind_def bind_run)
  from build_filter_contributes[OF this] show ?thesis using selected_rows_filter by blast
qed

text \<open>The rows of a file of the list, by the task it is of.\<close>

lemma listed_file_rows:
  assumes "lists_tasks fl ts"
  shows "case finalize_bind env rb i fl of
      (Inr flt, u) \<Rightarrow>
        if i < length (fl_expanded_files fl)
        then case ts ! i of (dels, task) \<Rightarrow>
          get_data_file_path fl i = df_file_path (task_data_file task) \<and>
          (\<exists>parts. list_all2 (contributes env rb (df_file_path (task_data_file task))) (resolved dels task) parts \<and>
             selected_rows flt start cnt = rows_left parts start cnt)
        else True
    | _ \<Rightarrow> True"
proof -
  have "get_data_file_path fl i = df_file_path (task_data_file task) \<and>
      (\<exists>parts. list_all2 (contributes env rb (df_file_path (task_data_file task))) (resolved dels task) parts \<and>
         selected_rows flt start cnt = rows_left parts start cnt)"
    if "i < length ts" "ts ! i = (dels, task)" "finalize_bind env rb i fl = (Inr flt, u)" for dels task flt u
    using finalize_bind_rows[OF that(3), of start cnt] that assms
    by (simp add: lists_tasks_def get_data_file_path_def get_delete_files_for_file_def make_open_file_info_def)
  then have "case ts ! i of (dels, task) \<Rightarrow> get_data_file_path fl i = df_file_path (task_data_file task) \<and>
      (\<exists>parts. list_all2 (contributes env rb (df_file_path (task_data_file task))) (resolved dels task) parts \<and>
         selected_rows flt start cnt = rows_left parts start cnt)"
    if "i < length ts" "finalize_bind env rb i fl = (Inr flt, u)" for flt u
    using that by (auto split: prod.split)
  moreover have "length (fl_expanded_files fl) = length ts" using assms by (simp add: lists_tasks_def)
  ultimately show ?thesis by (auto split: sum.split)
qed

text \<open>The tasks a planned scan's list is of, however often it was expanded.\<close>

lemma planned_tasks:
  assumes "init_global env cat schema bd s = (Inr (ParquetInner fl), t)" and "expand_times env p n fl = Some fl'"
  shows "\<exists>plan s1 later. plan_completed env bd s = (Inr plan, s1) \<and> list_all (fetched env p) later \<and>
    length later \<le> n \<and> lists_tasks fl' (response_tasks (plan # later))"
proof -
  from planned_file_list[OF assms(1)] obtain plan s1 h where plan: "plan_completed env bd s = (Inr plan, s1)"
    and new: "new_file_list plan (empty_list h) = (Inr (), fl)" by blast
  from expand_times_lists[OF assms(2) new_file_list_lists[OF new]] plan show ?thesis by auto
qed

section \<open>Property\<close>


end
