(* ===== verification/UC_Sessions.thy ===== *)
theory UC_Sessions
  imports UC_Statements
begin

text \<open>
  The transaction manager with its map of live transactions (\<open>src/storage/uc_transaction_manager.cpp\<close>): several
  sessions use one catalog, each in a transaction of its own. The catalog, its schemas and tables are shared;
  the table entries a transaction binds against are its own, and stay until it ends. A step is one operation
  of one session; what the threads of two sessions do to a single table at the same time is in \<open>UC_Interleaving\<close>.
\<close>

section \<open>State\<close>

text \<open>A live transaction is known by its address. The transaction fields of the catalog state are those of the
  transaction the running operation is in.\<close>

type_synonym live_transaction = "transaction_state \<times> (string \<times> table_entry) list"

record sessions =
  ss_catalog :: uc_state
  ss_live :: "(nat \<times> live_transaction) list"

section \<open>The manager\<close>

definition manager_start :: "nat \<Rightarrow> sessions \<Rightarrow> sessions" where
  "manager_start tid s =
     (case start_transaction (ss_catalog s) of
        (r, c) \<Rightarrow> s\<lparr>ss_live := AList.update tid (tx_state c, tx_entries c) (ss_live s)\<rparr>)"

text \<open>What an operation does that finds the transaction of its context by \<open>UCTransaction::Get\<close>.\<close>

definition in_transaction :: "nat \<Rightarrow> (uc_state, 'a) io \<Rightarrow> (sessions, 'a) io" where
  "in_transaction tid m = (\<lambda>s. case map_of (ss_live s) tid of
     None \<Rightarrow> (Inl (InternalException ''no such transaction''), s)
   | Some (state, entries) \<Rightarrow>
       (case m ((ss_catalog s)\<lparr>tx_state := state, tx_entries := entries\<rparr>) of
          (r, c) \<Rightarrow> (r, s\<lparr>ss_catalog := c, ss_live := AList.update tid (tx_state c, tx_entries c) (ss_live s)\<rparr>)))"

definition manager_commit :: "nat \<Rightarrow> (sessions, unit) io" where
  "manager_commit tid = bind (in_transaction tid tx_commit) (\<lambda>_. modify (ss_live_update (AList.delete tid)))"

definition manager_rollback :: "nat \<Rightarrow> (sessions, unit) io" where
  "manager_rollback tid = bind (in_transaction tid tx_rollback) (\<lambda>_. modify (ss_live_update (AList.delete tid)))"

section \<open>Steps\<close>

datatype session_label = Starts nat | Ends nat | Uses nat

inductive session_step ::
  "env \<Rightarrow> put_fun \<Rightarrow> path_ops \<Rightarrow> catalog_settings \<Rightarrow> string \<Rightarrow> session_label \<Rightarrow> sessions \<Rightarrow> sessions \<Rightarrow> bool"
  for env put po cat default_schema where
  start: "manager_start tid s = t \<Longrightarrow> session_step env put po cat default_schema (Starts tid) s t"
| commit: "manager_commit tid s = (u, t) \<Longrightarrow> session_step env put po cat default_schema (Ends tid) s t"
| rollback: "manager_rollback tid s = (u, t) \<Longrightarrow> session_step env put po cat default_schema (Ends tid) s t"
| schema_lookup: "in_transaction tid (lookup_schema env cat default_schema name return_null) s = (r, t)
    \<Longrightarrow> session_step env put po cat default_schema (Uses tid) s t"
| entry_lookup: "in_transaction tid (lookup_entry env cat sk schema type name at) s = (r', t)
    \<Longrightarrow> session_step env put po cat default_schema (Uses tid) s t"
| list_tables: "in_transaction tid (schema_scan env cat sk schema type) s = (r'', t)
    \<Longrightarrow> session_step env put po cat default_schema (Uses tid) s t"
| create: "in_transaction tid (schema_create_table env put po cat sk schema info) s = (u, t)
    \<Longrightarrow> session_step env put po cat default_schema (Uses tid) s t"
| scan: "in_transaction tid (on_schema sk (get_scan_function env cat schema k td at')) s = (f, t)
    \<Longrightarrow> session_step env put po cat default_schema (Uses tid) s t"
| insert: "in_transaction tid (plan_insert env cat sk schema k td) s = (u, t)
    \<Longrightarrow> session_step env put po cat default_schema (Uses tid) s t"
| checkpoint: "in_transaction tid (on_schema sk (checkpoint_table env cat schema name force)) s = (u, t)
    \<Longrightarrow> session_step env put po cat default_schema (Uses tid) s t"
| detach: "in_transaction tid (catalog_on_detach env cat) s = (u, t)
    \<Longrightarrow> session_step env put po cat default_schema (Uses tid) s t"
| clear: "in_transaction tid clear_cache s = (u, t) \<Longrightarrow> session_step env put po cat default_schema (Uses tid) s t"

inductive session_run ::
  "env \<Rightarrow> put_fun \<Rightarrow> path_ops \<Rightarrow> catalog_settings \<Rightarrow> string \<Rightarrow> session_label list \<Rightarrow> sessions \<Rightarrow> sessions \<Rightarrow> bool"
  for env put po cat default_schema where
  nothing: "session_run env put po cat default_schema [] s s"
| more: "session_step env put po cat default_schema l s t \<Longrightarrow> session_run env put po cat default_schema ls t u
    \<Longrightarrow> session_run env put po cat default_schema (l # ls) s u"

section \<open>A transaction keeps what it has bound\<close>

definition binds_kept :: "'x catalog_state_scheme \<Rightarrow> 'x catalog_state_scheme \<Rightarrow> bool" where
  "binds_kept s t \<longleftrightarrow> map_of (tx_entries s) \<subseteq>\<^sub>m map_of (tx_entries t)"

interpretation bk: catalog_effect binds_kept binds_kept
  by unfold_locales
    (auto simp: binds_kept_def map_le_def store_entry_def leave_schema_def enter_schema_def dom_def split: option.split)

lemma binds_kept_clear: "keeps binds_kept clear_cache"
  by (simp add: keeps_def clear_cache_def clear_schema_entries_def binds_kept_def)

text \<open>\<open>entries_of s tid\<close>: what the live transaction \<open>tid\<close> has bound.\<close>

definition entries_of :: "sessions \<Rightarrow> nat \<Rightarrow> (string \<rightharpoonup> table_entry) option" where
  "entries_of s tid = map_option (\<lambda>x. map_of (snd x)) (map_of (ss_live s) tid)"

lemma in_transaction_entries:
  assumes "in_transaction tid m s = (r, t)" and "keeps binds_kept m" and "entries_of s j = Some es"
  shows "\<exists>es'. entries_of t j = Some es' \<and> es \<subseteq>\<^sub>m es' \<and> (j \<noteq> tid \<longrightarrow> es' = es)"
proof (cases "map_of (ss_live s) tid")
  case None
  then show ?thesis using assms by (simp add: in_transaction_def)
next
  case (Some x)
  obtain state entries where x: "x = (state, entries)" by (cases x)
  let ?c = "(ss_catalog s)\<lparr>tx_state := state, tx_entries := entries\<rparr>"
  obtain q c where run: "m ?c = (q, c)" by (cases "m ?c")
  have t: "ss_live t = AList.update tid (tx_state c, tx_entries c) (ss_live s)"
    using assms(1) Some x run by (auto simp: in_transaction_def)
  have "binds_kept ?c c" by (rule bk.ctlg.keepsD[OF assms(2) run])
  then show ?thesis using assms(3) t Some x
    by (auto simp: entries_of_def update_conv' binds_kept_def)
qed

lemma session_step_entries:
  assumes "session_step env put po cat default_schema l s t" and "l \<noteq> Starts j" and "l \<noteq> Ends j"
    and "entries_of s j = Some es"
  shows "\<exists>es'. entries_of t j = Some es' \<and> es \<subseteq>\<^sub>m es' \<and> (l \<noteq> Uses j \<longrightarrow> es' = es)"
proof -
  have ended: "entries_of t j = Some es"
    if "bind (in_transaction tid m) (\<lambda>_. modify (ss_live_update (AList.delete tid))) s = (u, t)"
      and "keeps binds_kept m" and "j \<noteq> tid" for tid m u
  proof -
    obtain r s1 where r: "in_transaction tid m s = (r, s1)" by (cases "in_transaction tid m s")
    from in_transaction_entries[OF r that(2) assms(4)] have "entries_of s1 j = Some es" using that(3) by auto
    then show ?thesis using that(1,3) r by (cases r) (auto simp: bind_run entries_of_def delete_conv')
  qed
  have tx: "keeps binds_kept tx_commit" "keeps binds_kept tx_rollback"
    by (auto simp: keeps_def tx_commit_def tx_rollback_def binds_kept_def)
  show ?thesis using assms(1)
  proof cases
    case (start tid)
    then show ?thesis using assms(2,4)
      by (auto simp: manager_start_def entries_of_def update_conv' split: prod.splits)
  next
    case (commit tid u)
    then show ?thesis using ended[OF commit(2)[unfolded manager_commit_def] tx(1)] assms(3) by auto
  next
    case (rollback tid u)
    then show ?thesis using ended[OF rollback(2)[unfolded manager_rollback_def] tx(2)] assms(3) by auto
  next
    case (schema_lookup tid name return_null r)
    from in_transaction_entries[OF schema_lookup(2) bk.C_lookup_schema assms(4)] schema_lookup(1) show ?thesis by auto
  next
    case (entry_lookup tid sk schema type name at r')
    from in_transaction_entries[OF entry_lookup(2) bk.C_lookup_entry assms(4)] entry_lookup(1) show ?thesis by auto
  next
    case (list_tables tid sk schema type r'')
    from in_transaction_entries[OF list_tables(2) bk.C_schema_scan assms(4)] list_tables(1) show ?thesis by auto
  next
    case (create tid sk schema info u)
    from in_transaction_entries[OF create(2) bk.C_create_table assms(4)] create(1) show ?thesis by auto
  next
    case (scan tid sk schema k td at' f)
    from in_transaction_entries[OF scan(2) bk.C_get_scan_function assms(4)] scan(1) show ?thesis by auto
  next
    case (insert tid sk schema k td u)
    from in_transaction_entries[OF insert(2) bk.C_plan_insert assms(4)] insert(1) show ?thesis by auto
  next
    case (checkpoint tid sk schema name force u)
    from in_transaction_entries[OF checkpoint(2) bk.C_checkpoint assms(4)] checkpoint(1) show ?thesis by auto
  next
    case (detach tid u)
    from in_transaction_entries[OF detach(2) bk.C_detach assms(4)] detach(1) show ?thesis by auto
  next
    case (clear tid u)
    from in_transaction_entries[OF clear(2) binds_kept_clear assms(4)] clear(1) show ?thesis by auto
  qed
qed

lemma session_run_entries:
  assumes "session_run env put po cat default_schema ls s t"
    and "list_all (\<lambda>l. l \<noteq> Starts j \<and> l \<noteq> Ends j) ls" and "entries_of s j = Some es"
  shows "\<exists>es'. entries_of t j = Some es' \<and> es \<subseteq>\<^sub>m es' \<and> (Uses j \<notin> set ls \<longrightarrow> es' = es)"
  using assms
proof (induction arbitrary: es rule: session_run.induct)
  case (more l s t ls u)
  have l: "l \<noteq> Starts j" "l \<noteq> Ends j" and ls: "list_all (\<lambda>l. l \<noteq> Starts j \<and> l \<noteq> Ends j) ls"
    using more.prems(1) by simp_all
  from session_step_entries[OF more.hyps(1) l more.prems(2)] obtain es1 where
    one: "entries_of t j = Some es1" "es \<subseteq>\<^sub>m es1" "l \<noteq> Uses j \<longrightarrow> es1 = es" by blast
  from more.IH[OF ls one(1)] obtain es2 where
    two: "entries_of u j = Some es2" "es1 \<subseteq>\<^sub>m es2" "Uses j \<notin> set ls \<longrightarrow> es2 = es1" by blast
  have "es \<subseteq>\<^sub>m es2" using one(2) two(2) by (rule map_le_trans)
  then show ?case using one(3) two(1,3) by auto
qed simp

section \<open>Reading again\<close>

lemma in_schema_of_transaction:
  assumes "in_transaction tid (on_schema sk m) s = (Inr x, t)"
  shows "\<exists>s1 s2. m s1 = (Inr x, s2) \<and> entries_of s tid = Some (map_of (tx_entries s1)) \<and>
    entries_of t tid = Some (map_of (tx_entries s2))"
proof -
  obtain state entries where live: "map_of (ss_live s) tid = Some (state, entries)"
    using assms by (auto simp: in_transaction_def split: option.splits)
  let ?c = "(ss_catalog s)\<lparr>tx_state := state, tx_entries := entries\<rparr>"
  obtain r c where run: "on_schema sk m ?c = (r, c)" by (cases "on_schema sk m ?c")
  have r: "r = Inr x" and t: "ss_live t = AList.update tid (tx_state c, tx_entries c) (ss_live s)"
    using assms live run by (auto simp: in_transaction_def)
  then obtain si where si: "map_of (uc_schemas ?c) sk = Some si"
    using run by (auto simp: on_schema_def split: option.splits)
  obtain q s2 where m: "m (enter_schema si ?c) = (q, s2)" by (cases "m (enter_schema si ?c)")
  have "q = Inr x" "tx_entries c = tx_entries s2" using run r si m by (auto simp: on_schema_def leave_schema_def)
  then show ?thesis using m live t
    by (intro exI[of _ "enter_schema si ?c"] exI[of _ s2]) (simp add: entries_of_def enter_schema_def update_conv')
qed

section \<open>Property\<close>


text \<open>Two sessions: the first binds version 5 of a table, the second starts a transaction, lists and commits.\<close>

definition sessions_witness :: sessions where
  "sessions_witness = \<lparr>ss_catalog = uc_witness, ss_live = [(1, NOT_YET_STARTED, [])]\<rparr>"

lemma in_transaction_keeps_schema:
  "in_transaction tid (on_schema sk m) s = (r, t) \<Longrightarrow> map_of (uc_schemas (ss_catalog s)) j \<noteq> None
    \<Longrightarrow> map_of (uc_schemas (ss_catalog t)) j \<noteq> None"
  by (auto simp: in_transaction_def on_schema_def leave_schema_def update_conv' split: option.splits prod.splits if_splits)


end
