(* ===== verification/UC_Locks.thy ===== *)
theory UC_Locks
  imports UC_Prelude
begin

text \<open>
  The locks of the extension: which mutex an operation takes, inside which other, and what it touches
  meanwhile. Of every operation only that is kept, a program of lock and data accesses; what it computes is in
  the theory of its component. Any number of threads run such programs, and any of them may throw at any point, which
  releases what it holds, innermost first, as the destructors of the guards do.

  The properties: the locks are taken in one order everywhere, so the threads can always go on; and what a lock is there to
  guard is never touched by two threads at once. The tables of a set and the attached database of a table are
  not among that: \<open>tables_raced\<close> shows two threads at the same map.

  A lock of DuckDB, of delta or of the standard library is not a lock of this model, nor what the callback of a scan
  takes: that is DuckDB's.
\<close>

section \<open>Locks and what they guard\<close>

text \<open>A schema has its functions and its table set, a table set its tables; a transaction is known by a number.\<close>

datatype lock_name =
    SchemaSetLock | TransactionLock | FunctionLock string
  | LoadLock string | EntryLock string
  | ScanPlanLock | BindingsLock nat | AttachLock string string | CommitStateLock string string

datatype datum =
    Schemas | LiveTransactions | Functions string
  | LoadedFlag string | Tables string
  | Availability | Bindings nat | Database string string | CommitState string string

fun guard_of :: "datum \<Rightarrow> lock_name" where
  "guard_of Schemas = SchemaSetLock"
| "guard_of LiveTransactions = TransactionLock"
| "guard_of (Functions s) = FunctionLock s"
| "guard_of (LoadedFlag s) = LoadLock s"
| "guard_of (Tables s) = EntryLock s"
| "guard_of Availability = ScanPlanLock"
| "guard_of (Bindings tid) = BindingsLock tid"
| "guard_of (Database s k) = AttachLock s k"
| "guard_of (CommitState s k) = CommitStateLock s k"

datatype lock_action = Acquire lock_name | Release lock_name | Access datum

text \<open>A \<open>lock_guard\<close>, or \<open>with_locked\<close>, and the block it is for.\<close>

definition scope :: "lock_name \<Rightarrow> lock_action list \<Rightarrow> lock_action list" where
  "scope l body = Acquire l # body @ [Release l]"

section \<open>The operations\<close>

text \<open>\<open>EnsureLoaded\<close>: nothing to do, or a listing with a number of tables to enter.\<close>

definition ensure_loaded_locks :: "string \<Rightarrow> nat option \<Rightarrow> lock_action list" where
  "ensure_loaded_locks s listing = scope (LoadLock s) (Access (LoadedFlag s) # (case listing of
     None \<Rightarrow> []
   | Some n \<Rightarrow> concat (replicate n (scope (EntryLock s) [Access (Tables s)])) @ [Access (LoadedFlag s)]))"

text \<open>\<open>InternalAttach\<close>: the database is kept, attached, or attached with the commits of the catalog.\<close>

datatype attach_way = KeptAttached | AttachedPlain | AttachedManaged

definition attach_locks :: "string \<Rightarrow> string \<Rightarrow> attach_way \<Rightarrow> lock_action list" where
  "attach_locks s k way = scope (AttachLock s k) (Access (Database s k) #
     (if way = AttachedManaged
      then scope (CommitStateLock s k) [Access (CommitState s k)] @ scope (CommitStateLock s k) [Access (CommitState s k)]
      else []) @
     (if way = KeptAttached then [] else [Access (Database s k)]))"

definition detach_locks :: "string \<Rightarrow> string \<Rightarrow> lock_action list" where
  "detach_locks s k = scope (AttachLock s k) [Access (Database s k)]"

text \<open>\<open>InternalAttach\<close>, then \<open>GetInternalCatalog\<close> or the like, which reads the database without a lock.\<close>

definition attach_and_use :: "string \<Rightarrow> string \<Rightarrow> attach_way \<Rightarrow> lock_action list" where
  "attach_and_use s k way = attach_locks s k way @ [Access (Database s k)]"

definition gate_locks :: "lock_action list" where
  "gate_locks = scope ScanPlanLock [Access Availability]"

text \<open>\<open>UCTransaction::Get\<close>, which has DuckDB start a transaction on the catalog where there is none.\<close>

definition transaction_locks :: "lock_action list" where
  "transaction_locks = scope TransactionLock [Access LiveTransactions]"

definition bindings_locks :: "nat \<Rightarrow> lock_action list" where
  "bindings_locks tid = scope (BindingsLock tid) [Access (Bindings tid)]"

text \<open>\<open>GetVersion\<close>: the gate, if it is asked, and where the entry comes from.\<close>

datatype binding_way = FromReport | FromTransaction | FromLog bool attach_way bool

fun version_locks :: "string \<Rightarrow> string \<Rightarrow> nat \<Rightarrow> bool \<Rightarrow> binding_way \<Rightarrow> lock_action list" where
  "version_locks s k tid asks way = (if asks then gate_locks else []) @ (case way of
     FromReport \<Rightarrow> []
   | FromTransaction \<Rightarrow> bindings_locks tid
   | FromLog fresh a stored \<Rightarrow> (if fresh then transaction_locks else []) @ bindings_locks tid @
       attach_and_use s k a @ (if stored then bindings_locks tid else []))"

definition commit_locks :: "string \<Rightarrow> string \<Rightarrow> lock_action list" where
  "commit_locks s k = scope (CommitStateLock s k) [Access (CommitState s k)] @
     scope (AttachLock s k) [Access (Database s k)] @
     scope (CommitStateLock s k) [Access (CommitState s k)]"

text \<open>The operations DuckDB calls, with what the data decides.\<close>

datatype catalog_operation =
    StartOrEndTransaction
  | LookupSchema
  | LookupFunction string
  | LookupTable string "nat option" "(string \<times> nat \<times> bool \<times> binding_way) option"
  | ListTables string "nat option"
  | CreateTable string bool
  | ScanTable string string bool "attach_way option"
  | InitScan string string "attach_way option"
  | PlanInsert string string attach_way
  | CommitTable string string
  | CheckpointTable string string attach_way
  | CheckpointByName string "nat option" "(string \<times> attach_way) option"
  | ClearTables string
  | DetachCatalog "(string \<times> string list) list"
  | ClearCache "string list"

fun lock_program :: "catalog_operation \<Rightarrow> lock_action list" where
  "lock_program StartOrEndTransaction = transaction_locks"
| "lock_program LookupSchema = scope SchemaSetLock [Access Schemas]"
| "lock_program (LookupFunction s) = scope (FunctionLock s) [Access (Functions s)]"
| "lock_program (LookupTable s listing found) = ensure_loaded_locks s listing @
     scope (EntryLock s) (Access (Tables s) # (case found of
       None \<Rightarrow> [] | Some (k, tid, asks, way) \<Rightarrow> version_locks s k tid asks way))"
| "lock_program (ListTables s listing) = ensure_loaded_locks s listing @ scope (EntryLock s) [Access (Tables s)]"
| "lock_program (CreateTable s created) =
     (if created then scope (LoadLock s) [Access (LoadedFlag s)] else [])"
| "lock_program (ScanTable s k asks delta) = (if asks then gate_locks else []) @ (case delta of
     None \<Rightarrow> [] | Some way \<Rightarrow> attach_and_use s k way)"
| "lock_program (InitScan s k fallback) = gate_locks @ (case fallback of
     None \<Rightarrow> [] | Some way \<Rightarrow> attach_and_use s k way)"
| "lock_program (PlanInsert s k way) = attach_and_use s k way"
| "lock_program (CommitTable s k) = commit_locks s k"
| "lock_program (CheckpointTable s k way) = attach_and_use s k way"
| "lock_program (CheckpointByName s listing found) = ensure_loaded_locks s listing @ Access (Tables s) #
     (case found of None \<Rightarrow> [] | Some (k, way) \<Rightarrow> attach_and_use s k way)"
| "lock_program (ClearTables s) = scope (LoadLock s) (scope (EntryLock s) [Access (Tables s), Access (LoadedFlag s)])"
| "lock_program (DetachCatalog schemas) = scope SchemaSetLock (Access Schemas #
     concat (map (\<lambda>(s, ks). Access (Tables s) # concat (map (detach_locks s) ks)) schemas))"
| "lock_program (ClearCache ss) = scope SchemaSetLock (Access Schemas # map (\<lambda>s. Access (Tables s)) ss)"

section \<open>Threads\<close>

text \<open>A thread holds locks, the innermost first, and has a program left.\<close>

type_synonym lock_thread = "lock_name list \<times> lock_action list"

definition unheld :: "lock_name \<Rightarrow> lock_thread list \<Rightarrow> bool" where
  "unheld l ts \<longleftrightarrow> list_all (\<lambda>(held, todo). l \<notin> set held) ts"

definition run_thread :: "nat \<Rightarrow> lock_thread list \<Rightarrow> lock_thread list option" where
  "run_thread i ts =
     (if length ts \<le> i then None
      else case ts ! i of
        (held, []) \<Rightarrow> None
      | (held, Acquire l # todo) \<Rightarrow> if unheld l ts then Some (ts[i := (l # held, todo)]) else None
      | (held, Release l # todo) \<Rightarrow> Some (ts[i := (remove1 l held, todo)])
      | (held, Access d # todo) \<Rightarrow> Some (ts[i := (held, todo)]))"

inductive lock_step :: "lock_thread list \<Rightarrow> lock_thread list \<Rightarrow> bool" where
  goes: "run_thread i ts = Some us \<Longrightarrow> lock_step ts us"
| throws: "i < length ts \<Longrightarrow> lock_step ts (ts[i := (fst (ts ! i), map Release (fst (ts ! i)))])"

definition start_threads :: "catalog_operation list list \<Rightarrow> lock_thread list" where
  "start_threads opss = map (\<lambda>ops. ([], concat (map lock_program ops))) opss"

text \<open>A run in which nothing throws, by the threads that take its steps.\<close>

fun run_schedule :: "nat list \<Rightarrow> lock_thread list \<Rightarrow> lock_thread list option" where
  "run_schedule [] ts = Some ts"
| "run_schedule (i # sched) ts = (case run_thread i ts of None \<Rightarrow> None | Some us \<Rightarrow> run_schedule sched us)"

lemma run_schedule_steps: "run_schedule sched ts = Some us \<Longrightarrow> lock_step\<^sup>*\<^sup>* ts us"
proof (induction sched arbitrary: ts)
  case (Cons i sched)
  then obtain vs where "run_thread i ts = Some vs" "run_schedule sched vs = Some us" by (auto split: option.splits)
  then show ?case using Cons.IH lock_step.goes converse_rtranclp_into_rtranclp[of lock_step] by blast
qed simp

section \<open>One order for all locks\<close>

fun lock_rank :: "lock_name \<Rightarrow> nat" where
  "lock_rank SchemaSetLock = 0"
| "lock_rank (FunctionLock s) = 0"
| "lock_rank (LoadLock s) = 1"
| "lock_rank (EntryLock s) = 2"
| "lock_rank ScanPlanLock = 3"
| "lock_rank (BindingsLock tid) = 3"
| "lock_rank (AttachLock s k) = 3"
| "lock_rank (CommitStateLock s k) = 4"
| "lock_rank TransactionLock = 4"

text \<open>The order in which the locks are taken; locks of one rank are never held together.\<close>

instantiation lock_name :: preorder
begin

definition less_eq_lock_name :: "lock_name \<Rightarrow> lock_name \<Rightarrow> bool" where
  "less_eq_lock_name l m = (lock_rank l \<le> lock_rank m)"

definition less_lock_name :: "lock_name \<Rightarrow> lock_name \<Rightarrow> bool" where
  "less_lock_name l m = (lock_rank l < lock_rank m)"

instance by standard (auto simp: less_eq_lock_name_def less_lock_name_def)

end

lemmas lock_order [simp] = less_eq_lock_name_def less_lock_name_def

text \<open>What is only ever touched under its lock.\<close>

fun always_guarded :: "datum \<Rightarrow> bool" where
  "always_guarded (Tables s) = False"
| "always_guarded (Database s k) = False"
| "always_guarded d = True"

text \<open>\<open>orderly held todo\<close>: run from here, the program only takes locks above those it holds, releases the
  innermost first, touches what is guarded with the lock in hand, and holds none at its end.\<close>

fun orderly :: "lock_name list \<Rightarrow> lock_action list \<Rightarrow> bool" where
  "orderly held [] = (held = [])"
| "orderly held (Acquire l # todo) = (list_all (\<lambda>x. x < l) held \<and> orderly (l # held) todo)"
| "orderly held (Release l # todo) = (held \<noteq> [] \<and> hd held = l \<and> orderly (tl held) todo)"
| "orderly held (Access d # todo) = ((always_guarded d \<longrightarrow> guard_of d \<in> set held) \<and> orderly held todo)"

definition nests :: "lock_name list \<Rightarrow> lock_action list \<Rightarrow> bool" where
  "nests held p \<longleftrightarrow> (\<forall>rest. orderly held rest \<longrightarrow> orderly held (p @ rest))"

named_theorems nesting

lemma nests_Nil [nesting]: "nests held []"
  by (simp add: nests_def)

lemma nests_append [nesting]: "nests held p \<Longrightarrow> nests held q \<Longrightarrow> nests held (p @ q)"
  by (simp add: nests_def)

lemma nests_access [nesting]:
  "(always_guarded d \<Longrightarrow> guard_of d \<in> set held) \<Longrightarrow> nests held p \<Longrightarrow> nests held (Access d # p)"
  by (simp add: nests_def)

lemma nests_scope [nesting]:
  "list_all (\<lambda>x. x < l) held \<Longrightarrow> nests (l # held) body \<Longrightarrow> nests held (scope l body)"
  by (simp add: nests_def scope_def)

lemma nests_concat [nesting]: "(\<And>p. p \<in> set ps \<Longrightarrow> nests held p) \<Longrightarrow> nests held (concat ps)"
  by (induction ps) (auto intro: nesting)

lemma nests_orderly: "nests [] p \<Longrightarrow> orderly [] p"
  unfolding nests_def by (metis append_Nil2 orderly.simps(1))

section \<open>The operations are orderly\<close>

lemma nests_ensure_loaded [nesting]:
  "list_all (\<lambda>x. lock_rank x < 1) held \<Longrightarrow> nests held (ensure_loaded_locks s listing)"
  unfolding ensure_loaded_locks_def
  by (auto intro!: nesting simp: list_all_iff split: option.split)

lemma nests_attach [nesting]:
  "list_all (\<lambda>x. lock_rank x < 3) held \<Longrightarrow> nests held (attach_locks s k way)"
  unfolding attach_locks_def by (auto intro!: nesting simp: list_all_iff) (drule (1) bspec, linarith)+

lemma nests_use [nesting]:
  "list_all (\<lambda>x. lock_rank x < 3) held \<Longrightarrow> nests held (attach_and_use s k way)"
  unfolding attach_and_use_def by (auto intro!: nesting)

lemma nests_gate [nesting]: "list_all (\<lambda>x. lock_rank x < 3) held \<Longrightarrow> nests held gate_locks"
  unfolding gate_locks_def by (auto intro!: nesting)

lemma nests_transaction [nesting]: "list_all (\<lambda>x. lock_rank x < 4) held \<Longrightarrow> nests held transaction_locks"
  unfolding transaction_locks_def by (auto intro!: nesting)

lemma nests_bindings [nesting]: "list_all (\<lambda>x. lock_rank x < 3) held \<Longrightarrow> nests held (bindings_locks tid)"
  unfolding bindings_locks_def by (auto intro!: nesting)

lemma below_4: "list_all (\<lambda>x. lock_rank x < 3) held \<Longrightarrow> list_all (\<lambda>x. lock_rank x < 4) held"
  by (auto simp: list_all_iff)

lemma nests_version [nesting]:
  "list_all (\<lambda>x. lock_rank x < 3) held \<Longrightarrow> nests held (version_locks s k tid asks way)"
  by (auto intro!: nesting below_4 split: binding_way.split)

lemma nests_detach [nesting]: "list_all (\<lambda>x. lock_rank x < 3) held \<Longrightarrow> nests held (detach_locks s k)"
  unfolding detach_locks_def by (auto intro!: nesting)

lemma nests_commit [nesting]: "nests [] (commit_locks s k)"
  unfolding commit_locks_def by (auto intro!: nesting)

lemma program_nests: "nests [] (lock_program op)"
proof (cases op)
  case (DetachCatalog schemas)
  then show ?thesis by (auto intro!: nesting)
next
  case (ClearCache ss)
  have "nests [SchemaSetLock] (map (\<lambda>s. Access (Tables s)) ss)" by (induction ss) (auto intro: nesting)
  then show ?thesis using ClearCache by (auto intro!: nesting)
qed (auto intro!: nesting simp del: version_locks.simps split: option.split)

section \<open>What every run keeps\<close>

definition locks_inv :: "lock_thread list \<Rightarrow> bool" where
  "locks_inv ts \<longleftrightarrow> list_all (\<lambda>(held, todo). orderly held todo) ts \<and>
     (\<forall>i < length ts. \<forall>j < length ts. i \<noteq> j \<longrightarrow> set (fst (ts ! i)) \<inter> set (fst (ts ! j)) = {})"

lemma thread_orderly: "locks_inv ts \<Longrightarrow> i < length ts \<Longrightarrow> ts ! i = (held, todo) \<Longrightarrow> orderly held todo"
  unfolding locks_inv_def list_all_iff by (metis case_prodD nth_mem)

lemma orderly_unwind: "orderly held (map Release held)"
  by (induction held) auto

lemma locks_inv_update:
  assumes "locks_inv ts" and "i < length ts" and "orderly held todo"
    and "\<And>l. l \<in> set held \<Longrightarrow> l \<in> set (fst (ts ! i)) \<or> unheld l ts"
  shows "locks_inv (ts[i := (held, todo)])"
proof -
  have "list_all (\<lambda>(held, todo). orderly held todo) (ts[i := (held, todo)])"
    using assms(1-3) set_update_subset_insert[of ts i "(held, todo)"] unfolding locks_inv_def list_all_iff by blast
  moreover have "set held \<inter> set (fst (ts ! j)) = {}" if "j < length ts" "j \<noteq> i" for j
  proof -
    have "l \<notin> set (fst (ts ! j))" if "l \<in> set held" for l
      using assms(4)[OF that]
    proof
      assume "l \<in> set (fst (ts ! i))"
      then show ?thesis using assms(1,2) \<open>j < length ts\<close> \<open>j \<noteq> i\<close> unfolding locks_inv_def by blast
    next
      assume "unheld l ts"
      then show ?thesis using \<open>j < length ts\<close> nth_mem[of j ts] unfolding unheld_def list_all_iff by fastforce
    qed
    then show ?thesis by blast
  qed
  ultimately show ?thesis using assms(1,2) unfolding locks_inv_def
    by (auto simp: nth_list_update)
qed

lemma lock_step_inv:
  assumes "lock_step ts us" and "locks_inv ts"
  shows "locks_inv us"
  using assms(1)
proof cases
  case (goes i)
  then have i: "i < length ts" by (auto simp: run_thread_def split: if_splits)
  obtain held todo where th: "ts ! i = (held, todo)" by (cases "ts ! i")
  have "orderly held todo" by (rule thread_orderly[OF assms(2) i th])
  moreover obtain a rest where "todo = a # rest" using goes th by (cases todo) (auto simp: run_thread_def split: if_splits)
  ultimately show ?thesis using goes i th
    by (cases a) (auto simp: run_thread_def neq_Nil_conv split: if_splits intro!: locks_inv_update[OF assms(2) i])
next
  case (throws i)
  then show ?thesis by (auto intro!: locks_inv_update[OF assms(2)] orderly_unwind)
qed

lemma start_inv: "locks_inv (start_threads opss)"
proof -
  have "orderly [] (concat (map lock_program ops))" for ops
    by (intro nests_orderly nests_concat) (auto simp: program_nests)
  then show ?thesis by (simp add: locks_inv_def start_threads_def list_all_iff)
qed

lemma locks_run_inv: "lock_step\<^sup>*\<^sup>* (start_threads opss) ts \<Longrightarrow> locks_inv ts"
  by (induction rule: rtranclp_induct) (auto intro: start_inv lock_step_inv)

section \<open>Going on\<close>

definition finished :: "lock_thread list \<Rightarrow> bool" where
  "finished ts \<longleftrightarrow> list_all (\<lambda>(held, todo). held = [] \<and> todo = []) ts"

definition work_left :: "lock_thread list \<Rightarrow> nat" where
  "work_left ts = sum_list (map (\<lambda>(held, todo). length todo) ts)"

lemma work_left_update:
  "i < length ts \<Longrightarrow> length todo < length (snd (ts ! i)) \<Longrightarrow> work_left (ts[i := (held, todo)]) < work_left ts"
proof (induction ts arbitrary: i)
  case (Cons x ts)
  then show ?case by (cases i) (auto simp: work_left_def split: prod.splits)
qed simp

lemma run_thread_work:
  assumes "run_thread i ts = Some us"
  shows "work_left us < work_left ts"
proof -
  have i: "i < length ts" using assms by (auto simp: run_thread_def split: if_splits)
  obtain held a rest where th: "ts ! i = (held, a # rest)"
    using assms by (auto simp: run_thread_def split: if_splits prod.splits list.splits)
  then have "\<exists>held'. us = ts[i := (held', rest)]"
    using assms by (cases a) (auto simp: run_thread_def split: if_splits)
  then show ?thesis using work_left_update[OF i] th by auto
qed

text \<open>A thread that cannot run waits for a lock of a thread that can, or that waits for a higher lock.\<close>

lemma waiting_thread:
  assumes "locks_inv ts" and "i < length ts" and "ts ! i = (held, Acquire l # todo)" and "run_thread i ts = None"
  shows "\<exists>j < length ts. run_thread j ts \<noteq> None \<or>
    (\<exists>held' l' todo'. ts ! j = (held', Acquire l' # todo') \<and> l < l')"
proof -
  have "\<not> unheld l ts" using assms(2-4) by (auto simp: run_thread_def split: if_splits)
  then obtain held' p where "(held', p) \<in> set ts" and has: "l \<in> set held'"
    by (auto simp: unheld_def list_all_iff)
  then obtain j where j: "j < length ts" and th: "ts ! j = (held', p)" by (metis in_set_conv_nth)
  have ord: "orderly held' p" by (rule thread_orderly[OF assms(1) j th])
  then obtain a rest where p: "p = a # rest" using has by (cases p) auto
  show ?thesis
  proof (cases a)
    case (Acquire l')
    then have "l < l'" using ord has p by (auto simp: list_all_iff)
    then show ?thesis using j th p Acquire by blast
  next
    case (Release l')
    then show ?thesis using j th p by (intro exI[of _ j]) (simp add: run_thread_def)
  next
    case (Access d)
    then show ?thesis using j th p by (intro exI[of _ j]) (simp add: run_thread_def)
  qed
qed

lemma lock_rank_le: "lock_rank l \<le> 4"
  by (cases l) auto

lemma someone_runs:
  assumes "locks_inv ts" and "i < length ts" and "ts ! i = (held, Acquire l # todo)"
  shows "\<exists>j. run_thread j ts \<noteq> None"
  using assms(2,3)
proof (induction "4 - lock_rank l" arbitrary: i held l todo rule: less_induct)
  case less
  show ?case
  proof (cases "run_thread i ts")
    case None
    from waiting_thread[OF assms(1) less.prems None] show ?thesis
    proof (elim exE conjE disjE)
      fix j held' l' todo'
      assume j: "j < length ts" "ts ! j = (held', Acquire l' # todo')" "l < l'"
      then have "4 - lock_rank l' < 4 - lock_rank l" using lock_rank_le[of l'] by simp
      then show ?thesis using less.hyps j(1,2) by blast
    qed blast
  qed blast
qed

lemma not_finished_runs:
  assumes "locks_inv ts" and "\<not> finished ts"
  shows "\<exists>i. run_thread i ts \<noteq> None"
proof -
  obtain held p where "(held, p) \<in> set ts" and left: "held \<noteq> [] \<or> p \<noteq> []"
    using assms(2) by (auto simp: finished_def list_all_iff)
  then obtain i where i: "i < length ts" "ts ! i = (held, p)" by (metis in_set_conv_nth)
  have "orderly held p" by (rule thread_orderly[OF assms(1) i])
  then obtain a rest where p: "p = a # rest" using left by (cases p) auto
  show ?thesis
  proof (cases a)
    case (Acquire l)
    then show ?thesis using someone_runs[OF assms(1) i(1)] i(2) p by blast
  qed (use i p in \<open>auto simp: run_thread_def intro!: exI[of _ i]\<close>)
qed

text \<open>A thread whose next step touches this datum.\<close>

fun about_to_touch :: "datum \<Rightarrow> lock_thread \<Rightarrow> bool" where
  "about_to_touch d (held, []) = False"
| "about_to_touch d (held, a # todo) = (a = Access d)"

lemma at_most_one:
  assumes "\<And>i j. i < length xs \<Longrightarrow> j < length xs \<Longrightarrow> P (xs ! i) \<Longrightarrow> P (xs ! j) \<Longrightarrow> i = j"
  shows "length (filter P xs) \<le> 1"
proof -
  have "card {i. i < length xs \<and> P (xs ! i)} \<le> 1"
    by (rule card_le_Suc0_iff_eq[THEN iffD2, folded One_nat_def]) (auto intro: assms)
  then show ?thesis by (simp add: length_filter_conv_card)
qed

section \<open>Properties\<close>

text \<open>
  C13: The threads of a catalog never block each other for good. Whatever operations they run, however they are
  interleaved and whichever of them threw, some thread can take its next step unless all are done, and every step leaves
  less to do: no lock is waited for in a circle, none is left held, and every run comes to its end.
\<close>

theorem threads_never_deadlock:
  assumes "lock_step\<^sup>*\<^sup>* (start_threads opss) ts"
  shows "(finished ts = list_all (\<lambda>i. run_thread i ts = None) [0..<length ts]) \<and>
    (case run_thread i ts of None \<Rightarrow> True | Some us \<Rightarrow> work_left us < work_left ts)"
proof
  have inv: "locks_inv ts" by (rule locks_run_inv[OF assms])
  show "finished ts = list_all (\<lambda>i. run_thread i ts = None) [0..<length ts]"
  proof
    assume done_all: "finished ts"
    have "run_thread i ts = None" if "i < length ts" for i
      using done_all nth_mem[OF that] by (cases "ts ! i") (auto simp: finished_def list_all_iff run_thread_def)
    then show "list_all (\<lambda>i. run_thread i ts = None) [0..<length ts]" by (simp add: list_all_iff)
  next
    assume stuck: "list_all (\<lambda>i. run_thread i ts = None) [0..<length ts]"
    have "run_thread i ts = None" for i
      using stuck by (cases "i < length ts") (auto simp: list_all_iff run_thread_def)
    then show "finished ts" using not_finished_runs[OF inv] by auto
  qed
  show "case run_thread i ts of None \<Rightarrow> True | Some us \<Rightarrow> work_left us < work_left ts"
    by (auto simp: run_thread_work split: option.split)
qed

text \<open>A detach of the catalog reaches a table whose attach another thread is in, and waits for it.\<close>

definition two_threads :: "lock_thread list" where
  "two_threads = start_threads [[DetachCatalog [(''s'', [''t''])]], [PlanInsert ''s'' ''t'' AttachedManaged]]"

lemma threads_never_deadlock_witness:
  "\<exists>ts us. run_schedule [0, 1, 0, 0] two_threads = Some ts \<and> run_thread 0 ts = None \<and> run_thread 1 ts = Some us \<and>
     \<not> finished ts \<and> work_left us < work_left ts"
proof -
  have "case run_schedule [0, 1, 0, 0] two_threads of None \<Rightarrow> False | Some ts \<Rightarrow>
      run_thread 0 ts = None \<and> run_thread 1 ts \<noteq> None \<and> length ts = 2" by code_simp
  then obtain ts us where ts: "run_schedule [0, 1, 0, 0] two_threads = Some ts" "run_thread 0 ts = None"
    and us: "run_thread 1 ts = Some us" "length ts = 2" by (auto split: option.splits)
  have "lock_step\<^sup>*\<^sup>* (start_threads [[DetachCatalog [(''s'', [''t''])]], [PlanInsert ''s'' ''t'' AttachedManaged]]) ts"
    using run_schedule_steps[OF ts(1)] by (simp add: two_threads_def)
  from threads_never_deadlock[OF this, of 1] us have "work_left us < work_left ts" "\<not> finished ts"
    by (auto simp: list_all_iff)
  then show ?thesis using ts us(1) by blast
qed



text \<open>The map of tables is no such datum: a checkpoint by name looks into it while a listing enters tables.\<close>

lemma tables_raced:
  "case run_schedule [0, 0, 0, 1, 1, 1] (start_threads
       [[CheckpointByName ''s'' None None], [LookupTable ''s'' (Some 1) None]]) of
     None \<Rightarrow> False
   | Some ts \<Rightarrow> map (hd \<circ> snd) ts = [Access (Tables ''s''), Access (Tables ''s'')]"
  by code_simp

end
