(* ===== verification/UC_Gate.thy ===== *)
theory UC_Gate
  imports UC_Catalog
begin

text \<open>
  The scan-plan gate over the life of a catalog: queries ask it (\<open>ShouldTryScanPlan\<close>), plans that succeed or fail
  mark it, in any order and with any calls between. The state machine of \<open>src/storage/unity_catalog.cpp\<close>, which
  forgets a failure when a query probes again, is shown to answer like a reference that only knows the last mark.
\<close>

section \<open>Running the gate\<close>

datatype gate_event = Ask | PlanSucceeded | PlanFailed | Elsewhere uc_call

fun gate_step :: "env \<Rightarrow> credentials \<Rightarrow> gate_event \<Rightarrow> ('x catalog_state_scheme, bool option) io" where
  "gate_step env creds Ask = bind (should_try_scan_plan env creds) (\<lambda>b. ret (Some b))"
| "gate_step env creds PlanSucceeded = bind mark_scan_plan_available (\<lambda>_. ret None)"
| "gate_step env creds PlanFailed = bind (mark_scan_plan_unavailable env) (\<lambda>_. ret None)"
| "gate_step env creds (Elsewhere c) = bind (call (\<lambda>_. Inr ()) c) (\<lambda>_. ret None)"

text \<open>What the clock says if it is read now.\<close>

definition time_at :: "env \<Rightarrow> 'x world_scheme \<Rightarrow> int" where
  "time_at env s = e_now env (hist s @ [Now])"

text \<open>The events with their times, and the answers.\<close>

fun gate_run ::
  "env \<Rightarrow> credentials \<Rightarrow> gate_event list \<Rightarrow> 'x catalog_state_scheme \<Rightarrow> (gate_event \<times> int) list \<times> bool list" where
  "gate_run env creds [] s = ([], [])"
| "gate_run env creds (ev # evs) s =
     (case gate_step env creds ev s of (r, t) \<Rightarrow>
      case gate_run env creds evs t of (timeline, answers) \<Rightarrow>
        ((ev, time_at env s) # timeline, (case r of Inr (Some b) \<Rightarrow> [b] | _ \<Rightarrow> []) @ answers))"

section \<open>The reference\<close>

text \<open>The gate is shut for the window after the last plan if that failed, and open otherwise.\<close>

fun gate_reference :: "bool \<Rightarrow> int option \<Rightarrow> (gate_event \<times> int) list \<Rightarrow> bool list" where
  "gate_reference opted failed [] = []"
| "gate_reference opted failed ((Ask, t) # evs) =
     (opted \<and> (case failed of None \<Rightarrow> True | Some u \<Rightarrow> scan_plan_re_probe \<le> t - u)) # gate_reference opted failed evs"
| "gate_reference opted failed ((PlanSucceeded, t) # evs) = gate_reference opted None evs"
| "gate_reference opted failed ((PlanFailed, t) # evs) = gate_reference opted (Some t) evs"
| "gate_reference opted failed ((Elsewhere c, t) # evs) = gate_reference opted failed evs"

definition steady :: "env \<Rightarrow> bool" where
  "steady env \<longleftrightarrow> (\<forall>h c. e_now env (h @ [Now]) \<le> e_now env (h @ [c, Now]))"

text \<open>What the state of the gate remembers of the last failure: its time, or that its window was over once.\<close>

definition remembers :: "env \<Rightarrow> 'x catalog_state_scheme \<Rightarrow> int option \<Rightarrow> bool" where
  "remembers env s failed \<longleftrightarrow>
     (if sp_availability s = UNAVAILABLE then failed = Some (sp_unavailable_since s)
      else case failed of None \<Rightarrow> True | Some u \<Rightarrow> scan_plan_re_probe \<le> time_at env s - u)"

lemma remembers_later:
  assumes "steady env" and "remembers env s failed"
  shows "remembers env (s\<lparr>hist := hist s @ [c]\<rparr>) failed"
proof -
  have "time_at env s \<le> time_at env (s\<lparr>hist := hist s @ [c]\<rparr>)"
    using assms(1) by (simp add: steady_def time_at_def)
  then show ?thesis using assms(2) by (auto simp: remembers_def split: option.splits if_splits)
qed

lemma gate_run_reference:
  assumes "steady env" and "remembers env s failed"
  shows "snd (gate_run env creds evs s) = gate_reference (use_irc_scan_plan creds) failed (fst (gate_run env creds evs s))"
  using assms(2)
proof (induction evs arbitrary: s failed)
  case (Cons ev evs)
  note later = remembers_later[OF assms(1) Cons.prems]
  show ?case
  proof (cases ev)
    case Ask
    have t: "e_now env (hist s @ [Now]) = time_at env s" by (simp add: time_at_def)
    show ?thesis
    proof (cases "use_irc_scan_plan creds \<and> sp_availability s = UNAVAILABLE")
      case False
      then show ?thesis using Ask Cons.IH[OF Cons.prems] Cons.prems
        by (auto simp: should_try_scan_plan_def bind_run remembers_def split: prod.splits option.splits)
    next
      case True
      then have failed: "failed = Some (sp_unavailable_since s)" using Cons.prems by (simp add: remembers_def)
      show ?thesis
      proof (cases "time_at env s - sp_unavailable_since s < scan_plan_re_probe")
        case True
        then show ?thesis using Ask Cons.IH[OF later[of Now]] failed \<open>use_irc_scan_plan creds \<and> _\<close>
          by (auto simp: should_try_scan_plan_def now_def bind_run t split: prod.splits)
      next
        case False
        have "time_at env s \<le> time_at env (s\<lparr>hist := hist s @ [Now]\<rparr>)"
          using assms(1) by (simp add: steady_def time_at_def)
        then have "remembers env (s\<lparr>hist := hist s @ [Now], sp_availability := UNKNOWN_PLAN\<rparr>) failed"
          using False failed by (simp add: remembers_def time_at_def)
        from Cons.IH[OF this] show ?thesis using Ask failed False \<open>use_irc_scan_plan creds \<and> _\<close>
          by (auto simp: should_try_scan_plan_def now_def bind_run t split: prod.splits)
      qed
    qed
  next
    case PlanSucceeded
    then show ?thesis using Cons.IH[of "s\<lparr>sp_availability := AVAILABLE\<rparr>" None]
      by (auto simp: mark_scan_plan_available_def bind_run remembers_def split: prod.splits)
  next
    case PlanFailed
    have "remembers env (snd (mark_scan_plan_unavailable env s)) (Some (time_at env s))"
      by (simp add: mark_scan_plan_unavailable_def now_def bind_run remembers_def time_at_def)
    from Cons.IH[OF this] PlanFailed show ?thesis
      by (auto simp: bind_run mark_scan_plan_unavailable_def now_def split: prod.splits)
  next
    case (Elsewhere c)
    then show ?thesis using Cons.IH[OF later[of c]] by (auto simp: bind_run split: prod.splits)
  qed
qed simp

section \<open>Property\<close>

text \<open>
  C20: The gate answers by the last mark. Under a clock that does not go back, and whatever calls, questions and plans
  come in whatever order, a query that asks is let through exactly if the user opted in and no
  plan failed since the last one that succeeded, or the last failure is the re-probe window ago.
\<close>

theorem gate_answers_by_last_mark:
  assumes "steady env" and "sp_availability s = UNKNOWN_PLAN"
  shows "snd (gate_run env creds evs s) = gate_reference (use_irc_scan_plan creds) None (fst (gate_run env creds evs s))"
  by (rule gate_run_reference[OF assms(1)]) (use assms(2) in \<open>simp add: remembers_def\<close>)

text \<open>A clock of one minute per call: a failure shuts the gate until it is a quarter of an hour old.\<close>

definition env_minutes :: env where
  "env_minutes = env_witness\<lparr>e_now := (\<lambda>h. int (length h) * 60000)\<rparr>"

definition gate_witness :: catalog_state where
  "gate_witness = \<lparr>hist = [], sp_availability = UNKNOWN_PLAN, sp_unavailable_since = 0,
     tx_state = NOT_YET_STARTED, tx_entries = []\<rparr>"

definition opted_in :: credentials where
  "opted_in = (cat_credentials settings_witness)\<lparr>use_irc_scan_plan := True\<rparr>"

definition gate_events :: "gate_event list" where
  "gate_events = [Ask, PlanFailed, Ask] @ replicate 13 (Elsewhere InterruptCheck) @ [Ask]"

lemma gate_answers_by_last_mark_witness:
  "snd (gate_run env_minutes opted_in gate_events gate_witness) = [True, False, True]"
proof -
  have "steady env_minutes" by (simp add: steady_def env_minutes_def)
  moreover have "sp_availability gate_witness = UNKNOWN_PLAN" by (simp add: gate_witness_def)
  moreover have "gate_reference (use_irc_scan_plan opted_in) None (fst (gate_run env_minutes opted_in gate_events gate_witness))
      = [True, False, True]" by code_simp
  ultimately show ?thesis using gate_answers_by_last_mark by metis
qed

end
