(* ===== verification/UC_Table_Entry.thy ===== *)
theory UC_Table_Entry
  imports UC_Scan
begin

text \<open>
  What a table and its planned scan answer to DuckDB (\<open>src/storage/uc_table_entry.cpp\<close>): the table function with its
  callbacks, its virtual columns, the bind data that is copied with a plan, and the global state that holds the inner
  scan, parquet or Delta, to which starting a thread, fetching a chunk and asking for progress are passed on. The lemmas:
  a copy of the bind data is the same scan, and a scan through the wrapper is the inner scan, whichever threads
  start and fetch in whatever order.
\<close>

section \<open>The table function\<close>

text \<open>The columns DuckDB knows by a constant of its own, and the callbacks a table function may have.\<close>

datatype virtual_column = ColumnFilename | ColumnFileIndex | ColumnEmpty | ColumnRowId

datatype callback =
    CbBind | CbInitGlobal | CbInitLocal | CbFunction | CbCardinality | CbVirtualColumns | CbPushdownComplexFilter | CbProgress

record table_function =
  fn_name :: string
  fn_arguments :: "logical_type list"
  fn_callbacks :: "callback list"
  fn_filter_pushdown :: bool
  fn_projection_pushdown :: bool

definition scan_plan_virtual_columns :: "(virtual_column \<times> string \<times> logical_type) list" where
  "scan_plan_virtual_columns =
     [(ColumnFilename, ''filename'', VARCHAR), (ColumnFileIndex, ''file_index'', UBIGINT), (ColumnEmpty, [], BOOLEAN)]"

definition make_uc_scan_plan_table_function :: table_function where
  "make_uc_scan_plan_table_function =
     \<lparr>fn_name = ''uc_scan_plan'', fn_arguments = [],
      fn_callbacks = [CbPushdownComplexFilter, CbInitGlobal, CbInitLocal, CbFunction, CbVirtualColumns, CbProgress],
      fn_filter_pushdown = True, fn_projection_pushdown = True\<rparr>"

text \<open>The entry itself: no statistics, no storage info yet, and the virtual and row id columns of any table.\<close>

definition get_statistics :: "nat \<Rightarrow> 'stats option" where
  "get_statistics column_id = None"

definition get_storage_info :: "'info \<Rightarrow> 'info" where
  "get_storage_info empty_info = empty_info"

definition get_virtual_columns :: "'columns \<Rightarrow> 'columns" where
  "get_virtual_columns of_any_table = of_any_table"

definition get_row_id_columns :: "'columns \<Rightarrow> 'columns" where
  "get_row_id_columns of_any_table = of_any_table"

definition get_columns :: "table_entry \<Rightarrow> (string \<times> logical_type) list" where
  "get_columns entry = en_columns entry"

text \<open>\<open>DescribeColumns\<close>, for the warning that report and log differ.\<close>

definition describe_column :: "(logical_type \<Rightarrow> string) \<Rightarrow> string \<times> logical_type \<Rightarrow> string" where
  "describe_column to_string col = fst col @ '' '' @ to_string (snd col)"

fun describe_rest :: "(logical_type \<Rightarrow> string) \<Rightarrow> string \<Rightarrow> (string \<times> logical_type) list \<Rightarrow> string" where
  "describe_rest to_string result [] = result"
| "describe_rest to_string result (col # cols) =
     describe_rest to_string ((if result \<noteq> [] then result @ '', '' else result) @ describe_column to_string col) cols"

definition describe_columns :: "(logical_type \<Rightarrow> string) \<Rightarrow> table_entry \<Rightarrow> string" where
  "describe_columns to_string entry = describe_rest to_string [] (get_columns entry)"

lemma join_merge: "join sep ((x @ sep @ y) # zs) = join sep (x # y # zs)"
  by (cases zs) simp_all

lemma describe_rest_join:
  "describe_rest to_string result cols =
     join '', '' ((if result = [] then [] else [result]) @ map (describe_column to_string) cols)"
proof (induction cols arbitrary: result)
  case (Cons col cols)
  let ?c = "describe_column to_string col"
  have "?c \<noteq> []" by (simp add: describe_column_def)
  then show ?case using Cons[of ?c] Cons[of "result @ '', '' @ ?c"] join_merge[of "'', ''" result ?c]
    by (cases "result = []") (simp_all del: join.simps)
qed simp

lemma describe_columns_join:
  "describe_columns to_string entry = join '', '' (map (describe_column to_string) (en_columns entry))"
  by (simp add: describe_columns_def get_columns_def describe_rest_join)

section \<open>The bind data\<close>

definition empty_bind_data :: "credentials \<Rightarrow> scan_bind_data" where
  "empty_bind_data cr =
     \<lparr>bd_catalog_name = [], bd_schema_name = [], bd_table_name = [], bd_storage_location = [], bd_credentials = cr,
      bd_scan_plan_endpoint = [], bd_has_catalog = False, bd_table = None, bd_lookup = None, bd_filter_json = []\<rparr>"

text \<open>\<open>Copy\<close>, field by field.\<close>

definition copy_bind_data :: "credentials \<Rightarrow> scan_bind_data \<Rightarrow> scan_bind_data" where
  "copy_bind_data cr bd =
     (let result = (empty_bind_data cr)\<lparr>bd_catalog_name := bd_catalog_name bd, bd_schema_name := bd_schema_name bd,
        bd_table_name := bd_table_name bd, bd_storage_location := bd_storage_location bd,
        bd_credentials := bd_credentials bd, bd_scan_plan_endpoint := bd_scan_plan_endpoint bd,
        bd_has_catalog := bd_has_catalog bd, bd_table := bd_table bd\<rparr>;
      result' = (case bd_lookup bd of None \<Rightarrow> result | Some at \<Rightarrow> result\<lparr>bd_lookup := Some at\<rparr>)
      in result'\<lparr>bd_filter_json := bd_filter_json bd\<rparr>)"

definition bind_data_equals :: "scan_bind_data \<Rightarrow> scan_bind_data \<Rightarrow> bool" where
  "bind_data_equals bd other = False"

lemma copy_bind_data_same: "copy_bind_data cr bd = bd"
  by (cases "bd_lookup bd") (simp_all add: copy_bind_data_def empty_bind_data_def)

text \<open>No plan is shared between two scans, not even between a scan and its copy.\<close>

lemma copy_not_equal: "\<not> bind_data_equals bd (copy_bind_data cr bd)"
  by (simp add: bind_data_equals_def)

section \<open>The inner scan\<close>

text \<open>
  An inner table function acts on a world of its own type; its states are handles, which may be null. An init input names
  the bind data, columns, projection and filters.
\<close>

record ('b, 'f) init_input =
  ii_bind_data :: 'b
  ii_column_ids :: "u64 list"
  ii_projection_ids :: "u64 list"
  ii_filters :: 'f

record ('w, 'b, 'f, 'g, 'l, 'c) inner_function =
  if_virtual_columns :: "('b \<Rightarrow> ('w, unit) io) option"
  if_init_global :: "('b, 'f) init_input \<Rightarrow> ('w, 'g option) io"
  if_init_local :: "('b, 'f) init_input \<Rightarrow> 'g option \<Rightarrow> ('w, 'l) io"
  if_function :: "'b \<Rightarrow> 'l \<Rightarrow> 'g option \<Rightarrow> ('w, 'c) io"
  if_progress :: "('b \<Rightarrow> 'g option \<Rightarrow> ('w, int) io) option"

record ('w, 'b, 'f, 'g, 'l, 'c) scan_plan_global_state =
  gs_inner_bind_data :: 'b
  gs_inner_global :: "'g option"
  gs_inner_init_local :: "('b, 'f) init_input \<Rightarrow> 'g option \<Rightarrow> ('w, 'l) io"
  gs_inner_scan :: "'b \<Rightarrow> 'l \<Rightarrow> 'g option \<Rightarrow> ('w, 'c) io"
  gs_inner_progress :: "('b \<Rightarrow> 'g option \<Rightarrow> ('w, int) io) option"

definition max_threads :: "('g \<Rightarrow> nat) \<Rightarrow> ('w, 'b, 'f, 'g, 'l, 'c) scan_plan_global_state \<Rightarrow> nat" where
  "max_threads inner_max gs = (case gs_inner_global gs of None \<Rightarrow> 1 | Some g \<Rightarrow> inner_max g)"

definition inner_input :: "'b \<Rightarrow> ('a, 'f) init_input \<Rightarrow> ('b, 'f) init_input" where
  "inner_input b input = \<lparr>ii_bind_data = b, ii_column_ids = ii_column_ids input,
     ii_projection_ids = ii_projection_ids input, ii_filters = ii_filters input\<rparr>"

definition adopt_inner ::
  "'b \<Rightarrow> ('w, 'b, 'f, 'g, 'l, 'c) inner_function \<Rightarrow> ('a, 'f) init_input \<Rightarrow>
     ('w, ('w, 'b, 'f, 'g, 'l, 'c) scan_plan_global_state) io" where
  "adopt_inner b fn input =
     bind (case if_virtual_columns fn of None \<Rightarrow> ret () | Some vc \<Rightarrow> vc b) (\<lambda>_.
     bind (if_init_global fn (inner_input b input)) (\<lambda>g.
     ret \<lparr>gs_inner_bind_data = b, gs_inner_global = g, gs_inner_init_local = if_init_local fn,
          gs_inner_scan = if_function fn, gs_inner_progress = if_progress fn\<rparr>))"

definition scan_plan_init_local ::
  "('w, 'b, 'f, 'g, 'l, 'c) scan_plan_global_state \<Rightarrow> ('a, 'f) init_input \<Rightarrow> ('w, 'l) io" where
  "scan_plan_init_local gs input =
     gs_inner_init_local gs (inner_input (gs_inner_bind_data gs) input) (gs_inner_global gs)"

definition scan_plan_scan :: "('w, 'b, 'f, 'g, 'l, 'c) scan_plan_global_state \<Rightarrow> 'l \<Rightarrow> ('w, 'c) io" where
  "scan_plan_scan gs l = gs_inner_scan gs (gs_inner_bind_data gs) l (gs_inner_global gs)"

definition progress_of :: "('w, 'b, 'f, 'g, 'l, 'c) scan_plan_global_state option \<Rightarrow> ('w, int) io" where
  "progress_of global_state =
     (case global_state of
        None \<Rightarrow> ret (-1)
      | Some gs \<Rightarrow> (case gs_inner_progress gs of
          None \<Rightarrow> ret (-1)
        | Some p \<Rightarrow> p (gs_inner_bind_data gs) (gs_inner_global gs)))"

section \<open>A scan through the wrapper\<close>

text \<open>DuckDB starts threads and has them fetch chunks; a thread is known by its number.\<close>

datatype ('a, 'f) scan_event = StartThread "('a, 'f) init_input" | FetchChunk nat

text \<open>A run of such events, given how to start and how to fetch: the chunks in the order they came.\<close>

fun run_events ::
  "(('a, 'f) init_input \<Rightarrow> ('w, 'l) io) \<Rightarrow> ('l \<Rightarrow> ('w, 'c) io) \<Rightarrow> ('a, 'f) scan_event list \<Rightarrow> 'l list \<Rightarrow>
     ('w, 'c list) io" where
  "run_events start fetch [] ls = ret []"
| "run_events start fetch (StartThread input # evs) ls =
     bind (start input) (\<lambda>l. run_events start fetch evs (ls @ [l]))"
| "run_events start fetch (FetchChunk i # evs) ls =
     (if i < length ls then bind (fetch (ls ! i)) (\<lambda>c. bind (run_events start fetch evs ls) (\<lambda>cs. ret (c # cs)))
      else run_events start fetch evs ls)"

text \<open>
  The wrapper is transparent. A scan through it is the inner scan on the inner bind data, with the columns, projection and
  filters DuckDB gave, with the same chunks, effects and errors.
\<close>

theorem wrapper_is_transparent:
  "bind (adopt_inner b fn input) (\<lambda>gs. run_events (scan_plan_init_local gs) (scan_plan_scan gs) evs []) =
   bind (case if_virtual_columns fn of None \<Rightarrow> ret () | Some vc \<Rightarrow> vc b) (\<lambda>_.
   bind (if_init_global fn (inner_input b input)) (\<lambda>g.
   run_events (\<lambda>i. if_init_local fn (inner_input b i) g) (\<lambda>l. if_function fn b l g) evs []))"
  by (simp add: adopt_inner_def bind_assoc scan_plan_init_local_def[abs_def] scan_plan_scan_def[abs_def])

text \<open>\<open>COUNT(*)\<close> asks for no column: the empty column is offered, the row id is not.\<close>

lemma virtual_columns_offered:
  "map fst scan_plan_virtual_columns = [ColumnFilename, ColumnFileIndex, ColumnEmpty] \<and>
   ColumnRowId \<notin> fst ` set scan_plan_virtual_columns \<and> CbCardinality \<notin> set (fn_callbacks make_uc_scan_plan_table_function)"
  by (simp add: scan_plan_virtual_columns_def make_uc_scan_plan_table_function_def)

end
