(* ===== verification/UC_Set_Threads.thy ===== *)
theory UC_Set_Threads
  imports UC_Statements
begin

text \<open>
  The operations of one table set from several threads, with their data. \<open>EnsureLoaded\<close> checks, lists and enters the
  tables under \<open>load_lock\<close>; a lookup, a listing for DuckDB or a checkpoint by name then reads the map; CREATE TABLE works
  without a lock and takes \<open>load_lock\<close> at its end to have the set listed again. Between two of these points another
  thread may run. A step reads or changes the map at once, as \<open>entry_lock\<close> makes it (for a checkpoint, which does not take it,
  see \<open>tables_raced\<close> in \<open>UC_Locks\<close>); the server may answer a listing as it likes.

  What it shows: a lookup reads a map that has every table of a listing fetched after the last table that was created, so
  a table a session created is found by its next query, whatever other threads do. \<open>UC_Catalog_Threads\<close> lifts it to the catalog.
\<close>

section \<open>The parts of the operations\<close>

datatype set_request = LookUp string "at_clause option" | ListAll | CheckpointName string bool

definition lookup_table ::
  "env \<Rightarrow> catalog_settings \<Rightarrow> string \<Rightarrow> string \<Rightarrow> at_clause option \<Rightarrow> (set_state, table_entry option) io" where
  "lookup_table env cat schema name at =
     bind (get_state us_tables) (\<lambda>ts.
     case map_of ts (lower name) of
       None \<Rightarrow> ret None
     | Some ti \<Rightarrow> get_version env cat schema (lower name) ti at)"

definition checkpoint_found :: "env \<Rightarrow> catalog_settings \<Rightarrow> string \<Rightarrow> string \<Rightarrow> bool \<Rightarrow> (set_state, unit) io" where
  "checkpoint_found env cat schema name force =
     bind (get_state us_tables) (\<lambda>ts.
     case map_of ts (lower name) of
       None \<Rightarrow> throw (InvalidInputException (''Table '' @ in_quotes name @ '' not found''))
     | Some ti \<Rightarrow> on_table (lower name) (internal_checkpoint env cat schema (tf_data ti) force))"

fun serve :: "env \<Rightarrow> catalog_settings \<Rightarrow> string \<Rightarrow> set_request \<Rightarrow> (set_state, table_entry option list) io" where
  "serve env cat schema (LookUp name at) = bind (lookup_table env cat schema name at) (\<lambda>e. ret [e])"
| "serve env cat schema ListAll = get_state (\<lambda>s. map (\<lambda>(k, ti). tf_reported ti) (us_tables s))"
| "serve env cat schema (CheckpointName name force) =
     bind (checkpoint_found env cat schema name force) (\<lambda>_. ret [])"

text \<open>CREATE TABLE up to its last step.\<close>

definition create_unmarked ::
  "env \<Rightarrow> put_fun \<Rightarrow> path_ops \<Rightarrow> catalog_settings \<Rightarrow> string \<Rightarrow> create_info \<Rightarrow> (set_state, bool) io" where
  "create_unmarked env put po cat schema info =
     (if cat_read_only cat
      then throw (InvalidInputException ''Can not create a table in a read only Unity Catalog'')
      else case find_option ''location'' (ci_options info) of
             Some opt \<Rightarrow> create_external env put po cat schema info opt
           | None \<Rightarrow> create_managed env put po cat schema info)"

lemma set_operation_parts:
  "get_entry env cat schema name at = bind (ensure_tables_loaded env cat schema) (\<lambda>_. lookup_table env cat schema name at)"
  "checkpoint_table env cat schema name force =
     bind (ensure_tables_loaded env cat schema) (\<lambda>_. checkpoint_found env cat schema name force)"
  "create_table env put po cat schema info =
     bind (create_unmarked env put po cat schema info) (\<lambda>created. if created then mark_needs_reload else ret ())"
  by (simp_all add: get_entry_def lookup_table_def checkpoint_table_def checkpoint_found_def create_table_def
    create_unmarked_def)

section \<open>What a set hands out\<close>

text \<open>What a set hands out by reference: the data of a table, its reported entry and the columns it could not read.\<close>

definition handed :: "table_info \<Rightarrow> api_table \<times> table_entry option \<times> (string \<times> string) list" where
  "handed ti = (tf_data ti, tf_reported ti, tf_unreadable ti)"

definition handed_out :: "set_state \<Rightarrow> string \<Rightarrow> (api_table \<times> table_entry option \<times> (string \<times> string) list) option" where
  "handed_out t k = map_option handed (map_of (us_tables t) k)"

definition table_keys :: "set_state \<Rightarrow> string set" where
  "table_keys t = dom (handed_out t)"

lemma table_keys_iff: "k \<in> table_keys t \<longleftrightarrow> map_of (us_tables t) k \<noteq> None"
  by (simp add: table_keys_def handed_out_def domIff)

lemma handed_leave [simp]: "handed (leave_table ti u) = handed ti"
  by (simp add: handed_def leave_table_def)

definition same_tables :: "set_state \<Rightarrow> set_state \<Rightarrow> bool" where
  "same_tables s t \<longleftrightarrow> us_is_loaded t = us_is_loaded s \<and> handed_out t = handed_out s"

section \<open>Threads\<close>

datatype set_pc =
    Resting
  | WaitsToLoad set_request
  | ChecksLoaded set_request
  | FetchesListing set_request
  | EntersTables "api_table list" set_request
  | Serves set_request
  | Creates create_info
  | WaitsToMark

text \<open>The points of a thread that holds \<open>load_lock\<close>.\<close>

fun loading_pc :: "set_pc \<Rightarrow> bool" where
  "loading_pc (ChecksLoaded req) = True"
| "loading_pc (FetchesListing req) = True"
| "loading_pc (EntersTables rest req) = True"
| "loading_pc _ = False"

record shared_set =
  sd_set :: set_state
  sd_loader :: "nat option"
  sd_pcs :: "nat \<Rightarrow> set_pc"

text \<open>A listing came, a thread may read the map, a thread created a table and then marked the set.\<close>

datatype set_event = Listed "api_table list" | Ready nat | Created nat | Marked nat | Unseen

definition move_to :: "nat \<Rightarrow> set_pc \<Rightarrow> set_state \<Rightarrow> shared_set \<Rightarrow> shared_set" where
  "move_to i pc t s = s\<lparr>sd_set := t, sd_pcs := (sd_pcs s)(i := pc)\<rparr>"

definition unlock_to :: "nat \<Rightarrow> set_pc \<Rightarrow> set_state \<Rightarrow> shared_set \<Rightarrow> shared_set" where
  "unlock_to i pc t s = (move_to i pc t s)\<lparr>sd_loader := None\<rparr>"

definition set_advance ::
  "env \<Rightarrow> put_fun \<Rightarrow> path_ops \<Rightarrow> catalog_settings \<Rightarrow> string \<Rightarrow> nat \<Rightarrow> shared_set \<Rightarrow> (set_event \<times> shared_set) option" where
  "set_advance env put po cat schema i s =
     (let tset = sd_set s in
      case sd_pcs s i of
        Resting \<Rightarrow> None
      | WaitsToLoad req \<Rightarrow>
          if sd_loader s \<noteq> None then None
          else Some (Unseen, (move_to i (ChecksLoaded req) tset s)\<lparr>sd_loader := Some i\<rparr>)
      | ChecksLoaded req \<Rightarrow> Some
          (if us_is_loaded tset then (Ready i, unlock_to i (Serves req) tset s)
           else (Unseen, move_to i (FetchesListing req) tset s))
      | FetchesListing req \<Rightarrow> Some (case get_tables env (cat_db_path cat) schema (cat_credentials cat) tset of
          (Inl e, t) \<Rightarrow> (Unseen, unlock_to i Resting t s)
        | (Inr ts, t) \<Rightarrow> (Listed ts, move_to i (EntersTables ts req) t s))
      | EntersTables [] req \<Rightarrow> Some (Ready i, unlock_to i (Serves req) (us_is_loaded_update (\<lambda>_. True) tset) s)
      | EntersTables (x # xs) req \<Rightarrow> Some (Unseen, case load_entry env x tset of
          (Inl e, t) \<Rightarrow> unlock_to i Resting t s
        | (Inr u, t) \<Rightarrow> move_to i (EntersTables xs req) t s)
      | Serves req \<Rightarrow> Some (Unseen, move_to i Resting (snd (serve env cat schema req tset)) s)
      | Creates info \<Rightarrow> Some (case create_unmarked env put po cat schema info tset of
          (Inr True, t) \<Rightarrow> (Created i, move_to i WaitsToMark t s)
        | (_, t) \<Rightarrow> (Unseen, move_to i Resting t s))
      | WaitsToMark \<Rightarrow>
          if sd_loader s \<noteq> None then None
          else Some (Marked i, move_to i Resting (snd (mark_needs_reload tset)) s))"

text \<open>
  \<open>outside\<close>: what happens meanwhile beside these operations. Scans, inserts and the detach work on single tables
  (\<open>UC_Interleaving\<close>), other threads have transactions of their own, and other sets call the server.
\<close>

inductive set_run ::
  "env \<Rightarrow> put_fun \<Rightarrow> path_ops \<Rightarrow> catalog_settings \<Rightarrow> string \<Rightarrow> shared_set \<Rightarrow> set_event list \<Rightarrow> shared_set \<Rightarrow> bool"
  for env put po cat schema s where
  start: "set_run env put po cat schema s [] s"
| request: "set_run env put po cat schema s es t \<Longrightarrow> sd_pcs t i = Resting
    \<Longrightarrow> set_run env put po cat schema s es (move_to i (WaitsToLoad req) (sd_set t) t)"
| create: "set_run env put po cat schema s es t \<Longrightarrow> sd_pcs t i = Resting
    \<Longrightarrow> set_run env put po cat schema s es (move_to i (Creates info) (sd_set t) t)"
| advance: "set_run env put po cat schema s es t \<Longrightarrow> set_advance env put po cat schema i t = Some (e, u)
    \<Longrightarrow> set_run env put po cat schema s (es @ [e]) u"
| outside: "set_run env put po cat schema s es t \<Longrightarrow> same_tables (sd_set t) u
    \<Longrightarrow> set_run env put po cat schema s es (t\<lparr>sd_set := u\<rparr>)"

text \<open>A set no thread has begun with.\<close>

definition fresh_set :: "shared_set \<Rightarrow> bool" where
  "fresh_set s \<longleftrightarrow> \<not> us_is_loaded (sd_set s) \<and> sd_loader s = None \<and> (\<forall>i. sd_pcs s i = Resting)"

text \<open>The steps of the threads named.\<close>

fun set_schedule ::
  "env \<Rightarrow> put_fun \<Rightarrow> path_ops \<Rightarrow> catalog_settings \<Rightarrow> string \<Rightarrow> nat list \<Rightarrow> shared_set \<Rightarrow> (set_event list \<times> shared_set) option" where
  "set_schedule env put po cat schema [] s = Some ([], s)"
| "set_schedule env put po cat schema (i # is) s =
     (case set_advance env put po cat schema i s of
        None \<Rightarrow> None
      | Some (e, t) \<Rightarrow> map_option (apfst ((#) e)) (set_schedule env put po cat schema is t))"

lemma set_schedule_run:
  "set_run env put po cat schema s es t \<Longrightarrow> set_schedule env put po cat schema is t = Some (es', u) \<Longrightarrow>
     set_run env put po cat schema s (es @ es') u"
proof (induction "is" arbitrary: es t es')
  case (Cons i "is")
  then obtain e v es'' where step: "set_advance env put po cat schema i t = Some (e, v)"
    and rest: "set_schedule env put po cat schema is v = Some (es'', u)" "es' = e # es''"
    by (auto split: option.splits)
  from Cons.IH[OF set_run.advance[OF Cons.prems(1) step] rest(1)] rest(2) show ?case by simp
qed simp

section \<open>What a step does to the map\<close>

interpretation sk: lookup_effect same_tables
  by unfold_locales
    (auto simp: same_tables_def handed_out_def store_entry_def AList.update_conv' split: option.split)

definition more_tables :: "set_state \<Rightarrow> set_state \<Rightarrow> bool" where
  "more_tables s t \<longleftrightarrow> us_is_loaded t = us_is_loaded s \<and> handed_out s \<subseteq>\<^sub>m handed_out t"

lemma handed_keys: "handed_out s \<subseteq>\<^sub>m handed_out t \<Longrightarrow> table_keys s \<subseteq> table_keys t"
  by (simp add: table_keys_def map_le_implies_dom_le)

lemma same_tablesD: "same_tables s t \<Longrightarrow> us_is_loaded t = us_is_loaded s \<and> table_keys t = table_keys s"
  by (simp add: same_tables_def table_keys_def)

lemma more_tables_keys: "more_tables s t \<Longrightarrow> k \<in> table_keys s \<Longrightarrow> k \<in> table_keys t"
  by (meson handed_keys more_tables_def subsetD)

lemma more_tables_flag: "more_tables s t \<Longrightarrow> us_is_loaded t = us_is_loaded s"
  by (simp add: more_tables_def)

lemma same_tables_more: "same_tables s t \<Longrightarrow> more_tables s t"
  by (simp add: same_tables_def more_tables_def)

lemma serve_same: "same_tables s (snd (serve env cat schema req s))"
proof -
  have "keeps same_tables (serve env cat schema req)"
    by (cases req)
       (auto simp: lookup_table_def checkpoint_found_def intro!: sk.S_statement sk.S_get_version
         simp del: run_simps split: option.split)
  then show ?thesis by (simp add: keeps_def)
qed

lemma listing_same:
  assumes "get_tables env db schema creds s = (r, t)"
  shows "same_tables s t"
proof -
  have "keeps wrote (get_tables env db schema creds)"
    unfolding get_tables_def make_request_def by (auto intro!: keeps_intro)
  from sk.tset.keepsD[OF sk.S_wrote[OF this] assms] show ?thesis .
qed

lemma create_same:
  assumes "create_unmarked env put po cat schema info s = (r, t)"
  shows "same_tables s t"
proof -
  have "keeps wrote (create_unmarked env put po cat schema info)"
    unfolding create_unmarked_def
    by (auto intro!: wr.keeps_pure keeps_create_managed keeps_create_external split: option.split)
  from sk.tset.keepsD[OF sk.S_wrote[OF this] assms] show ?thesis .
qed

lemma load_entry_more:
  assumes "load_entry env x s = (r, t)"
  shows "more_tables s t" and "r = Inr u \<Longrightarrow> lower (tb_name x) \<in> table_keys t"
proof -
  have "extends_set s t" by (rule ex.keepsD[OF extends_load_entry assms])
  then show "more_tables s t" 
    by (auto simp: extends_set_def more_tables_def handed_out_def map_le_def map_add_def split: option.splits)
  have "map_of (us_tables t) (lower (tb_name x)) \<noteq> None" if ok: "r = Inr u"
  proof -
    let ?x = "sort_columns x"
    obtain p s1 where c: "create_columns env (tb_columns ?x) [] [] s = (Inr p, s1)"
      using assms ok by (auto simp: load_entry_def Let_def bind_eq_Inr)
    then show ?thesis using assms ok
      by (auto simp: load_entry_def Let_def bind_run sort_columns_def map_add_def split: if_splits prod.splits option.split)
  qed
  then show "lower (tb_name x) \<in> table_keys t" if "r = Inr u" using that by (simp add: table_keys_iff)
qed

lemma set_advance_cases:
  assumes "set_advance env put po cat schema i s = Some (e, u)"
  obtains (took) req where "sd_pcs s i = WaitsToLoad req" "sd_loader s = None" "e = Unseen"
      "u = (move_to i (ChecksLoaded req) (sd_set s) s)\<lparr>sd_loader := Some i\<rparr>"
  | (was_loaded) req where "sd_pcs s i = ChecksLoaded req" "us_is_loaded (sd_set s)" "e = Ready i"
      "u = unlock_to i (Serves req) (sd_set s) s"
  | (not_loaded) req where "sd_pcs s i = ChecksLoaded req" "\<not> us_is_loaded (sd_set s)" "e = Unseen"
      "u = move_to i (FetchesListing req) (sd_set s) s"
  | (listed) req ts t where "sd_pcs s i = FetchesListing req" "e = Listed ts" "same_tables (sd_set s) t"
      "u = move_to i (EntersTables ts req) t s"
  | (entered) x xs req t where "sd_pcs s i = EntersTables (x # xs) req" "e = Unseen" "more_tables (sd_set s) t"
      "lower (tb_name x) \<in> table_keys t" "u = move_to i (EntersTables xs req) t s"
  | (filled) req where "sd_pcs s i = EntersTables [] req" "e = Ready i"
      "u = unlock_to i (Serves req) (us_is_loaded_update (\<lambda>_. True) (sd_set s)) s"
  | (failed) t where "loading_pc (sd_pcs s i)" "e = Unseen" "more_tables (sd_set s) t" "u = unlock_to i Resting t s"
  | (served) req t where "sd_pcs s i = Serves req" "e = Unseen" "same_tables (sd_set s) t" "u = move_to i Resting t s"
  | (created) info t where "sd_pcs s i = Creates info" "e = Created i" "same_tables (sd_set s) t"
      "u = move_to i WaitsToMark t s"
  | (gave_up) info t where "sd_pcs s i = Creates info" "e = Unseen" "same_tables (sd_set s) t" "u = move_to i Resting t s"
  | (marked) "sd_pcs s i = WaitsToMark" "sd_loader s = None" "e = Marked i"
      "u = move_to i Resting (us_is_loaded_update (\<lambda>_. False) (sd_set s)) s"
proof (cases "sd_pcs s i")
  case (EntersTables rest req)
  show ?thesis
  proof (cases rest)
    case (Cons x xs)
    obtain r t where "load_entry env x (sd_set s) = (r, t)" by (cases "load_entry env x (sd_set s)")
    then show ?thesis
      using assms EntersTables Cons entered[of x xs req t] failed[of t] load_entry_more[of env x "sd_set s" r t]
      by (cases r) (auto simp: set_advance_def Let_def)
  qed (use assms EntersTables filled in \<open>auto simp: set_advance_def Let_def\<close>)
next
  case (FetchesListing req)
  obtain r t where "get_tables env (cat_db_path cat) schema (cat_credentials cat) (sd_set s) = (r, t)"
    by (cases "get_tables env (cat_db_path cat) schema (cat_credentials cat) (sd_set s)")
  then show ?thesis using assms FetchesListing listed[of req _ t] failed[of t] listing_same same_tables_more
    by (cases r) (fastforce simp: set_advance_def Let_def)+
next
  case (Creates info)
  obtain r t where c: "create_unmarked env put po cat schema info (sd_set s) = (r, t)"
    by (cases "create_unmarked env put po cat schema info (sd_set s)")
  then show ?thesis using assms Creates created[of info t] gave_up[of info t] create_same[OF c]
    by (cases r) (auto simp: set_advance_def Let_def split: bool.splits)
qed (use assms took was_loaded not_loaded served[OF _ _ serve_same] marked in
    \<open>auto simp: set_advance_def Let_def mark_needs_reload_def split: if_splits\<close>)

section \<open>The invariant of a run\<close>

text \<open>The listing a thread goes by: fetched after the last table was marked, and after the last this thread created.\<close>

fun unlisted :: "set_event \<Rightarrow> bool" where
  "unlisted (Listed ts) = False"
| "unlisted (Marked i) = False"
| "unlisted _ = True"

definition last_listing :: "set_event list \<Rightarrow> api_table list \<Rightarrow> bool" where
  "last_listing es ts \<longleftrightarrow> (\<exists>us vs. es = us @ Listed ts # vs \<and> list_all unlisted vs)"

definition unmarked :: "nat \<Rightarrow> set_event list \<Rightarrow> bool" where
  "unmarked i es \<longleftrightarrow> (\<exists>us vs. es = us @ Created i # vs \<and> Marked i \<notin> set vs)"

definition has_all :: "set_state \<Rightarrow> api_table list \<Rightarrow> bool" where
  "has_all t ts \<longleftrightarrow> list_all (\<lambda>x. lower (tb_name x) \<in> table_keys t) ts"

definition served_fresh :: "nat \<Rightarrow> set_event list \<Rightarrow> set_state \<Rightarrow> bool" where
  "served_fresh i es t \<longleftrightarrow> (\<exists>us ts vs ws. es = us @ Listed ts # vs @ Ready i # ws \<and>
     list_all unlisted vs \<and> Created i \<notin> set vs \<and> Ready i \<notin> set ws \<and> has_all t ts)"

definition thread_ok :: "set_event list \<Rightarrow> shared_set \<Rightarrow> nat \<Rightarrow> bool" where
  "thread_ok es s i \<longleftrightarrow>
     (loading_pc (sd_pcs s i) \<longleftrightarrow> sd_loader s = Some i) \<and>
     (unmarked i es \<longrightarrow> sd_pcs s i = WaitsToMark) \<and>
     (case sd_pcs s i of
        FetchesListing req \<Rightarrow> \<not> us_is_loaded (sd_set s)
      | EntersTables rest req \<Rightarrow> \<not> us_is_loaded (sd_set s) \<and>
          (\<exists>before. last_listing es (before @ rest) \<and> has_all (sd_set s) before)
      | Serves req \<Rightarrow> served_fresh i es (sd_set s)
      | _ \<Rightarrow> True)"

definition set_inv :: "set_event list \<Rightarrow> shared_set \<Rightarrow> bool" where
  "set_inv es s \<longleftrightarrow> (\<forall>i. thread_ok es s i) \<and>
     (us_is_loaded (sd_set s) \<longrightarrow> (\<exists>ts. last_listing es ts \<and> has_all (sd_set s) ts))"

lemma last_listing_snoc:
  "last_listing (es @ [Listed ts]) ts" "unlisted e \<Longrightarrow> last_listing es ts \<Longrightarrow> last_listing (es @ [e]) ts"
proof -
  show "last_listing (es @ [Listed ts]) ts" unfolding last_listing_def by (intro exI[of _ es] exI[of _ "[]"]) simp
  assume "unlisted e" "last_listing es ts"
  then obtain us vs where "es = us @ Listed ts # vs" "list_all unlisted (vs @ [e])" unfolding last_listing_def by auto
  then show "last_listing (es @ [e]) ts" unfolding last_listing_def by (intro exI[of _ us] exI[of _ "vs @ [e]"]) simp
qed

lemma unmarked_snoc: "unmarked i (es @ [e]) \<longleftrightarrow> e = Created i \<or> e \<noteq> Marked i \<and> unmarked i es"
proof
  assume "unmarked i (es @ [e])"
  then obtain us vs where vs: "es @ [e] = us @ Created i # vs" "Marked i \<notin> set vs" unfolding unmarked_def by blast
  then show "e = Created i \<or> e \<noteq> Marked i \<and> unmarked i es"
    by (cases vs rule: rev_cases) (auto simp: unmarked_def)
next
  assume "e = Created i \<or> e \<noteq> Marked i \<and> unmarked i es"
  then show "unmarked i (es @ [e])" unfolding unmarked_def
    by (metis append_Cons append_assoc append_self_conv2 empty_iff empty_set in_set_butlastD butlast_snoc set_ConsD
        rotate1.simps(2) set_rotate1 append_Nil)
qed

lemma has_all_more: "has_all s ts \<Longrightarrow> more_tables s t \<Longrightarrow> has_all t ts"
  using handed_keys by (fastforce simp: has_all_def more_tables_def list_all_iff)

lemma served_later:
  assumes "served_fresh i es s" and "e \<noteq> Ready i" and "table_keys s \<subseteq> table_keys t"
  shows "served_fresh i (es @ [e]) t"
proof -
  obtain us ts vs ws where e: "es = us @ Listed ts # vs @ Ready i # ws" "list_all unlisted vs" "Created i \<notin> set vs"
    "Ready i \<notin> set ws" "has_all s ts" using assms(1) unfolding served_fresh_def by blast
  have "has_all t ts" using e(5) assms(3) by (auto simp: has_all_def list_all_iff)
  then show ?thesis unfolding served_fresh_def using e assms(2)
    by (intro exI[of _ us] exI[of _ ts] exI[of _ vs] exI[of _ "ws @ [e]"]) auto
qed

lemma served_now:
  assumes "last_listing es ts" and "has_all t ts" and "\<not> unmarked i es"
  shows "served_fresh i (es @ [Ready i]) t"
proof -
  obtain us vs where e: "es = us @ Listed ts # vs" "list_all unlisted vs"
    using assms(1) unfolding last_listing_def by blast
  have "Created i \<notin> set vs"
  proof
    assume "Created i \<in> set vs"
    then obtain as bs where vs: "vs = as @ Created i # bs" by (meson split_list)
    have "list_all unlisted bs" using e(2) vs by simp
    then have "Marked i \<notin> set bs" by (induction bs) auto
    then have "unmarked i es" unfolding unmarked_def using e(1) vs
      by (intro exI[of _ "us @ Listed ts # as"] exI[of _ bs]) simp
    then show False using assms(3) by simp
  qed
  then show ?thesis unfolding served_fresh_def using e assms(2)
    by (intro exI[of _ us] exI[of _ ts] exI[of _ vs] exI[of _ "[]"]) simp
qed

text \<open>What a step of another thread leaves.\<close>

lemma other_thread_ok:
  assumes "thread_ok es s j" and "sd_pcs u j = sd_pcs s j"
    and "sd_loader u = Some j \<longleftrightarrow> sd_loader s = Some j"
    and "table_keys (sd_set s) \<subseteq> table_keys (sd_set u)"
    and "sd_loader s = Some j \<Longrightarrow> us_is_loaded (sd_set u) = us_is_loaded (sd_set s) \<and> unlisted e"
    and "e \<noteq> Ready j" "e \<noteq> Created j"
  shows "thread_ok (es @ [e]) u j"
proof -
  have "unmarked j (es @ [e]) \<longrightarrow> sd_pcs u j = WaitsToMark" using assms(1,2,7) by (auto simp: unmarked_snoc thread_ok_def)
  moreover have "has_all (sd_set u) ts" if "has_all (sd_set s) ts" for ts
    using that assms(4) by (auto simp: has_all_def list_all_iff)
  ultimately show ?thesis using assms served_later[OF _ assms(6,4)] last_listing_snoc(2)
    unfolding thread_ok_def by (cases "sd_pcs s j") fastforce+
qed

lemma move_to_simps [simp]:
  "sd_pcs (move_to i pc t s) = (sd_pcs s)(i := pc)" "sd_loader (move_to i pc t s) = sd_loader s" "sd_set (move_to i pc t s) = t"
  by (simp_all add: move_to_def)

lemma unlock_to_simps [simp]:
  "sd_pcs (unlock_to i pc t s) = (sd_pcs s)(i := pc)" "sd_loader (unlock_to i pc t s) = None" "sd_set (unlock_to i pc t s) = t"
  by (simp_all add: unlock_to_def)

lemma table_keys_flag [simp]: "handed_out (us_is_loaded_update f t) = handed_out t"
    "table_keys (us_is_loaded_update f t) = table_keys t"
  by (auto simp add: table_keys_iff handed_out_def fun_eq_iff)

text \<open>The flag of the set stays true to its meaning in a step that brings no listing and no mark.\<close>

lemma flag_later:
  assumes "set_inv es s" and "more_tables (sd_set s) t" and "unlisted e" and "us_is_loaded t"
  shows "\<exists>ts. last_listing (es @ [e]) ts \<and> has_all t ts"
  using assms last_listing_snoc(2) has_all_more unfolding set_inv_def more_tables_def by metis

lemma more_tables_refl: "more_tables t t"
  by (simp add: more_tables_def)

lemma set_inv_lock: "set_inv es s \<Longrightarrow> loading_pc (sd_pcs s i) \<longleftrightarrow> sd_loader s = Some i"
  by (simp add: set_inv_def thread_ok_def)

lemma set_inv_unmarked: "set_inv es s \<Longrightarrow> unmarked i es \<Longrightarrow> sd_pcs s i = WaitsToMark"
  by (simp add: set_inv_def thread_ok_def)

lemma set_inv_entering:
  assumes "set_inv es s" and "sd_pcs s i = EntersTables rest req"
  shows "\<exists>before. last_listing es (before @ rest) \<and> has_all (sd_set s) before"
proof -
  have "thread_ok es s i" using assms(1) by (simp add: set_inv_def)
  then show ?thesis using assms(2) by (simp add: thread_ok_def)
qed

lemma set_inv_unloaded:
  assumes "set_inv es s" and "sd_pcs s i = FetchesListing req \<or> sd_pcs s i = EntersTables rest req"
  shows "\<not> us_is_loaded (sd_set s) \<and> sd_loader s = Some i"
proof -
  have "thread_ok es s i" using assms(1) by (simp add: set_inv_def)
  then show ?thesis using assms(2) by (auto simp: thread_ok_def)
qed

lemma set_advance_others:
  assumes "set_advance env put po cat schema i s = Some (e, u)" and inv: "set_inv es s" and "j \<noteq> i"
  shows "thread_ok (es @ [e]) u j"
proof -
  have ok: "thread_ok es s j" using inv by (simp add: set_inv_def)
  note lock = set_inv_lock[OF inv, of i]
  from assms(1) show ?thesis
    by (cases rule: set_advance_cases)
      (use assms(3) lock in \<open>auto dest: same_tablesD more_tables_keys more_tables_flag intro!: other_thread_ok[OF ok]\<close>)
qed

lemma set_advance_self:
  assumes "set_advance env put po cat schema i s = Some (e, u)" and inv: "set_inv es s"
  shows "thread_ok (es @ [e]) u i"
proof -
  note lock = set_inv_lock[OF inv, of i] and unm = set_inv_unmarked[OF inv, of i] and unl = set_inv_unloaded[OF inv, of i]
  from assms(1) show ?thesis
  proof (cases rule: set_advance_cases)
    case (was_loaded req)
    then obtain ts where "last_listing es ts" "has_all (sd_set s) ts" using inv by (auto simp: set_inv_def)
    then show ?thesis using was_loaded unm served_now by (auto simp: thread_ok_def unmarked_snoc)
  next
    case (listed req ts t)
    then show ?thesis using unl unm last_listing_snoc(1)[of es ts]
      by (auto simp: thread_ok_def unmarked_snoc same_tables_def table_keys_def has_all_def intro!: exI[of _ "[]"])
  next
    case (entered x xs req t)
    then obtain before where b: "last_listing es (before @ x # xs)" "has_all (sd_set s) before"
      using set_inv_entering[OF inv] by blast
    have "last_listing (es @ [e]) ((before @ [x]) @ xs)" using b(1) entered(2) last_listing_snoc(2) by simp
    moreover have "has_all t (before @ [x])" using has_all_more[OF b(2) entered(3)] entered(4) by (simp add: has_all_def)
    ultimately show ?thesis using entered unl unm
      by (auto simp: thread_ok_def unmarked_snoc more_tables_def intro!: exI[of _ "before @ [x]"])
  next
    case (filled req)
    obtain ts where ts: "last_listing es ts" "has_all (sd_set s) ts" using set_inv_entering[OF inv filled(1)] by auto
    then have "has_all (sd_set u) ts" using filled by (simp add: has_all_def)
    then show ?thesis using filled unm served_now[OF ts(1)] by (auto simp: thread_ok_def unmarked_snoc)
  qed (use lock unm in \<open>auto simp: thread_ok_def unmarked_snoc\<close>)
qed

lemma set_advance_flag:
  assumes "set_advance env put po cat schema i s = Some (e, u)" and inv: "set_inv es s" and loaded: "us_is_loaded (sd_set u)"
  shows "\<exists>ts. last_listing (es @ [e]) ts \<and> has_all (sd_set u) ts"
proof -
  note later = flag_later[OF inv _ _ loaded, of e] and unl = set_inv_unloaded[OF inv, of i]
  from assms(1) show ?thesis
  proof (cases rule: set_advance_cases)
    case (filled req)
    obtain ts where ts: "last_listing es ts" "has_all (sd_set s) ts" using set_inv_entering[OF inv filled(1)] by auto
    then have "has_all (sd_set u) ts" using filled by (simp add: has_all_def)
    then show ?thesis using filled last_listing_snoc(2)[OF _ ts(1), of e] by auto
  qed (use later loaded unl same_tables_more more_tables_refl in \<open>auto simp: same_tables_def\<close>)
qed

lemma set_advance_inv:
  assumes "set_advance env put po cat schema i s = Some (e, u)" and "set_inv es s"
  shows "set_inv (es @ [e]) u"
  unfolding set_inv_def using set_advance_others[OF assms] set_advance_self[OF assms] set_advance_flag[OF assms] by metis

lemma begin_inv:
  assumes "set_inv es s" and "sd_pcs s i = Resting" and "pc = WaitsToLoad req \<or> pc = Creates info"
  shows "set_inv es (move_to i pc (sd_set s) s)"
proof -
  have "thread_ok es (move_to i pc (sd_set s) s) j" for j
  proof (cases "j = i")
    case True
    then show ?thesis using set_inv_lock[OF assms(1), of i] set_inv_unmarked[OF assms(1), of i] assms(2,3)
      by (auto simp: thread_ok_def)
  next
    case False
    moreover have "thread_ok es s j" using assms(1) by (simp add: set_inv_def)
    ultimately show ?thesis by (simp add: thread_ok_def cong: set_pc.case_cong)
  qed
  then show ?thesis using assms(1) by (simp add: set_inv_def)
qed

lemma outside_inv:
  assumes "set_inv es s" and "same_tables (sd_set s) t"
  shows "set_inv es (s\<lparr>sd_set := t\<rparr>)"
proof -
  have "table_keys t = table_keys (sd_set s)" "us_is_loaded t = us_is_loaded (sd_set s)"
    using assms(2) by (simp_all add: same_tables_def table_keys_def)
  then have "thread_ok es (s\<lparr>sd_set := t\<rparr>) i = thread_ok es s i" and "has_all t ts = has_all (sd_set s) ts" for i ts
    by (simp_all add: thread_ok_def has_all_def served_fresh_def cong: set_pc.case_cong)
  then show ?thesis using assms by (simp add: set_inv_def same_tables_def)
qed

lemma set_run_inv:
  assumes "set_run env put po cat schema s es t" and "fresh_set s"
  shows "set_inv es t"
  using assms(1)
proof induction
  case start
  then show ?case using assms(2) by (auto simp: set_inv_def fresh_set_def thread_ok_def unmarked_def)
qed (auto intro: begin_inv set_advance_inv outside_inv)

text \<open>What was handed out stays as it was.\<close>

lemma set_advance_handed:
  assumes "set_advance env put po cat schema i s = Some (e, u)"
  shows "handed_out (sd_set s) \<subseteq>\<^sub>m handed_out (sd_set u)"
  using assms by (cases rule: set_advance_cases)
    (auto simp: same_tables_def more_tables_def)

lemma set_run_more:
  assumes "set_run env put po cat schema s es t"
  shows "handed_out (sd_set s) \<subseteq>\<^sub>m handed_out (sd_set t)"
  using assms by induction (auto dest: set_advance_handed simp: same_tables_def intro: map_le_trans)

section \<open>The atomic operations are runs\<close>

lemma move_move: "move_to i q t' (move_to i p t s) = move_to i q t' s"
  by (simp add: move_to_def)

lemma unlock_move: "sd_loader s = None \<Longrightarrow> unlock_to i q t' ((move_to i p t s)\<lparr>sd_loader := Some i\<rparr>) = move_to i q t' s"
  by (simp add: unlock_to_def move_to_def)

lemma locked_move:
  "move_to i q t' ((move_to i p t s)\<lparr>sd_loader := Some i\<rparr>) = (move_to i q t' s)\<lparr>sd_loader := Some i\<rparr>"
  by (simp add: move_to_def)

lemma rest_move: "sd_pcs s i = Resting \<Longrightarrow> move_to i Resting t s = s\<lparr>sd_set := t\<rparr>"
  by (simp add: move_to_def fun_upd_idem)

text \<open>The steps of one thread, while no other takes one.\<close>

definition set_moves ::
  "env \<Rightarrow> put_fun \<Rightarrow> path_ops \<Rightarrow> catalog_settings \<Rightarrow> string \<Rightarrow> nat \<Rightarrow> shared_set \<Rightarrow> shared_set \<Rightarrow> bool" where
  "set_moves env put po cat schema i s t \<longleftrightarrow> (\<exists>e. set_advance env put po cat schema i s = Some (e, t))"

abbreviation reaches ::
  "env \<Rightarrow> put_fun \<Rightarrow> path_ops \<Rightarrow> catalog_settings \<Rightarrow> string \<Rightarrow> nat \<Rightarrow> shared_set \<Rightarrow> shared_set \<Rightarrow> bool" where
  "reaches env put po cat schema i \<equiv> (set_moves env put po cat schema i)\<^sup>*\<^sup>*"

lemma reaches_step:
  "reaches env put po cat schema i s t \<Longrightarrow> set_advance env put po cat schema i t = Some (e, u) \<Longrightarrow>
     reaches env put po cat schema i s u"
  by (meson rtranclp.rtrancl_into_rtrancl set_moves_def)

definition holding :: "nat \<Rightarrow> set_pc \<Rightarrow> set_state \<Rightarrow> shared_set \<Rightarrow> shared_set" where
  "holding i pc t s = (move_to i pc t s)\<lparr>sd_loader := Some i\<rparr>"

lemma holding_simps [simp]:
  "sd_pcs (holding i pc t s) i = pc" "sd_set (holding i pc t s) = t"
  "move_to i q t' (holding i pc t s) = holding i q t' s"
  "sd_loader s = None \<Longrightarrow> unlock_to i q t' (holding i pc t s) = move_to i q t' s"
  by (simp_all add: holding_def unlock_move locked_move)

lemma entering_reaches:
  assumes "reaches env put po cat schema i r (holding i (EntersTables ts req) t s)" and "sd_loader s = None"
  shows "case load_entry_list env ts t of
      (Inl e, u) \<Rightarrow> reaches env put po cat schema i r (move_to i Resting u s)
    | (Inr v, u) \<Rightarrow> reaches env put po cat schema i r (move_to i (Serves req) (us_is_loaded_update (\<lambda>_. True) u) s)"
  using assms(1)
proof (induction ts arbitrary: t)
  case Nil
  from reaches_step[OF this] show ?case using assms(2) by (simp add: set_advance_def)
next
  case (Cons x ts)
  obtain q u where q: "load_entry env x t = (q, u)" by (cases "load_entry env x t")
  note step = reaches_step[OF Cons.prems]
  show ?case
  proof (cases q)
    case (Inl e)
    then show ?thesis using step q assms(2) by (simp add: set_advance_def bind_run)
  next
    case (Inr v)
    then have "reaches env put po cat schema i r (holding i (EntersTables ts req) u s)"
      using step q by (simp add: set_advance_def)
    from Cons.IH[OF this] show ?thesis using q Inr by (simp add: bind_run)
  qed
qed

lemma loading_reaches:
  assumes "sd_loader s = None" and s0: "s0 = move_to i (WaitsToLoad req) (sd_set s) s"
  shows "case ensure_tables_loaded env cat schema (sd_set s) of
      (Inl e, u) \<Rightarrow> reaches env put po cat schema i s0 (move_to i Resting u s)
    | (Inr v, u) \<Rightarrow> reaches env put po cat schema i s0 (move_to i (Serves req) u s)"
proof -
  let ?tset = "sd_set s"
  have "reaches env put po cat schema i s0 (move_to i (WaitsToLoad req) ?tset s)" unfolding s0 ..
  from reaches_step[OF this] have check: "reaches env put po cat schema i s0 (holding i (ChecksLoaded req) ?tset s)"
    using assms(1) by (simp add: set_advance_def move_move holding_def)
  show ?thesis
  proof (cases "us_is_loaded ?tset")
    case True
    then show ?thesis using reaches_step[OF check] assms(1)
      by (simp add: set_advance_def ensure_tables_loaded_def load_if_needed_def bind_run)
  next
    case False
    then have fetch: "reaches env put po cat schema i s0 (holding i (FetchesListing req) ?tset s)"
      using reaches_step[OF check] by (simp add: set_advance_def)
    obtain q u where q: "get_tables env (cat_db_path cat) schema (cat_credentials cat) ?tset = (q, u)"
      by (cases "get_tables env (cat_db_path cat) schema (cat_credentials cat) ?tset")
    show ?thesis
    proof (cases q)
      case (Inl e)
      then show ?thesis using reaches_step[OF fetch] q False assms(1)
        by (simp add: set_advance_def ensure_tables_loaded_def load_if_needed_def load_entries_def bind_run)
    next
      case (Inr ts)
      then have "reaches env put po cat schema i s0 (holding i (EntersTables ts req) u s)"
        using reaches_step[OF fetch] q by (simp add: set_advance_def)
      from entering_reaches[OF this assms(1)] show ?thesis using q Inr False
        by (auto simp: ensure_tables_loaded_def load_if_needed_def load_entries_def bind_run split: prod.splits sum.splits)
    qed
  qed
qed

text \<open>A request answered without a switch.\<close>

definition handle_request :: "env \<Rightarrow> catalog_settings \<Rightarrow> string \<Rightarrow> set_request \<Rightarrow> (set_state, table_entry option list) io" where
  "handle_request env cat schema req = bind (ensure_tables_loaded env cat schema) (\<lambda>_. serve env cat schema req)"

lemma snd_bind_ret: "snd (bind m (\<lambda>x. ret (f x)) s) = snd (m s)"
  by (simp add: bind_run split: prod.split sum.split)

lemma handle_request_operations:
  "snd (handle_request env cat schema (LookUp name at) s) = snd (get_entry env cat schema name at s)"
  "snd (handle_request env cat schema ListAll s) = snd (scan_tables env cat schema s)"
  "snd (handle_request env cat schema (CheckpointName name force) s) = snd (checkpoint_table env cat schema name force s)"
  by (simp_all add: handle_request_def scan_tables_def set_operation_parts bind_assoc[symmetric] snd_bind_ret del: run_simps)

lemma request_is_run:
  assumes "sd_loader s = None" and "sd_pcs s i = Resting" and s0: "s0 = move_to i (WaitsToLoad req) (sd_set s) s"
  shows "reaches env put po cat schema i s0 (s\<lparr>sd_set := snd (handle_request env cat schema req (sd_set s))\<rparr>)"
proof -
  obtain q u where q: "ensure_tables_loaded env cat schema (sd_set s) = (q, u)"
    by (cases "ensure_tables_loaded env cat schema (sd_set s)")
  note load = loading_reaches[OF assms(1) s0, where env = env and put = put and po = po and cat = cat and schema = schema]
  show ?thesis
  proof (cases q)
    case (Inl e)
    then show ?thesis using load q rest_move[of s i, OF assms(2)] by (simp add: handle_request_def bind_run)
  next
    case (Inr v)
    then have "reaches env put po cat schema i s0 (move_to i (Serves req) u s)" using load q by simp
    from reaches_step[OF this] show ?thesis using q Inr rest_move[of s i, OF assms(2)]
      by (simp add: set_advance_def move_move handle_request_def bind_run)
  qed
qed

lemma create_is_run:
  assumes "sd_loader s = None" and "sd_pcs s i = Resting" and s0: "s0 = move_to i (Creates info) (sd_set s) s"
  shows "reaches env put po cat schema i s0 (s\<lparr>sd_set := snd (create_table env put po cat schema info (sd_set s))\<rparr>)"
proof -
  have "reaches env put po cat schema i s0 (move_to i (Creates info) (sd_set s) s)" unfolding s0 ..
  note step = reaches_step[OF this]
  obtain q u where q: "create_unmarked env put po cat schema info (sd_set s) = (q, u)"
    by (cases "create_unmarked env put po cat schema info (sd_set s)")
  show ?thesis
  proof (cases "q = Inr True")
    case True
    then have "reaches env put po cat schema i s0 (move_to i WaitsToMark u s)"
      using step q by (simp add: set_advance_def move_move)
    from reaches_step[OF this] show ?thesis using True q assms rest_move[of s i, OF assms(2)]
      by (simp add: set_advance_def move_move set_operation_parts(3) bind_run)
  next
    case False
    then show ?thesis using step q rest_move[of s i, OF assms(2)]
      by (cases q) (auto simp: set_advance_def move_move set_operation_parts(3) bind_run split: bool.splits)
  qed
qed

section \<open>Property\<close>

text \<open>
  A lookup sees every table of a current listing. In every interleaving, when a thread reads the map for a request, all
  tables of some listing are in it; that listing was fetched after every table that other threads had created and marked
  before this request was let in, and after every table this thread ever created.
\<close>

theorem lookups_see_current_listing:
  assumes "set_run env put po cat schema s es t" and "fresh_set s" and "sd_pcs t i = Serves req"
  shows "\<exists>us ts vs ws. es = us @ Listed ts # vs @ Ready i # ws \<and> Ready i \<notin> set ws \<and>
    list_all (\<lambda>e. case e of Listed _ \<Rightarrow> False | Marked j \<Rightarrow> False | Created j \<Rightarrow> j \<noteq> i | _ \<Rightarrow> True) vs \<and>
    list_all (\<lambda>x. map_of (us_tables (sd_set t)) (lower (tb_name x)) \<noteq> None) ts"
proof -
  have "thread_ok es t i" using set_run_inv[OF assms(1,2)] by (simp add: set_inv_def)
  then obtain us ts vs ws where e: "es = us @ Listed ts # vs @ Ready i # ws" "list_all unlisted vs" "Created i \<notin> set vs"
    "Ready i \<notin> set ws" "has_all (sd_set t) ts" using assms(3) unfolding thread_ok_def served_fresh_def by auto
  have "list_all (\<lambda>e. case e of Listed _ \<Rightarrow> False | Marked j \<Rightarrow> False | Created j \<Rightarrow> j \<noteq> i | _ \<Rightarrow> True) vs"
    using e(2,3) by (auto simp: list_all_iff split: set_event.split)
  then show ?thesis using e(1,4,5) by (intro exI[of _ us] exI[of _ ts] exI[of _ vs] exI[of _ ws])
    (simp add: has_all_def table_keys_iff)
qed

definition one_table :: env where
  "one_table = env_witness\<lparr>e_read := (\<lambda>_. Some (JObj [(''tables'', JArr [JObj
     [(''name'', JStr ''t''), (''table_type'', JStr ''MANAGED''), (''table_id'', JStr ''1'')]])]))\<rparr>"

definition unread_set :: shared_set where
  "unread_set = \<lparr>sd_set = set_witness\<lparr>us_tables := [], us_is_loaded := False\<rparr>, sd_loader = None, sd_pcs = (\<lambda>_. Resting)\<rparr>"

definition no_paths :: path_ops where
  "no_paths = \<lparr>po_path = (\<lambda>p ps. p), po_join = (@)\<rparr>"

definition two_lookups :: shared_set where
  "two_lookups = (let s = move_to 0 (WaitsToLoad ListAll) (sd_set unread_set) unread_set in
     move_to 1 (WaitsToLoad (LookUp ''T'' None)) (sd_set s) s)"

lemma lookups_see_current_listing_witness:
  "\<exists>es t. set_schedule one_table put_witness no_paths settings_witness ''s'' [0, 0, 0, 0, 0, 1, 1] two_lookups = Some (es, t) \<and>
     map fst (us_tables (sd_set t)) = [''t''] \<and> (\<exists>us ts vs ws. es = us @ Listed ts # vs @ Ready 1 # ws)"
proof -
  have "case set_schedule one_table put_witness no_paths settings_witness ''s'' [0, 0, 0, 0, 0, 1, 1] two_lookups of
      None \<Rightarrow> False | Some (es, t) \<Rightarrow> (case sd_pcs t 1 of Serves req \<Rightarrow> True | _ \<Rightarrow> False) \<and>
        map fst (us_tables (sd_set t)) = [''t'']" by code_simp
  then obtain es t where run: "set_schedule one_table put_witness no_paths settings_witness ''s'' [0, 0, 0, 0, 0, 1, 1] two_lookups
      = Some (es, t)" and at: "case sd_pcs t 1 of Serves req \<Rightarrow> True | _ \<Rightarrow> False" and keys: "map fst (us_tables (sd_set t)) = [''t'']"
    by (simp split: option.splits prod.splits del: set_schedule.simps)
  from at obtain req where t: "sd_pcs t 1 = Serves req" by (cases "sd_pcs t 1") auto
  have fresh: "fresh_set unread_set" by (simp add: fresh_set_def unread_set_def)
  have "set_run one_table put_witness no_paths settings_witness ''s'' unread_set [] two_lookups"
    unfolding two_lookups_def Let_def
    by (intro set_run.request set_run.start) (simp_all add: unread_set_def)
  from set_schedule_run[OF this run] have "set_run one_table put_witness no_paths settings_witness ''s'' unread_set es t" by simp
  from lookups_see_current_listing[OF this fresh t] have "\<exists>us ts vs ws. es = us @ Listed ts # vs @ Ready 1 # ws" by blast
  with run keys have "set_schedule one_table put_witness no_paths settings_witness ''s'' [0, 0, 0, 0, 0, 1, 1] two_lookups = Some (es, t) \<and>
      map fst (us_tables (sd_set t)) = [''t''] \<and> (\<exists>us ts vs ws. es = us @ Listed ts # vs @ Ready 1 # ws)" by (intro conjI)
  then show ?thesis by (intro exI)
qed

end
