(* ===== verification/UC_Catalog_Threads.thy ===== *)
theory UC_Catalog_Threads
  imports UC_Set_Threads UC_Sessions
begin

text \<open>
  Threads over a whole catalog. \<open>UCSchemaSet\<close> works under its one lock, which it holds while it asks the server, so a lookup
  of a schema is one step; it hands out a pointer to the schema, and the thread goes on with that after the lock is released.
  Each schema has its table set, on which threads move as in \<open>UC_Set_Threads\<close>; each thread has its own transaction.
  \<open>ClearCache\<close> destroys all schemas with their table sets, at any time.

  Schemas are objects under addresses that are not used again, so a pointer to a schema that is gone dangles
  instead of meaning another. The properties: what was handed out stays until the cache is cleared, and dangles from then on;
  and a lookup of a table sees a current listing, fetched after the last clearing, in every interleaving over all schemas.
\<close>

section \<open>State\<close>

record live_schema =
  ob_info :: schema_info
  ob_set :: shared_set

record shared_catalog =
  cd_hist :: "uc_call list"
  cd_availability :: availability
  cd_unavailable_since :: int
  cd_transactions :: "nat \<Rightarrow> live_transaction"
  cd_schemas :: "(string \<times> nat) list"
  cd_loaded :: bool
  cd_objects :: "nat \<Rightarrow> live_schema option"
  cd_next :: nat
  cd_handed :: "nat \<Rightarrow> nat list"
  cd_inside :: "nat \<Rightarrow> nat option"

text \<open>A schema as it is now, and the catalog as an operation of thread \<open>i\<close> finds it.\<close>

definition object_info :: "live_schema \<Rightarrow> schema_info" where
  "object_info ob = (ob_info ob)\<lparr>sh_tables := us_tables (sd_set (ob_set ob)),
     sh_tables_loaded := us_is_loaded (sd_set (ob_set ob))\<rparr>"

definition catalog_view :: "nat \<Rightarrow> shared_catalog \<Rightarrow> uc_state" where
  "catalog_view i c = \<lparr>hist = cd_hist c, sp_availability = cd_availability c, sp_unavailable_since = cd_unavailable_since c,
     tx_state = fst (cd_transactions c i), tx_entries = snd (cd_transactions c i),
     uc_schemas = map (\<lambda>(k, n). (k, object_info (the (cd_objects c n)))) (cd_schemas c), uc_schemas_loaded = cd_loaded c\<rparr>"

definition share :: "nat \<Rightarrow> 'x catalog_state_scheme \<Rightarrow> shared_catalog \<Rightarrow> shared_catalog" where
  "share i s c = c\<lparr>cd_hist := hist s, cd_availability := sp_availability s, cd_unavailable_since := sp_unavailable_since s,
     cd_transactions := (cd_transactions c)(i := (tx_state s, tx_entries s))\<rparr>"

section \<open>The schemas\<close>

text \<open>A new schema has a table set that no thread has begun with.\<close>

definition new_object :: "uc_state \<Rightarrow> schema_info \<Rightarrow> live_schema" where
  "new_object s si = \<lparr>ob_info = si, ob_set = \<lparr>sd_set = enter_schema si s, sd_loader = None, sd_pcs = (\<lambda>_. Resting)\<rparr>\<rparr>"

fun allocate :: "uc_state \<Rightarrow> (string \<times> schema_info) list \<Rightarrow> shared_catalog \<Rightarrow> shared_catalog" where
  "allocate s [] c = c"
| "allocate s ((k, si) # new) c = allocate s new
     (c\<lparr>cd_objects := (cd_objects c)(cd_next c \<mapsto> new_object s si), cd_schemas := cd_schemas c @ [(k, cd_next c)],
        cd_next := Suc (cd_next c)\<rparr>)"

definition schemas_added :: "nat \<Rightarrow> uc_state \<Rightarrow> shared_catalog \<Rightarrow> shared_catalog" where
  "schemas_added i t c =
     allocate t (drop (length (cd_schemas c)) (uc_schemas t)) ((share i t c)\<lparr>cd_loaded := uc_schemas_loaded t\<rparr>)"

definition hand_out :: "nat \<Rightarrow> nat list \<Rightarrow> shared_catalog \<Rightarrow> shared_catalog" where
  "hand_out i ns c = c\<lparr>cd_handed := (cd_handed c)(i := ns @ cd_handed c i)\<rparr>"

definition find_schema ::
  "env \<Rightarrow> catalog_settings \<Rightarrow> string \<Rightarrow> nat \<Rightarrow> string \<Rightarrow> shared_catalog \<Rightarrow> shared_catalog" where
  "find_schema env cat default_schema i name c =
     (case lookup_schema env cat default_schema name True (catalog_view i c) of (r, t) \<Rightarrow>
      let d = schemas_added i t c in
      case r of
        Inr (Some k) \<Rightarrow> hand_out i (case map_of (cd_schemas d) k of None \<Rightarrow> [] | Some n \<Rightarrow> [n]) d
      | _ \<Rightarrow> d)"

definition list_schemas :: "env \<Rightarrow> catalog_settings \<Rightarrow> nat \<Rightarrow> shared_catalog \<Rightarrow> shared_catalog" where
  "list_schemas env cat i c =
     (case ensure_schemas_loaded env cat (catalog_view i c) of (r, t) \<Rightarrow>
      let d = schemas_added i t c in
      case r of Inr u \<Rightarrow> hand_out i (map snd (cd_schemas d)) d | _ \<Rightarrow> d)"

definition drop_schemas :: "nat \<Rightarrow> shared_catalog \<Rightarrow> shared_catalog" where
  "drop_schemas i c =
     (case clear_cache (catalog_view i c) of (r, t) \<Rightarrow>
      (share i t c)\<lparr>cd_schemas := [], cd_loaded := uc_schemas_loaded t, cd_objects := (\<lambda>_. None)\<rparr>)"

section \<open>Threads\<close>

datatype table_use = ScanTable string api_table string | InsertInto string api_table

fun use_table :: "env \<Rightarrow> catalog_settings \<Rightarrow> string \<Rightarrow> table_use \<Rightarrow> (set_state, unit) io" where
  "use_table env cat schema (ScanTable k td at) = bind (get_scan_function env cat schema k td at) (\<lambda>_. ret ())"
| "use_table env cat schema (InsertInto k td) = on_table k (table_plan_insert env cat schema td)"

text \<open>
  A thread looks up schemas, works on the tables of one it holds a pointer to, begins an operation on its set
  and proceeds with it step by step, ends its transaction and starts the next, or clears the cache.
\<close>

datatype catalog_action =
    FindSchema string
  | ListSchemas
  | UseTable nat table_use
  | Ask nat set_request
  | CreateIn nat create_info
  | Proceed
  | NextTransaction
  | DropCache

datatype catalog_event = At nat set_event | Cleared | Silent

datatype catalog_outcome = Blocked | Dangles nat | Moves catalog_event shared_catalog

definition put_set :: "nat \<Rightarrow> nat \<Rightarrow> live_schema \<Rightarrow> shared_set \<Rightarrow> shared_catalog \<Rightarrow> shared_catalog" where
  "put_set i n ob s c = share i (sd_set s) (c\<lparr>cd_objects := (cd_objects c)(n \<mapsto> ob\<lparr>ob_set := s\<rparr>)\<rparr>)"

definition go_inside :: "nat \<Rightarrow> nat option \<Rightarrow> shared_catalog \<Rightarrow> shared_catalog" where
  "go_inside i w c = c\<lparr>cd_inside := (cd_inside c)(i := w)\<rparr>"

text \<open>The set of an object as thread \<open>i\<close> enters it.\<close>

definition open_set :: "nat \<Rightarrow> shared_catalog \<Rightarrow> live_schema \<Rightarrow> shared_set" where
  "open_set i c ob = (ob_set ob)\<lparr>sd_set := enter_schema (object_info ob) (catalog_view i c)\<rparr>"

definition object_name :: "live_schema \<Rightarrow> string" where
  "object_name ob = sc_schema_name (sh_data (ob_info ob))"

text \<open>The schema an action of a thread follows a pointer to.\<close>

fun touches :: "nat \<Rightarrow> catalog_action \<Rightarrow> shared_catalog \<Rightarrow> nat option" where
  "touches i (UseTable n u) c = (if cd_inside c i = None \<and> n \<in> set (cd_handed c i) then Some n else None)"
| "touches i (Ask n req) c = (if cd_inside c i = None \<and> n \<in> set (cd_handed c i) then Some n else None)"
| "touches i (CreateIn n info) c = (if cd_inside c i = None \<and> n \<in> set (cd_handed c i) then Some n else None)"
| "touches i Proceed c = cd_inside c i"
| "touches i _ c = None"

fun object_act ::
  "env \<Rightarrow> put_fun \<Rightarrow> path_ops \<Rightarrow> catalog_settings \<Rightarrow> nat \<Rightarrow> catalog_action \<Rightarrow> nat \<Rightarrow> live_schema \<Rightarrow> shared_catalog
    \<Rightarrow> catalog_outcome" where
  "object_act env put po cat i (UseTable n u) m ob c =
     Moves Silent (put_set i m ob ((ob_set ob)\<lparr>sd_set := snd (use_table env cat (object_name ob) u (sd_set (open_set i c ob)))\<rparr>) c)"
| "object_act env put po cat i (Ask n req) m ob c =
     Moves Silent (go_inside i (Some m)
       (put_set i m ob (move_to i (WaitsToLoad req) (sd_set (open_set i c ob)) (ob_set ob)) c))"
| "object_act env put po cat i (CreateIn n info) m ob c =
     Moves Silent (go_inside i (Some m)
       (put_set i m ob (move_to i (Creates info) (sd_set (open_set i c ob)) (ob_set ob)) c))"
| "object_act env put po cat i _ m ob c =
     (case set_advance env put po cat (object_name ob) i (open_set i c ob) of
        None \<Rightarrow> Blocked
      | Some (e, s) \<Rightarrow> Moves (At m e)
          (go_inside i (case sd_pcs s i of Resting \<Rightarrow> None | _ \<Rightarrow> Some m) (put_set i m ob s c)))"

text \<open>What a thread does when it is inside no table set.\<close>

fun catalog_wide :: "env \<Rightarrow> catalog_settings \<Rightarrow> string \<Rightarrow> nat \<Rightarrow> catalog_action \<Rightarrow> shared_catalog \<Rightarrow> catalog_outcome" where
  "catalog_wide env cat default_schema i (FindSchema name) c = Moves Silent (find_schema env cat default_schema i name c)"
| "catalog_wide env cat default_schema i ListSchemas c = Moves Silent (list_schemas env cat i c)"
| "catalog_wide env cat default_schema i NextTransaction c = Moves Silent
     (share i (snd (start_transaction (snd (commit_transaction (catalog_view i c))))) c)"
| "catalog_wide env cat default_schema i DropCache c = Moves Cleared (drop_schemas i c)"
| "catalog_wide env cat default_schema i _ c = Blocked"

definition catalog_act ::
  "env \<Rightarrow> put_fun \<Rightarrow> path_ops \<Rightarrow> catalog_settings \<Rightarrow> string \<Rightarrow> nat \<Rightarrow> catalog_action \<Rightarrow> shared_catalog \<Rightarrow> catalog_outcome" where
  "catalog_act env put po cat default_schema i a c =
     (case touches i a c of
        Some n \<Rightarrow> (case cd_objects c n of None \<Rightarrow> Dangles n | Some ob \<Rightarrow> object_act env put po cat i a n ob c)
      | None \<Rightarrow> if cd_inside c i = None then catalog_wide env cat default_schema i a c else Blocked)"

inductive catalog_run ::
  "env \<Rightarrow> put_fun \<Rightarrow> path_ops \<Rightarrow> catalog_settings \<Rightarrow> string \<Rightarrow> shared_catalog \<Rightarrow> catalog_event list \<Rightarrow> shared_catalog \<Rightarrow> bool"
  for env put po cat default_schema c where
  start: "catalog_run env put po cat default_schema c [] c"
| act: "catalog_run env put po cat default_schema c es d
    \<Longrightarrow> catalog_act env put po cat default_schema i a d = Moves e d'
    \<Longrightarrow> catalog_run env put po cat default_schema c (es @ [e]) d'"

text \<open>The actions of the threads named, in turn.\<close>

fun catalog_schedule ::
  "env \<Rightarrow> put_fun \<Rightarrow> path_ops \<Rightarrow> catalog_settings \<Rightarrow> string \<Rightarrow> (nat \<times> catalog_action) list \<Rightarrow> shared_catalog
    \<Rightarrow> (catalog_event list \<times> shared_catalog) option" where
  "catalog_schedule env put po cat default_schema [] c = Some ([], c)"
| "catalog_schedule env put po cat default_schema ((i, a) # acts) c =
     (case catalog_act env put po cat default_schema i a c of
        Moves e d \<Rightarrow> map_option (apfst ((#) e)) (catalog_schedule env put po cat default_schema acts d)
      | _ \<Rightarrow> None)"

lemma catalog_schedule_run:
  "catalog_run env put po cat default_schema s es c \<Longrightarrow> catalog_schedule env put po cat default_schema acts c = Some (fs, d) \<Longrightarrow>
     catalog_run env put po cat default_schema s (es @ fs) d"
proof (induction acts arbitrary: es c fs)
  case (Cons act acts)
  obtain i a where act: "act = (i, a)" by (cases act)
  obtain e c' fs' where step: "catalog_act env put po cat default_schema i a c = Moves e c'"
    and rest: "catalog_schedule env put po cat default_schema acts c' = Some (fs', d)" "fs = e # fs'"
    using Cons.prems(2) act by (auto split: catalog_outcome.splits)
  from Cons.IH[OF catalog_run.act[OF Cons.prems(1) step] rest(1)] rest(2) show ?case by simp
qed simp

text \<open>A catalog as ATTACH makes it.\<close>

definition new_catalog :: "shared_catalog \<Rightarrow> bool" where
  "new_catalog c \<longleftrightarrow> cd_schemas c = [] \<and> \<not> cd_loaded c \<and> cd_objects c = (\<lambda>_. None) \<and> cd_handed c = (\<lambda>_. []) \<and>
     cd_inside c = (\<lambda>_. None)"

section \<open>What the operations of the catalog do to its schemas\<close>

definition adds_schemas :: "uc_state \<Rightarrow> uc_state \<Rightarrow> bool" where
  "adds_schemas s t \<longleftrightarrow> (\<exists>xs. uc_schemas t = uc_schemas s @ map (\<lambda>x. (lower (sc_schema_name x), new_schema_info x)) xs)"

interpretation as: effect_order adds_schemas
proof unfold_locales
  fix s t u :: uc_state
  show "adds_schemas s s" by (simp add: adds_schemas_def exI[of _ "[]"])
  assume "adds_schemas s t" "adds_schemas t u"
  then obtain xs ys where "uc_schemas t = uc_schemas s @ map (\<lambda>x. (lower (sc_schema_name x), new_schema_info x)) xs"
    "uc_schemas u = uc_schemas t @ map (\<lambda>x. (lower (sc_schema_name x), new_schema_info x)) ys"
    unfolding adds_schemas_def by blast
  then show "adds_schemas s u" unfolding adds_schemas_def by (intro exI[of _ "xs @ ys"]) simp
qed

lemma adds_schemas_same: "uc_schemas t = uc_schemas s \<Longrightarrow> adds_schemas s t"
  by (simp add: adds_schemas_def exI[of _ "[]"])

lemma wrote_adds: "wrote s t \<Longrightarrow> adds_schemas s t"
proof (rule adds_schemas_same)
  assume "wrote s t"
  then obtain h where "t = s\<lparr>hist := h\<rparr>" by (auto simp: wrote_def)
  then show "uc_schemas t = uc_schemas s" by simp
qed

lemma keeps_wrote_adds: "keeps wrote m \<Longrightarrow> keeps adds_schemas m"
  by (simp add: keeps_def wrote_adds)

lemma adds_ensure: "keeps adds_schemas (ensure_schemas_loaded env cat)"
proof -
  have "keeps adds_schemas (add_schema_entry (new_schema_info x))" for x
    by (auto simp: keeps_def add_schema_entry_def Let_def adds_schemas_def new_schema_info_def
      intro: exI[of _ "[]"] exI[of _ "[x]"])
  then have "keeps adds_schemas (add_schemas xs)" for xs
    by (induction xs) (auto intro!: as.keeps_pure as.keeps_bind simp del: run_simps)
  moreover have "keeps adds_schemas (get_schemas env db creds)" for db creds
    by (rule keeps_wrote_adds[OF keeps_get_schemas])
  moreover have "keeps adds_schemas (modify (uc_schemas_loaded_update f))" for f
    by (simp add: keeps_def adds_schemas_same)
  ultimately show ?thesis unfolding ensure_schemas_loaded_def load_schemas_def load_if_needed_def
    by (auto intro!: as.keeps_pure as.keeps_bind)
qed

lemma adds_lookup_schema: "keeps adds_schemas (lookup_schema env cat default_schema name return_null)"
  unfolding lookup_schema_def lookup_schema_entry_def get_schema_entry_def
  by (auto intro!: as.keeps_pure as.keeps_bind adds_ensure)

text \<open>So the schemas that an operation adds have sets no thread has begun with.\<close>

definition unread_schemas :: "(string \<times> schema_info) list \<Rightarrow> bool" where
  "unread_schemas new \<longleftrightarrow> list_all (\<lambda>(k, si). sh_tables si = [] \<and> \<not> sh_tables_loaded si) new"

lemma catalog_view_keys: "map fst (uc_schemas (catalog_view i c)) = map fst (cd_schemas c)"
  by (simp add: catalog_view_def comp_def case_prod_unfold)

lemma added_unread:
  assumes "adds_schemas (catalog_view i c) t"
  shows "unread_schemas (drop (length (cd_schemas c)) (uc_schemas t))"
proof -
  have "length (uc_schemas (catalog_view i c)) = length (cd_schemas c)" by (simp add: catalog_view_def)
  then show ?thesis using assms by (auto simp: adds_schemas_def unread_schemas_def list_all_iff new_schema_info_def)
qed

lemma open_set_same: "same_tables (sd_set (ob_set ob)) (sd_set (open_set i c ob))"
  by (simp add: same_tables_def open_set_def enter_schema_def object_info_def handed_out_def fun_eq_iff)

lemma use_table_same: "same_tables s (snd (use_table env cat schema u s))"
proof -
  have "keeps same_tables (use_table env cat schema u)"
    by (cases u) (auto intro!: sk.tset.keeps_bind sk.tset.keeps_pure sk.S_get_scan_function sk.S_on_table simp del: run_simps)
  then show ?thesis by (simp add: keeps_def)
qed

section \<open>The invariant of a run\<close>

definition event_of :: "nat \<Rightarrow> catalog_event \<Rightarrow> set_event option" where
  "event_of n e = (case e of At m x \<Rightarrow> if m = n then Some x else None | _ \<Rightarrow> None)"

definition events_of :: "nat \<Rightarrow> catalog_event list \<Rightarrow> set_event list" where
  "events_of n es = List.map_filter (event_of n) es"

lemma events_of_simps [simp]:
  "events_of n [] = []" "events_of n (es @ fs) = events_of n es @ events_of n fs"
  "events_of n [At m x] = (if m = n then [x] else [])" "events_of n [Cleared] = []" "events_of n [Silent] = []"
  by (simp_all add: events_of_def event_of_def map_filter_def)

text \<open>All that happened to a schema that is there happened after the last clearing, and is a run of its set.\<close>

definition object_ok ::
  "env \<Rightarrow> put_fun \<Rightarrow> path_ops \<Rightarrow> catalog_settings \<Rightarrow> catalog_event list \<Rightarrow> shared_catalog \<Rightarrow> nat \<Rightarrow> live_schema \<Rightarrow> bool" where
  "object_ok env put po cat es c n ob \<longleftrightarrow>
     (\<exists>fs gs. es = fs @ gs \<and> Cleared \<notin> set gs \<and> events_of n fs = []) \<and>
     (\<exists>t. fresh_set t \<and> set_run env put po cat (object_name ob) t (events_of n es) (ob_set ob)) \<and>
     (\<forall>i. cd_inside c i \<noteq> Some n \<longrightarrow> sd_pcs (ob_set ob) i = Resting)"

definition catalog_inv ::
  "env \<Rightarrow> put_fun \<Rightarrow> path_ops \<Rightarrow> catalog_settings \<Rightarrow> catalog_event list \<Rightarrow> shared_catalog \<Rightarrow> bool" where
  "catalog_inv env put po cat es c \<longleftrightarrow>
     (\<forall>n ob. cd_objects c n = Some ob \<longrightarrow> n < cd_next c \<and> object_ok env put po cat es c n ob) \<and>
     (\<forall>n. cd_next c \<le> n \<longrightarrow> events_of n es = []) \<and>
     (\<forall>p \<in> set (cd_schemas c). cd_objects c (snd p) \<noteq> None)"

lemma catalog_inv_share [simp]:
  "catalog_inv env put po cat es (share i s c) = catalog_inv env put po cat es c"
  "catalog_inv env put po cat es (hand_out i ns c) = catalog_inv env put po cat es c"
  "catalog_inv env put po cat es (cd_loaded_update f c) = catalog_inv env put po cat es c"
  by (simp_all add: catalog_inv_def object_ok_def share_def hand_out_def)

lemma catalog_inv_silent: "catalog_inv env put po cat es c \<Longrightarrow> catalog_inv env put po cat (es @ [Silent]) c"
  by (fastforce simp: catalog_inv_def object_ok_def)

lemma catalog_inv_allocate:
  "catalog_inv env put po cat es c \<Longrightarrow> unread_schemas new \<Longrightarrow> catalog_inv env put po cat es (allocate s new c)"
proof (induction s new c rule: allocate.induct)
  case (2 s k si new c)
  let ?d = "c\<lparr>cd_objects := (cd_objects c)(cd_next c \<mapsto> new_object s si), cd_schemas := cd_schemas c @ [(k, cd_next c)],
    cd_next := Suc (cd_next c)\<rparr>"
  have none: "events_of (cd_next c) es = []" using 2(2) by (simp add: catalog_inv_def)
  have "fresh_set (ob_set (new_object s si))"
    using 2(3) by (simp add: fresh_set_def new_object_def enter_schema_def unread_schemas_def)
  moreover have "\<exists>fs gs. es = fs @ gs \<and> Cleared \<notin> set gs \<and> events_of (cd_next c) fs = []"
    using none by (intro exI[of _ es] exI[of _ "[]"]) simp
  moreover have "sd_pcs (ob_set (new_object s si)) i = Resting" for i by (simp add: new_object_def)
  ultimately have "object_ok env put po cat es ?d (cd_next c) (new_object s si)"
    unfolding object_ok_def none using set_run.start by blast
  then have "catalog_inv env put po cat es ?d" using 2(2)
    by (auto simp: catalog_inv_def object_ok_def less_Suc_eq)
  then show ?case using 2(1) 2(3) by (simp add: unread_schemas_def)
qed simp

lemma catalog_inv_added:
  assumes "catalog_inv env put po cat es c" and "adds_schemas (catalog_view i c) t"
  shows "catalog_inv env put po cat es (schemas_added i t c)"
  unfolding schemas_added_def using assms(1) added_unread[OF assms(2)] by (intro catalog_inv_allocate) simp_all

lemma catalog_inv_cleared:
  assumes "catalog_inv env put po cat es c"
  shows "catalog_inv env put po cat (es @ [Cleared]) (drop_schemas i c)"
  using assms by (simp add: catalog_inv_def drop_schemas_def share_def split: prod.split)

text \<open>A step of thread \<open>i\<close> on the set of object \<open>n\<close>, inside which it may be or is then.\<close>

lemma catalog_inv_put:
  assumes inv: "catalog_inv env put po cat es c" and ob: "cd_objects c n = Some ob"
    and at: "cd_inside c i = None \<or> cd_inside c i = Some n"
    and run: "\<And>t es'. set_run env put po cat (object_name ob) t es' (ob_set ob)
      \<Longrightarrow> set_run env put po cat (object_name ob) t (es' @ events_of n [e]) s"
    and others: "\<And>j. j \<noteq> i \<Longrightarrow> sd_pcs s j = sd_pcs (ob_set ob) j"
    and self: "w \<noteq> Some n \<Longrightarrow> w = None \<and> sd_pcs s i = Resting"
    and e: "e = Silent \<or> (\<exists>x. e = At n x)"
  shows "catalog_inv env put po cat (es @ [e]) (go_inside i w (put_set i n ob s c))"
proof -
  let ?d = "go_inside i w (put_set i n ob s c)"
  have objects: "cd_objects ?d = (cd_objects c)(n \<mapsto> ob\<lparr>ob_set := s\<rparr>)" and inside: "cd_inside ?d = (cd_inside c)(i := w)"
    and rest: "cd_next ?d = cd_next c" "cd_schemas ?d = cd_schemas c"
    by (simp_all add: go_inside_def put_set_def share_def)
  have bound: "n < cd_next c" and ok: "object_ok env put po cat es c n ob"
    using inv ob by (auto simp: catalog_inv_def)
  have elsewhere: "events_of m [e] = []" if "m \<noteq> n" for m using e that by auto
  have "object_ok env put po cat (es @ [e]) ?d m ob'" if m: "cd_objects ?d m = Some ob'" for m ob'
  proof -
    obtain om where om: "cd_objects c m = Some om" "object_ok env put po cat es c m om"
      using m inv ok ob by (cases "m = n") (auto simp: objects catalog_inv_def)
    then obtain fs gs where "es = fs @ gs" "Cleared \<notin> set gs" "events_of m fs = []" by (auto simp: object_ok_def)
    then have since: "\<exists>fs gs. es @ [e] = fs @ gs \<and> Cleared \<notin> set gs \<and> events_of m fs = []"
      using e by (intro exI[of _ fs] exI[of _ "gs @ [e]"]) auto
    have resting: "\<forall>j. cd_inside ?d j \<noteq> Some m \<longrightarrow> sd_pcs (ob_set ob') j = Resting"
      using om m at self others ob by (auto simp: object_ok_def inside objects split: if_splits)
    show ?thesis
    proof (cases "m = n")
      case True
      then have "ob' = ob\<lparr>ob_set := s\<rparr>" using m by (simp add: objects)
      then show ?thesis using since resting run ok True by (auto simp: object_ok_def object_name_def)
    next
      case False
      then have "ob' = om" using m om(1) by (simp add: objects)
      then show ?thesis using since resting om(2) elsewhere[OF False] by (simp add: object_ok_def)
    qed
  qed
  moreover have "m < cd_next ?d" if "cd_objects ?d m \<noteq> None" for m
    using that inv bound by (cases "m = n") (auto simp: objects rest catalog_inv_def)
  moreover have "events_of m (es @ [e]) = []" if "cd_next ?d \<le> m" for m
    using that inv bound elsewhere[of m] by (auto simp: rest catalog_inv_def)
  moreover have "cd_objects ?d (snd p) \<noteq> None" if "p \<in> set (cd_schemas ?d)" for p
    using that inv by (auto simp: rest objects catalog_inv_def)
  ultimately show ?thesis by (auto simp: catalog_inv_def)
qed

lemma set_advance_pcs:
  assumes "set_advance env put po cat schema i s = Some (e, u)" and "j \<noteq> i"
  shows "sd_pcs u j = sd_pcs s j"
  using assms(1) by (cases rule: set_advance_cases) (use assms(2) in auto)

lemma open_set_pcs [simp]: "sd_pcs (open_set i c ob) = sd_pcs (ob_set ob)"
  by (simp add: open_set_def)

lemma open_set_run:
  "set_run env put po cat schema t es (ob_set ob) \<Longrightarrow> set_run env put po cat schema t es (open_set i c ob)"
  unfolding open_set_def using set_run.outside[of env put po cat schema t es "ob_set ob"] open_set_same[of ob i c]
  by (simp add: open_set_def)

lemma catalog_act_cases:
  assumes "catalog_act env put po cat default_schema i a c = Moves e d"
  obtains (wide) "cd_inside c i = None" "catalog_wide env cat default_schema i a c = Moves e d"
  | (uses) n u ob where "cd_inside c i = None" "cd_objects c n = Some ob" "e = Silent"
      "d = put_set i n ob ((ob_set ob)\<lparr>sd_set := snd (use_table env cat (object_name ob) u (sd_set (open_set i c ob)))\<rparr>) c"
  | (begins) n pc ob where "cd_inside c i = None" "cd_objects c n = Some ob" "e = Silent"
      "(\<exists>req. pc = WaitsToLoad req) \<or> (\<exists>info. pc = Creates info)"
      "d = go_inside i (Some n) (put_set i n ob (move_to i pc (sd_set (open_set i c ob)) (ob_set ob)) c)"
  | (proceed) n ob x s where "cd_inside c i = Some n" "cd_objects c n = Some ob" "e = At n x"
      "set_advance env put po cat (object_name ob) i (open_set i c ob) = Some (x, s)"
      "d = go_inside i (case sd_pcs s i of Resting \<Rightarrow> None | _ \<Rightarrow> Some n) (put_set i n ob s c)"
proof (cases a)
  case (UseTable n u)
  then show ?thesis using assms wide uses[of n _ u] by (auto simp: catalog_act_def split: if_splits option.splits)
next
  case (Ask n req)
  then show ?thesis using assms wide begins[where n = n and pc = "WaitsToLoad req"]
    by (auto simp: catalog_act_def split: if_splits option.splits)
next
  case (CreateIn n info)
  then show ?thesis using assms wide begins[where n = n and pc = "Creates info"]
    by (auto simp: catalog_act_def split: if_splits option.splits)
next
  case Proceed
  then show ?thesis using assms proceed by (auto simp: catalog_act_def split: if_splits option.splits)
qed (use assms wide in \<open>auto simp: catalog_act_def split: if_splits\<close>)

text \<open>What is left of the operations that work on the schema set: schemas are added, references handed out.\<close>

lemma added_by_lookup:
  obtains t ns where "find_schema env cat default_schema i name c = hand_out i ns (schemas_added i t c)"
    "adds_schemas (catalog_view i c) t" "set ns \<subseteq> snd ` set (cd_schemas (schemas_added i t c))"
proof -
  obtain r t where run: "lookup_schema env cat default_schema name True (catalog_view i c) = (r, t)"
    by (cases "lookup_schema env cat default_schema name True (catalog_view i c)")
  let ?d = "schemas_added i t c"
  let ?ns = "case r of Inr (Some k) \<Rightarrow> (case map_of (cd_schemas ?d) k of None \<Rightarrow> [] | Some n \<Rightarrow> [n]) | _ \<Rightarrow> []"
  have "find_schema env cat default_schema i name c = hand_out i ?ns ?d"
    using run by (auto simp: find_schema_def Let_def hand_out_def split: sum.split option.split)
  moreover have "set ?ns \<subseteq> snd ` set (cd_schemas ?d)"
    by (auto split: sum.split option.split) (metis imageI map_of_SomeD snd_conv)
  ultimately show thesis using that as.keepsD[OF adds_lookup_schema run] by blast
qed

lemma added_by_listing:
  obtains t ns where "list_schemas env cat i c = hand_out i ns (schemas_added i t c)" "adds_schemas (catalog_view i c) t"
    "set ns \<subseteq> snd ` set (cd_schemas (schemas_added i t c))"
proof -
  obtain r t where run: "ensure_schemas_loaded env cat (catalog_view i c) = (r, t)"
    by (cases "ensure_schemas_loaded env cat (catalog_view i c)")
  have "hand_out i [] d = d" for d by (simp add: hand_out_def)
  then have "\<exists>ns. list_schemas env cat i c = hand_out i ns (schemas_added i t c) \<and>
      set ns \<subseteq> snd ` set (cd_schemas (schemas_added i t c))"
    using run by (cases r) (auto simp: list_schemas_def Let_def intro: exI[of _ "[]"] exI[of _ "map snd (cd_schemas (schemas_added i t c))"])
  then show thesis using that as.keepsD[OF adds_ensure run] by blast
qed

lemma catalog_wide_cases:
  assumes "catalog_wide env cat default_schema i a c = Moves e d"
  obtains (added) t ns where "e = Silent" "d = hand_out i ns (schemas_added i t c)" "adds_schemas (catalog_view i c) t"
      "set ns \<subseteq> snd ` set (cd_schemas (schemas_added i t c))"
  | (shared) t where "e = Silent" "d = share i (t :: uc_state) c"
  | (cleared) "e = Cleared" "d = drop_schemas i c"
proof (cases a)
  case (FindSchema name)
  obtain t ns where "find_schema env cat default_schema i name c = hand_out i ns (schemas_added i t c)"
    "adds_schemas (catalog_view i c) t" "set ns \<subseteq> snd ` set (cd_schemas (schemas_added i t c))" by (rule added_by_lookup)
  then show ?thesis using assms FindSchema added[of ns t] by simp
next
  case ListSchemas
  obtain t ns where "list_schemas env cat i c = hand_out i ns (schemas_added i t c)" "adds_schemas (catalog_view i c) t"
    "set ns \<subseteq> snd ` set (cd_schemas (schemas_added i t c))" by (rule added_by_listing)
  then show ?thesis using assms ListSchemas added[of ns t] by simp
qed (use assms shared cleared in auto)

lemma catalog_wide_inv:
  assumes "catalog_wide env cat default_schema i a c = Moves e d" and "catalog_inv env put po cat es c"
  shows "catalog_inv env put po cat (es @ [e]) d"
  using assms(1) by (cases rule: catalog_wide_cases)
    (use catalog_inv_silent[OF assms(2)] catalog_inv_cleared[OF assms(2)] catalog_inv_added in auto)

lemma catalog_inv_resting:
  assumes "catalog_inv env put po cat es c" and "cd_objects c n = Some ob" and "cd_inside c i \<noteq> Some n"
  shows "sd_pcs (ob_set ob) i = Resting"
  using assms by (auto simp: catalog_inv_def object_ok_def)

lemma catalog_act_inv:
  assumes "catalog_act env put po cat default_schema i a c = Moves e d" and inv: "catalog_inv env put po cat es c"
  shows "catalog_inv env put po cat (es @ [e]) d"
  using assms(1)
proof (cases rule: catalog_act_cases)
  case wide
  then show ?thesis using catalog_wide_inv inv by blast
next
  case (uses n u ob)
  let ?s = "(ob_set ob)\<lparr>sd_set := snd (use_table env cat (object_name ob) u (sd_set (open_set i c ob)))\<rparr>"
  have same: "same_tables (sd_set (ob_set ob)) (sd_set ?s)"
    using open_set_same[of ob i c] use_table_same[of "sd_set (open_set i c ob)" env cat "object_name ob" u]
    by (simp add: same_tables_def)
  have "go_inside i None (put_set i n ob ?s c) = d"
    using uses by (simp add: go_inside_def put_set_def share_def fun_upd_idem)
  moreover have "set_run env put po cat (object_name ob) t es' ?s" if "set_run env put po cat (object_name ob) t es' (ob_set ob)" for t es'
    using set_run.outside[OF that same] by simp
  ultimately show ?thesis
    using catalog_inv_put[OF inv uses(2), of i e ?s None] uses catalog_inv_resting[OF inv uses(2), of i] by simp
next
  case (begins n pc ob)
  have "sd_pcs (open_set i c ob) i = Resting" using begins catalog_inv_resting[OF inv begins(2), of i] by simp
  then have "set_run env put po cat (object_name ob) t es' (move_to i pc (sd_set (open_set i c ob)) (open_set i c ob))"
    if "set_run env put po cat (object_name ob) t es' (ob_set ob)" for t es'
    using begins(4) set_run.request[OF open_set_run[OF that]] set_run.create[OF open_set_run[OF that]] by auto
  moreover have "move_to i pc (sd_set (open_set i c ob)) (open_set i c ob) = move_to i pc (sd_set (open_set i c ob)) (ob_set ob)"
    by (simp add: move_to_def open_set_def)
  ultimately show ?thesis
    unfolding begins(5) using begins(1,3) by (intro catalog_inv_put[OF inv begins(2)]) auto
next
  case (proceed n ob x s)
  have "set_run env put po cat (object_name ob) t (es' @ [x]) s" if "set_run env put po cat (object_name ob) t es' (ob_set ob)" for t es'
    using set_run.advance[OF open_set_run[OF that] proceed(4)] .
  then show ?thesis unfolding proceed(5) using proceed(1,3) set_advance_pcs[OF proceed(4)]
    by (intro catalog_inv_put[OF inv proceed(2)]) (auto split: set_pc.splits)
qed

lemma catalog_run_inv:
  assumes "catalog_run env put po cat default_schema c es d" and "new_catalog c"
  shows "catalog_inv env put po cat es d"
  using assms(1)
proof induction
  case start
  then show ?case using assms(2) by (simp add: catalog_inv_def new_catalog_def)
qed (rule catalog_act_inv)

section \<open>What becomes of a schema\<close>

text \<open>A schema and the tables it handed out stay as they were, among others that come later.\<close>

definition kept :: "live_schema \<Rightarrow> live_schema \<Rightarrow> bool" where
  "kept ob ob' \<longleftrightarrow> ob_info ob' = ob_info ob \<and>
     handed_out (sd_set (ob_set ob)) \<subseteq>\<^sub>m handed_out (sd_set (ob_set ob'))"

lemma kept_refl: "kept ob ob"
  by (simp add: kept_def)

lemma kept_trans: "kept ob ob' \<Longrightarrow> kept ob' ob'' \<Longrightarrow> kept ob ob''"
  by (auto simp: kept_def intro: map_le_trans)

definition fate :: "bool \<Rightarrow> live_schema option \<Rightarrow> live_schema option \<Rightarrow> bool" where
  "fate cleared x y \<longleftrightarrow> (if cleared then y = None else rel_option kept x y)"

lemma fate_same: "fate False x x"
  by (cases x) (simp_all add: fate_def kept_refl)

lemma fate_trans: "fate p x y \<Longrightarrow> fate q y z \<Longrightarrow> fate (p \<or> q) x z"
  by (cases x; cases y; cases z) (auto simp: fate_def kept_trans split: if_splits)

lemma allocate_old: "n < cd_next c \<Longrightarrow> cd_objects (allocate s new c) n = cd_objects c n"
  and allocate_next: "cd_next c \<le> cd_next (allocate s new c)"
  by (induction s new c rule: allocate.induct) auto

lemma allocate_handed: "cd_handed (allocate s new c) = cd_handed c" "cd_inside (allocate s new c) = cd_inside c"
  by (induction s new c rule: allocate.induct) auto

lemma schemas_added_old:
  "n < cd_next c \<Longrightarrow> cd_objects (schemas_added i t c) n = cd_objects c n" "cd_next c \<le> cd_next (schemas_added i t c)"
  using allocate_old[of n "(share i t c)\<lparr>cd_loaded := uc_schemas_loaded t\<rparr>"]
    allocate_next[of "(share i t c)\<lparr>cd_loaded := uc_schemas_loaded t\<rparr>"]
  by (simp_all add: schemas_added_def share_def)

lemma put_set_fate:
  assumes "cd_objects c m = Some ob" and "handed_out (sd_set (ob_set ob)) \<subseteq>\<^sub>m handed_out (sd_set s)"
  shows "fate False (cd_objects c n) (cd_objects (put_set i m ob s c) n)" "cd_next (put_set i m ob s c) = cd_next c"
  using assms by (auto simp: put_set_def share_def fate_def kept_def kept_refl option.rel_refl)

lemma go_inside_simps [simp]:
  "cd_objects (go_inside i w c) = cd_objects c" "cd_next (go_inside i w c) = cd_next c"
  "cd_schemas (go_inside i w c) = cd_schemas c" "cd_handed (go_inside i w c) = cd_handed c"
  "cd_inside (go_inside i w c) = (cd_inside c)(i := w)"
  by (simp_all add: go_inside_def)

lemma catalog_act_fate:
  assumes "catalog_act env put po cat default_schema i a c = Moves e d" and "n < cd_next c"
  shows "fate (e = Cleared) (cd_objects c n) (cd_objects d n) \<and> cd_next c \<le> cd_next d"
  using assms(1)
proof (cases rule: catalog_act_cases)
  case wide
  from wide(2) show ?thesis
  proof (cases rule: catalog_wide_cases)
    case (added t ns)
    then show ?thesis using schemas_added_old(1)[of n c i t] schemas_added_old(2)[of c i t] assms(2) by (simp add: hand_out_def fate_same)
  next
    case cleared
    then show ?thesis by (simp add: drop_schemas_def share_def fate_def split: prod.split)
  qed (simp add: share_def fate_same)
next
  case (uses m u ob)
  have "handed_out (sd_set (ob_set ob)) \<subseteq>\<^sub>m
      handed_out (snd (use_table env cat (object_name ob) u (sd_set (open_set i c ob))))"
    using open_set_same[of ob i c] use_table_same[of "sd_set (open_set i c ob)" env cat "object_name ob" u]
    by (simp add: same_tables_def)
  then show ?thesis using put_set_fate[OF uses(2)] uses by simp
next
  case (begins m pc ob)
  have "handed_out (sd_set (ob_set ob)) \<subseteq>\<^sub>m handed_out (sd_set (open_set i c ob))"
    using open_set_same[of ob i c] by (simp add: same_tables_def)
  then show ?thesis using put_set_fate[OF begins(2)] begins by simp
next
  case (proceed m ob x s)
  have "handed_out (sd_set (ob_set ob)) \<subseteq>\<^sub>m handed_out (sd_set s)"
    using open_set_same[of ob i c] set_advance_handed[OF proceed(4)] by (simp add: same_tables_def)
  then show ?thesis using put_set_fate[OF proceed(2)] proceed by simp
qed

lemma catalog_run_fate:
  assumes "catalog_run env put po cat default_schema c es d" and "n < cd_next c"
  shows "fate (Cleared \<in> set es) (cd_objects c n) (cd_objects d n) \<and> cd_next c \<le> cd_next d"
  using assms(1)
proof induction
  case (act es d i a e d')
  then have "n < cd_next d" using assms(2) by simp
  then have "fate (e = Cleared) (cd_objects d n) (cd_objects d' n)" "cd_next d \<le> cd_next d'"
    using catalog_act_fate[OF act(2)] by auto
  moreover have "(Cleared \<in> set (es @ [e])) = (Cleared \<in> set es \<or> e = Cleared)" by auto
  ultimately show ?case using fate_trans act.IH by (simp only:) fastforce
qed (simp add: fate_same)

section \<open>The listing a lookup goes by\<close>

lemma events_of_split:
  "events_of n es = us @ x # vs \<Longrightarrow> \<exists>us' vs'. es = us' @ At n x # vs' \<and> events_of n us' = us \<and> events_of n vs' = vs"
proof (induction es arbitrary: us)
  case (Cons e es)
  have es: "events_of n (e # es) = events_of n [e] @ events_of n es" using events_of_simps(2)[of n "[e]" es] by simp
  show ?case
  proof (cases "event_of n e")
    case None
    then have e: "events_of n [e] = []" by (simp add: events_of_def map_filter_def)
    then have "events_of n es = us @ x # vs" using Cons.prems es by simp
    then obtain us' vs' where "es = us' @ At n x # vs'" "events_of n us' = us" "events_of n vs' = vs" using Cons.IH by blast
    moreover have "events_of n (e # us') = events_of n us'" using e events_of_simps(2)[of n "[e]" us'] by simp
    ultimately show ?thesis by (intro exI[of _ "e # us'"] exI[of _ vs']) simp
  next
    case (Some y)
    then have e: "e = At n y" by (auto simp: event_of_def split: catalog_event.splits if_splits)
    then have step: "y # events_of n es = us @ x # vs" using Cons.prems es by simp
    show ?thesis
    proof (cases us)
      case Nil
      then show ?thesis using step e by (intro exI[of _ "[]"] exI[of _ es]) simp
    next
      case (Cons z zs)
      then have "events_of n es = zs @ x # vs" using step by simp
      then obtain us' vs' where "es = us' @ At n x # vs'" "events_of n us' = zs" "events_of n vs' = vs" using Cons.IH by blast
      moreover have "events_of n (e # us') = z # events_of n us'"
        using e Cons step events_of_simps(2)[of n "[e]" us'] by simp
      ultimately show ?thesis using Cons by (intro exI[of _ "e # us'"] exI[of _ vs']) simp
    qed
  qed
qed simp

lemma events_of_mem: "At n x \<in> set es \<Longrightarrow> x \<in> set (events_of n es)"
  by (metis events_of_simps(2,3) in_set_conv_decomp append_Cons append_Nil list.set_intros(1) split_list)

lemma last_clearing:
  assumes "us @ At n x # vs = fs @ gs" and "events_of n fs = []"
  shows "set vs \<subseteq> set gs"
proof -
  have "length fs \<le> length us"
  proof (rule ccontr)
    assume "\<not> length fs \<le> length us"
    then have "At n x = fs ! length us"
      using arg_cong[OF assms(1), of "\<lambda>xs. xs ! length us"] by (simp add: nth_append)
    then have "At n x \<in> set fs" using \<open>\<not> length fs \<le> length us\<close> by simp
    then show False using events_of_mem assms(2) by fastforce
  qed
  then have "gs = drop (length fs) us @ At n x # vs" using assms(1) by (metis append_eq_conv_conj drop_append diff_is_0_eq' drop0)
  then show ?thesis by auto
qed

section \<open>References\<close>

text \<open>While the cache is not cleared, what a thread holds a reference to is there.\<close>

lemma held_schemas_live:
  assumes "catalog_run env put po cat default_schema s es d" and "new_catalog s" and "Cleared \<notin> set es"
    and "n \<in> set (cd_handed d i) \<or> cd_inside d i = Some n"
  shows "cd_objects d n \<noteq> None"
  using assms(1,3,4)
proof (induction arbitrary: n i)
  case start
  then show ?case using assms(2) by (simp add: new_catalog_def)
next
  case (act es d j a e d')
  have inv: "catalog_inv env put po cat es d" and inv': "catalog_inv env put po cat (es @ [e]) d'"
    using catalog_run_inv[OF act(1) assms(2)] catalog_act_inv[OF act(2)] by blast+
  have live: "cd_objects d' m \<noteq> None" if m: "cd_objects d m \<noteq> None" for m
  proof -
    have "m < cd_next d" using m inv by (auto simp: catalog_inv_def)
    then show ?thesis using catalog_act_fate[OF act(2), of m] act.prems(1) m
      by (cases "cd_objects d' m") (auto simp: fate_def)
  qed
  have old: "cd_objects d m \<noteq> None" if "m \<in> set (cd_handed d j') \<or> cd_inside d j' = Some m" for m j'
    using act.IH[of m j'] act.prems(1) that by simp
  have listed: "cd_objects d' m \<noteq> None" if "m \<in> snd ` set (cd_schemas d')" for m
    using inv' that by (auto simp: catalog_inv_def)
  from act(2) show ?case
  proof (cases rule: catalog_act_cases)
    case wide
    from wide(2) show ?thesis
    proof (cases rule: catalog_wide_cases)
      case (added t ns)
      have "cd_handed (schemas_added j t d) = cd_handed d" "cd_inside (schemas_added j t d) = cd_inside d"
        by (simp_all add: schemas_added_def allocate_handed share_def)
      then have "n \<in> snd ` set (cd_schemas d') \<or> n \<in> set (cd_handed d i) \<or> cd_inside d i = Some n"
        using added act.prems(2) by (auto simp: hand_out_def split: if_splits)
      then show ?thesis using live old listed by blast
    next
      case (shared t)
      then show ?thesis using live old[of n i] act.prems(2) by (simp add: share_def)
    next
      case cleared
      then show ?thesis using act.prems(1) by simp
    qed
  next
    case (uses m u ob)
    then show ?thesis using live old[of n i] act.prems(2) by (simp add: put_set_def share_def)
  next
    case (begins m pc ob)
    then have "n = m \<or> n \<in> set (cd_handed d i) \<or> cd_inside d i = Some n"
      using act.prems(2) by (auto simp: put_set_def share_def split: if_splits)
    then show ?thesis using live[of n] old[of n i] begins(2) by auto
  next
    case (proceed m ob x s)
    then have "n = m \<or> n \<in> set (cd_handed d i) \<or> cd_inside d i = Some n"
      using act.prems(2) by (auto simp: put_set_def share_def split: if_splits set_pc.splits)
    then show ?thesis using live[of n] old[of n i] proceed(2) by auto
  qed
qed

lemma object_act_not_dangling: "object_act env put po cat i a n ob c \<noteq> Dangles m"
  by (cases a) (simp_all split: option.split prod.split)

lemma catalog_wide_not_dangling: "catalog_wide env cat default_schema i a c \<noteq> Dangles m"
  by (cases a) simp_all

lemma dangles_iff:
  "catalog_act env put po cat default_schema i a c = Dangles n \<longleftrightarrow> touches i a c = Some n \<and> cd_objects c n = None"
  by (auto simp: catalog_act_def object_act_not_dangling catalog_wide_not_dangling split: option.split)

lemma touches_held: "touches i a c = Some n \<Longrightarrow> n \<in> set (cd_handed c i) \<or> cd_inside c i = Some n"
  by (cases a) (auto split: if_splits)

section \<open>The atomic operations are runs\<close>

text \<open>What the catalog is to a thread after a lookup of a schema is what the lookup of \<open>UC_Schema\<close> leaves.\<close>

lemma object_info_new: "object_info (new_object s si) = si"
  by (simp add: object_info_def new_object_def enter_schema_def)

lemma allocate_view:
  "list_all (\<lambda>p. snd p < cd_next c) (cd_schemas c) \<Longrightarrow>
     catalog_view i (allocate s new c) = (catalog_view i c)\<lparr>uc_schemas := uc_schemas (catalog_view i c) @ new\<rparr>"
proof (induction s new c rule: allocate.induct)
  case (2 s k si new c)
  have "map (\<lambda>(k, n). (k, object_info (the (((cd_objects c)(cd_next c \<mapsto> new_object s si)) n)))) (cd_schemas c)
      = map (\<lambda>(k, n). (k, object_info (the (cd_objects c n)))) (cd_schemas c)"
    using 2(2) by (auto simp: list_all_iff)
  moreover have "list_all (\<lambda>p. snd p < Suc (cd_next c)) (cd_schemas c)"
    using 2(2) by (auto simp: list_all_iff intro: less_SucI)
  ultimately show ?case using 2(1) by (simp add: catalog_view_def object_info_new)
qed (simp add: catalog_view_def)

lemma schemas_added_view:
  assumes "catalog_inv env put po cat es c" and "adds_schemas (catalog_view i c) t"
  shows "catalog_view i (schemas_added i t c) = t"
proof -
  let ?c = "(share i t c)\<lparr>cd_loaded := uc_schemas_loaded t\<rparr>"
  have "list_all (\<lambda>p. snd p < cd_next ?c) (cd_schemas ?c)"
    using assms(1) by (fastforce simp: catalog_inv_def share_def list_all_iff)
  then have "catalog_view i (schemas_added i t c) =
      (catalog_view i ?c)\<lparr>uc_schemas := uc_schemas (catalog_view i ?c) @ drop (length (cd_schemas c)) (uc_schemas t)\<rparr>"
    unfolding schemas_added_def by (rule allocate_view)
  moreover have "uc_schemas (catalog_view i ?c) = uc_schemas (catalog_view i c)" by (simp add: catalog_view_def share_def)
  moreover have "uc_schemas (catalog_view i c) @ drop (length (cd_schemas c)) (uc_schemas t) = uc_schemas t"
    using assms(2) by (auto simp: adds_schemas_def catalog_view_def)
  ultimately show ?thesis by (simp add: catalog_view_def share_def)
qed

lemma hand_out_view [simp]: "catalog_view i (hand_out j ns c) = catalog_view i c"
  by (simp add: catalog_view_def hand_out_def)

lemma find_schema_view:
  assumes "catalog_inv env put po cat es c"
  shows "catalog_view i (find_schema env cat default_schema i name c) =
    snd (lookup_schema env cat default_schema name True (catalog_view i c))"
proof -
  obtain r t where run: "lookup_schema env cat default_schema name True (catalog_view i c) = (r, t)"
    by (cases "lookup_schema env cat default_schema name True (catalog_view i c)")
  show ?thesis using schemas_added_view[OF assms as.keepsD[OF adds_lookup_schema run]] run
    by (auto simp: find_schema_def Let_def split: sum.split option.split)
qed

lemma list_schemas_view:
  assumes "catalog_inv env put po cat es c"
  shows "catalog_view i (list_schemas env cat i c) = snd (ensure_schemas_loaded env cat (catalog_view i c))"
proof -
  obtain r t where run: "ensure_schemas_loaded env cat (catalog_view i c) = (r, t)"
    by (cases "ensure_schemas_loaded env cat (catalog_view i c)")
  show ?thesis using schemas_added_view[OF assms as.keepsD[OF adds_ensure run]] run
    by (auto simp: list_schemas_def Let_def split: sum.split)
qed

lemma drop_schemas_view: "catalog_view i (drop_schemas i c) = snd (clear_cache (catalog_view i c))"
  by (simp add: drop_schemas_def clear_cache_def clear_schema_entries_def catalog_view_def share_def)

text \<open>A request that no other thread interrupts has the effect of the whole operation on the set.\<close>

definition in_set :: "nat \<Rightarrow> nat \<Rightarrow> live_schema \<Rightarrow> shared_catalog \<Rightarrow> shared_set \<Rightarrow> shared_catalog" where
  "in_set i n ob c s = go_inside i (case sd_pcs s i of Resting \<Rightarrow> None | _ \<Rightarrow> Some n) (put_set i n ob s c)"

lemma in_set_open: "open_set i (in_set i n ob c s) (ob\<lparr>ob_set := s\<rparr>) = s"
  by (simp add: open_set_def in_set_def go_inside_def put_set_def share_def enter_schema_def catalog_view_def object_info_def)

lemma in_set_again: "go_inside i w (put_set i n (ob\<lparr>ob_set := s\<rparr>) t (in_set i n ob c s)) = go_inside i w (put_set i n ob t c)"
  by (simp add: in_set_def go_inside_def put_set_def share_def)

lemma in_set_step:
  assumes "set_moves env put po cat (object_name ob) i s t"
  shows "\<exists>e. catalog_act env put po cat default_schema i Proceed (in_set i n ob c s) = Moves e (in_set i n ob c t)"
proof -
  obtain e where e: "set_advance env put po cat (object_name ob) i s = Some (e, t)" using assms by (auto simp: set_moves_def)
  then have "sd_pcs s i \<noteq> Resting" by (auto simp: set_advance_def Let_def)
  then have "cd_inside (in_set i n ob c s) i = Some n" by (simp add: in_set_def split: set_pc.split)
  moreover have "cd_objects (in_set i n ob c s) n = Some (ob\<lparr>ob_set := s\<rparr>)" by (simp add: in_set_def put_set_def share_def)
  moreover have "object_name (ob\<lparr>ob_set := s\<rparr>) = object_name ob" by (simp add: object_name_def)
  ultimately show ?thesis using e by (simp add: catalog_act_def in_set_open in_set_again) (simp add: in_set_def)
qed

lemma in_set_run:
  assumes "reaches env put po cat (object_name ob) i s t" and "catalog_run env put po cat default_schema c es (in_set i n ob c s)"
  shows "\<exists>fs. catalog_run env put po cat default_schema c fs (in_set i n ob c t)"
  using assms
proof induction
  case (step u v)
  then obtain fs where "catalog_run env put po cat default_schema c fs (in_set i n ob c u)" by blast
  moreover obtain e where "catalog_act env put po cat default_schema i Proceed (in_set i n ob c u) = Moves e (in_set i n ob c v)"
    using in_set_step[OF step(2)] by blast
  ultimately show ?case by (blast intro: catalog_run.act)
qed blast

lemma request_is_catalog_run:
  assumes "cd_objects c n = Some ob" and "n \<in> set (cd_handed c i)" and "cd_inside c i = None"
    and "sd_loader (ob_set ob) = None" and "sd_pcs (ob_set ob) i = Resting"
  shows "\<exists>es. catalog_run env put po cat default_schema c es
    (put_set i n ob ((ob_set ob)\<lparr>sd_set := snd (handle_request env cat (object_name ob) req (sd_set (open_set i c ob)))\<rparr>) c)"
proof -
  let ?s = "open_set i c ob"
  let ?m = "move_to i (WaitsToLoad req) (sd_set ?s) ?s"
  let ?t = "?s\<lparr>sd_set := snd (handle_request env cat (object_name ob) req (sd_set ?s))\<rparr>"
  have s: "sd_loader ?s = None" "sd_pcs ?s i = Resting" using assms(4,5) by (simp_all add: open_set_def)
  have "catalog_act env put po cat default_schema i (Ask n req) c = Moves Silent (in_set i n ob c ?m)"
    using assms(1-3) by (simp add: catalog_act_def in_set_def move_to_def open_set_def)
  from in_set_run[OF request_is_run[OF s refl] catalog_run.act[OF catalog_run.start this]]
  obtain es where "catalog_run env put po cat default_schema c es (in_set i n ob c ?t)" by blast
  moreover have "in_set i n ob c ?t = put_set i n ob ?t c"
    using s assms(3) by (simp add: in_set_def go_inside_def put_set_def share_def fun_upd_idem)
  ultimately show ?thesis by (auto simp: open_set_def)
qed

lemma create_is_catalog_run:
  assumes "cd_objects c n = Some ob" and "n \<in> set (cd_handed c i)" and "cd_inside c i = None"
    and "sd_loader (ob_set ob) = None" and "sd_pcs (ob_set ob) i = Resting"
  shows "\<exists>es. catalog_run env put po cat default_schema c es
    (put_set i n ob ((ob_set ob)\<lparr>sd_set := snd (create_table env put po cat (object_name ob) info (sd_set (open_set i c ob)))\<rparr>) c)"
proof -
  let ?s = "open_set i c ob"
  let ?m = "move_to i (Creates info) (sd_set ?s) ?s"
  let ?t = "?s\<lparr>sd_set := snd (create_table env put po cat (object_name ob) info (sd_set ?s))\<rparr>"
  have s: "sd_loader ?s = None" "sd_pcs ?s i = Resting" using assms(4,5) by (simp_all add: open_set_def)
  have "catalog_act env put po cat default_schema i (CreateIn n info) c = Moves Silent (in_set i n ob c ?m)"
    using assms(1-3) by (simp add: catalog_act_def in_set_def move_to_def open_set_def)
  from in_set_run[OF create_is_run[OF s refl] catalog_run.act[OF catalog_run.start this]]
  obtain es where "catalog_run env put po cat default_schema c es (in_set i n ob c ?t)" by blast
  moreover have "in_set i n ob c ?t = put_set i n ob ?t c"
    using s assms(3) by (simp add: in_set_def go_inside_def put_set_def share_def fun_upd_idem)
  ultimately show ?thesis by (auto simp: open_set_def)
qed

section \<open>Properties\<close>

text \<open>
  C8: References stay valid until the cache is cleared. A schema that was there at any time is still there, with its tables as they
  were handed out, as long as the cache was not cleared since, whatever all threads do; once it was, every use
  of a pointer to that schema follows a dangling pointer. Nothing else makes one dangle.
\<close>

theorem references_live_until_cleared:
  assumes "new_catalog s" and "catalog_run env put po cat default_schema s es c" and "cd_objects c n = Some ob"
    and "catalog_run env put po cat default_schema c fs d"
  shows "(catalog_act env put po cat default_schema i a d = Dangles n \<longleftrightarrow> touches i a d = Some n \<and> Cleared \<in> set fs) \<and>
    (Cleared \<in> set fs \<or> (\<exists>ob'. cd_objects d n = Some ob' \<and> ob_info ob' = ob_info ob \<and>
      handed_out (sd_set (ob_set ob)) \<subseteq>\<^sub>m handed_out (sd_set (ob_set ob'))))"
proof -
  have "n < cd_next c" using catalog_run_inv[OF assms(2,1)] assms(3) by (auto simp: catalog_inv_def)
  then have "fate (Cleared \<in> set fs) (Some ob) (cd_objects d n)" using catalog_run_fate[OF assms(4)] assms(3) by metis
  then show ?thesis by (cases "cd_objects d n") (auto simp: fate_def kept_def dangles_iff split: if_splits)
qed

definition small_server :: env where
  "small_server = env_witness\<lparr>e_read := (\<lambda>_. Some (JObj [(''schemas'', JArr [JObj [(''name'', JStr ''s'')]]),
     (''tables'', JArr [JObj [(''name'', JStr ''t''), (''table_type'', JStr ''MANAGED''), (''table_id'', JStr ''1'')]])]))\<rparr>"

definition attached_now :: shared_catalog where
  "attached_now = \<lparr>cd_hist = [], cd_availability = UNKNOWN_PLAN, cd_unavailable_since = 0,
     cd_transactions = (\<lambda>_. (NOT_YET_STARTED, [])), cd_schemas = [], cd_loaded = False, cd_objects = (\<lambda>_. None), cd_next = 0,
     cd_handed = (\<lambda>_. []), cd_inside = (\<lambda>_. None)\<rparr>"

abbreviation small_schedule :: "(nat \<times> catalog_action) list \<Rightarrow> shared_catalog \<Rightarrow> (catalog_event list \<times> shared_catalog) option" where
  "small_schedule \<equiv> catalog_schedule small_server put_witness no_paths settings_witness ''s''"

lemma new_attached_now: "new_catalog attached_now"
  by (simp add: new_catalog_def attached_now_def)

lemma small_schedule_run:
  "small_schedule acts attached_now = Some (es, d) \<Longrightarrow>
     catalog_run small_server put_witness no_paths settings_witness ''s'' attached_now es d"
  using catalog_schedule_run[OF catalog_run.start] by fastforce

lemma references_live_until_cleared_witness:
  "\<exists>es c fs d. small_schedule [(1, FindSchema ''S'')] attached_now = Some (es, c) \<and>
     small_schedule [(0, DropCache), (0, FindSchema ''s'')] c = Some (fs, d) \<and>
     catalog_act small_server put_witness no_paths settings_witness ''s'' 1 (Ask 0 ListAll) d = Dangles 0"
proof -
  have "case small_schedule [(1, FindSchema ''S'')] attached_now of None \<Rightarrow> False | Some (es, c) \<Rightarrow>
      (case cd_objects c 0 of None \<Rightarrow> False | Some ob \<Rightarrow> True) \<and>
      (case small_schedule [(0, DropCache), (0, FindSchema ''s'')] c of None \<Rightarrow> False | Some (fs, d) \<Rightarrow>
        (case fs of [Cleared, Silent] \<Rightarrow> True | _ \<Rightarrow> False) \<and>
        touches 1 (Ask 0 ListAll) d = Some 0)" by code_simp
  then obtain es c ob fs d where first: "small_schedule [(1, FindSchema ''S'')] attached_now = Some (es, c)"
    and ob: "cd_objects c 0 = Some ob"
    and more: "small_schedule [(0, DropCache), (0, FindSchema ''s'')] c = Some (fs, d)"
    and fs: "case fs of [Cleared, Silent] \<Rightarrow> True | _ \<Rightarrow> False" and touch: "touches 1 (Ask 0 ListAll) d = Some 0"
    by (auto simp del: catalog_schedule.simps touches.simps split: option.splits prod.splits)
  have cleared: "Cleared \<in> set fs" using fs by (auto split: list.splits catalog_event.splits)
  have "catalog_run small_server put_witness no_paths settings_witness ''s'' c fs d"
    using catalog_schedule_run[OF catalog_run.start more] by simp
  from references_live_until_cleared[OF new_attached_now small_schedule_run[OF first] ob this,
      of 1 "Ask 0 ListAll"] touch cleared
  have "catalog_act small_server put_witness no_paths settings_witness ''s'' 1 (Ask 0 ListAll) d = Dangles 0" by blast
  with first more show ?thesis by blast
qed

text \<open>
  C6: A lookup sees every table of a current listing. In every interleaving of threads over all schemas, with the cache
  cleared at any time: when a thread reads the table map of a schema for a request, all tables of some listing are in it;
  that listing was fetched after the last clearing, after every table that other threads had created there and
  marked before this request was let in, and after every table this thread ever created there.
\<close>

theorem catalog_lookups_see_current_listing:
  assumes "catalog_run env put po cat default_schema s es d" and "new_catalog s"
    and "cd_objects d n = Some ob" and "sd_pcs (ob_set ob) i = Serves req"
  shows "\<exists>us ts vs ws. es = us @ At n (Listed ts) # vs @ At n (Ready i) # ws \<and>
    list_all (\<lambda>e. case e of At m (Listed _) \<Rightarrow> m \<noteq> n | At m (Marked j) \<Rightarrow> m \<noteq> n | At m (Created j) \<Rightarrow> m \<noteq> n \<or> j \<noteq> i
      | _ \<Rightarrow> True) vs \<and> At n (Ready i) \<notin> set ws \<and> Cleared \<notin> set (vs @ ws) \<and>
    list_all (\<lambda>x. map_of (us_tables (sd_set (ob_set ob))) (lower (tb_name x)) \<noteq> None) ts"
proof -
  have ok: "object_ok env put po cat es d n ob" using catalog_run_inv[OF assms(1,2)] assms(3) by (simp add: catalog_inv_def)
  then obtain t where run: "set_run env put po cat (object_name ob) t (events_of n es) (ob_set ob)" "fresh_set t"
    by (auto simp: object_ok_def)
  obtain fs gs where gs: "es = fs @ gs" "Cleared \<notin> set gs" "events_of n fs = []" using ok by (auto simp: object_ok_def)
  obtain us ts vs ws where e: "events_of n es = us @ Listed ts # vs @ Ready i # ws" "Ready i \<notin> set ws"
    "list_all (\<lambda>e. case e of Listed _ \<Rightarrow> False | Marked j \<Rightarrow> False | Created j \<Rightarrow> j \<noteq> i | _ \<Rightarrow> True) vs"
    "list_all (\<lambda>x. map_of (us_tables (sd_set (ob_set ob))) (lower (tb_name x)) \<noteq> None) ts"
    using lookups_see_current_listing[OF run assms(4)] by blast
  obtain us' rest where es: "es = us' @ At n (Listed ts) # rest" "events_of n rest = vs @ Ready i # ws"
    using events_of_split[OF e(1)] by blast
  obtain vs' ws' where rest: "rest = vs' @ At n (Ready i) # ws'" "events_of n vs' = vs" "events_of n ws' = ws"
    using events_of_split[OF es(2)] by blast
  have "Cleared \<notin> set rest" using last_clearing[of us' n "Listed ts" rest fs gs] es gs by auto
  moreover have "At n (Ready i) \<notin> set ws'" using e(2) rest(3) events_of_mem by metis
  moreover have "list_all (\<lambda>e. case e of At m (Listed _) \<Rightarrow> m \<noteq> n | At m (Marked j) \<Rightarrow> m \<noteq> n
      | At m (Created j) \<Rightarrow> m \<noteq> n \<or> j \<noteq> i | _ \<Rightarrow> True) vs'"
    using e(3) rest(2) events_of_mem[of n _ vs']
    by (fastforce simp: list_all_iff split: catalog_event.split set_event.split)
  ultimately show ?thesis using es(1) rest(1) e(4) by (intro exI[of _ us'] exI[of _ ts] exI[of _ vs'] exI[of _ ws']) simp
qed

text \<open>Two threads in one schema: the second finds the listing that the first had fetched after the cache was cleared.\<close>

definition two_threads :: "(nat \<times> catalog_action) list" where
  "two_threads = [(0, FindSchema ''s''), (0, DropCache), (0, FindSchema ''S''), (1, FindSchema ''s''),
     (0, Ask 1 (LookUp ''T'' None)), (1, Ask 1 ListAll), (0, Proceed), (0, Proceed), (0, Proceed), (0, Proceed), (0, Proceed),
     (1, Proceed), (1, Proceed)]"

lemma catalog_lookups_see_current_listing_witness:
  "\<exists>es d ob. small_schedule two_threads attached_now = Some (es, d) \<and> cd_objects d 1 = Some ob \<and>
     map fst (us_tables (sd_set (ob_set ob))) = [''t''] \<and>
     (\<exists>us ts vs ws. es = us @ At 1 (Listed ts) # vs @ At 1 (Ready 1) # ws)"
proof -
  have "case small_schedule two_threads attached_now of None \<Rightarrow> False | Some (es, d) \<Rightarrow>
      (case cd_objects d 1 of None \<Rightarrow> False | Some ob \<Rightarrow>
        (case sd_pcs (ob_set ob) 1 of Serves req \<Rightarrow> True | _ \<Rightarrow> False) \<and>
        map fst (us_tables (sd_set (ob_set ob))) = [''t''])" by code_simp
  then obtain es d ob where run: "small_schedule two_threads attached_now = Some (es, d)" and ob: "cd_objects d 1 = Some ob"
    and at: "case sd_pcs (ob_set ob) 1 of Serves req \<Rightarrow> True | _ \<Rightarrow> False"
    and keys: "map fst (us_tables (sd_set (ob_set ob))) = [''t'']"
    by (auto simp del: catalog_schedule.simps split: option.splits prod.splits)
  from at obtain req where t: "sd_pcs (ob_set ob) 1 = Serves req" by (cases "sd_pcs (ob_set ob) 1") auto
  from catalog_lookups_see_current_listing[OF small_schedule_run[OF run] new_attached_now ob t]
  have "\<exists>us ts vs ws. es = us @ At 1 (Listed ts) # vs @ At 1 (Ready 1) # ws" by blast
  with run ob keys have "small_schedule two_threads attached_now = Some (es, d) \<and> cd_objects d 1 = Some ob \<and>
     map fst (us_tables (sd_set (ob_set ob))) = [''t''] \<and>
     (\<exists>us ts vs ws. es = us @ At 1 (Listed ts) # vs @ At 1 (Ready 1) # ws)" by (intro conjI)
  then show ?thesis by (intro exI)
qed

end
